(* ===== verification/Prelude.thy ===== *)
theory Prelude
  imports Main "HOL-Library.Word" "HOL-Library.Monad_Syntax"
begin

text \<open>
  Shared vocabulary of the development.

  \<^item> Machine types: bytes are \<^typ>\<open>8 word\<close>, header fields are words of their C width. Sizes
    and microsecond counters (\<open>size_t\<close>, \<open>pa_usec_t\<close>, both 64 bit here) are \<^typ>\<open>nat\<close> with the
    wrap-around written out by \<open>wrap64\<close>, \<open>size_add\<close> and \<open>size_sub\<close> wherever the code does not
    rule it out; stream positions (\<open>int64_t\<close>) are \<^typ>\<open>int\<close>, because signed overflow has no
    defined result in C.
  \<^item> Abnormal termination: an operation that can hit a failing \<open>pa_assert\<close> or touch memory
    outside an object returns an \<^typ>\<open>'a option\<close>; \<^term>\<open>None\<close> is the abnormal end and ordinary
    error returns of the C function are values inside \<^term>\<open>Some\<close>.
  \<^item> Little- and big-endian byte strings, loads from a byte buffer, and the interface of a
    fixed-width encoding (locale \<open>fixed_codec\<close>).
\<close>

named_theorems wrap_simps \<open>arithmetic without wrap-around\<close>
named_theorems codec_simps \<open>round trips and widths of encodings\<close>

type_synonym byte = "8 word"
type_synonym bytes = "byte list"

subsection \<open>Failing assertions\<close>

definition pa_assert :: "bool \<Rightarrow> unit option" where
  "pa_assert b = (if b then Some () else None)"

lemma pa_assert_simps [simp]:
  "pa_assert True = Some ()"
  "pa_assert False = None"
  by (simp_all add: pa_assert_def)

lemma pa_assert_eq_Some [simp]: "(pa_assert b = Some u) = b"
  by (simp add: pa_assert_def)

lemma pa_assert_bind_eq_Some [simp]:
  "(Option.bind (pa_assert b) f = Some y) = (b \<and> f () = Some y)"
  by (simp add: pa_assert_def)

lemma pa_assert_bind_eq_None [simp]:
  "(Option.bind (pa_assert b) f = None) = (\<not> b \<or> f () = None)"
  by (auto simp: pa_assert_def)

lemma pa_assert_bind_True: "b \<Longrightarrow> Option.bind (pa_assert b) f = f ()"
  by simp

subsection \<open>64-bit unsigned arithmetic\<close>

definition wrap64 :: "nat \<Rightarrow> nat" where
  "wrap64 n = n mod 2 ^ 64"

definition size_add :: "nat \<Rightarrow> nat \<Rightarrow> nat" where
  "size_add a b = wrap64 (a + b)"

definition size_sub :: "nat \<Rightarrow> nat \<Rightarrow> nat" where
  "size_sub a b = wrap64 (a + (2 ^ 64 - b mod 2 ^ 64))"

definition SIZE_MAX :: nat where
  "SIZE_MAX = 2 ^ 64 - 1"

lemma wrap64_id [simp, wrap_simps]: "n < 2 ^ 64 \<Longrightarrow> wrap64 n = n"
  by (simp add: wrap64_def)

lemma wrap64_less [simp]: "wrap64 n < 2 ^ 64"
  by (simp add: wrap64_def)

lemma size_add_id [wrap_simps]: "a + b < 2 ^ 64 \<Longrightarrow> size_add a b = a + b"
  by (simp add: size_add_def wrap64_def)

lemma size_sub_id [wrap_simps]:
  assumes "b \<le> a" "a < 2 ^ 64"
  shows "size_sub a b = a - b"
proof -
  from assms have "b mod 2 ^ 64 = b" by simp
  then have "a + (2 ^ 64 - b mod 2 ^ 64) = (a - b) + 2 ^ 64"
    using assms by simp
  then have "size_sub a b = (a - b) mod 2 ^ 64"
    by (simp add: size_sub_def wrap64_def del: mod_less)
  with assms show ?thesis by simp
qed

lemma size_sub_wraps:
  assumes "a < b" "b < 2 ^ 64"
  shows "size_sub a b = 2 ^ 64 - (b - a)"
proof -
  from assms have b: "b mod 2 ^ 64 = b" by simp
  have "size_sub a b = (2 ^ 64 - (b - a)) mod 2 ^ 64"
    using assms unfolding size_sub_def wrap64_def b by (simp add: algebra_simps)
  also have "\<dots> = 2 ^ 64 - (b - a)"
    using assms by (intro mod_less) simp
  finally show ?thesis .
qed

subsection \<open>Integers as byte strings\<close>

primrec le_enc :: "nat \<Rightarrow> nat \<Rightarrow> bytes" where
  "le_enc 0 v = []"
| "le_enc (Suc n) v = of_nat (v mod 256) # le_enc n (v div 256)"

primrec le_dec :: "bytes \<Rightarrow> nat" where
  "le_dec [] = 0"
| "le_dec (b # bs) = unat b + 256 * le_dec bs"

definition be_enc :: "nat \<Rightarrow> nat \<Rightarrow> bytes" where
  "be_enc n v = rev (le_enc n v)"

definition be_dec :: "bytes \<Rightarrow> nat" where
  "be_dec bs = le_dec (rev bs)"

lemma length_le_enc [simp, codec_simps]: "length (le_enc n v) = n"
  by (induction n arbitrary: v) simp_all

lemma length_be_enc [simp, codec_simps]: "length (be_enc n v) = n"
  by (simp add: be_enc_def)

lemma unat_byte_of_nat: "unat (of_nat (v mod 256) :: byte) = v mod 256"
  by (simp add: unat_of_nat)

lemma le_dec_enc: "le_dec (le_enc n v) = v mod 256 ^ n"
proof (induction n arbitrary: v)
  case 0
  then show ?case by simp
next
  case (Suc n)
  have "le_dec (le_enc (Suc n) v) = v mod 256 + 256 * (v div 256 mod 256 ^ n)"
    by (simp add: Suc unat_byte_of_nat)
  also have "\<dots> = v mod (256 * 256 ^ n)"
    by (simp add: mod_mult2_eq)
  finally show ?case by simp
qed

lemma le_dec_less: "le_dec bs < 256 ^ length bs"
proof (induction bs)
  case Nil
  then show ?case by simp
next
  case (Cons b bs)
  have "unat b < 256" using unsigned_less [of b] by simp
  with Cons show ?case by simp
qed

lemma le_enc_dec: "le_enc (length bs) (le_dec bs) = bs"
proof (induction bs)
  case Nil
  then show ?case by simp
next
  case (Cons b bs)
  have "unat b < 256" using unsigned_less [of b] by simp
  with Cons show ?case by simp
qed

lemma be_dec_enc: "be_dec (be_enc n v) = v mod 256 ^ n"
  by (simp add: be_dec_def be_enc_def le_dec_enc)

lemma be_dec_less: "be_dec bs < 256 ^ length bs"
  using le_dec_less [of "rev bs"] by (simp add: be_dec_def)

lemma le_dec_enc_unat [simp, codec_simps]:
  fixes w :: "'a::len word"
  assumes "LENGTH('a) \<le> 8 * n"
  shows "le_dec (le_enc n (unat w)) = unat w"
proof -
  have "unat w < 2 ^ LENGTH('a)" by (rule unsigned_less)
  also have "\<dots> \<le> 2 ^ (8 * n)" using assms by (simp add: power_increasing)
  also have "\<dots> = (256 :: nat) ^ n" by (simp add: power_mult)
  finally show ?thesis by (simp add: le_dec_enc)
qed

lemma be_dec_enc_unat [simp, codec_simps]:
  fixes w :: "'a::len word"
  assumes "LENGTH('a) \<le> 8 * n"
  shows "be_dec (be_enc n (unat w)) = unat w"
  using le_dec_enc_unat [OF assms, of w] by (simp add: be_dec_def be_enc_def)

subsection \<open>Loads from a buffer\<close>

definition load_bytes :: "bytes \<Rightarrow> nat \<Rightarrow> nat \<Rightarrow> bytes option" where
  "load_bytes buf off n = (if off + n \<le> length buf then Some (take n (drop off buf)) else None)"

lemma load_bytes_mid:
  "length pre = off \<Longrightarrow> length mid = n \<Longrightarrow> load_bytes (pre @ mid @ post) off n = Some mid"
  by (simp add: load_bytes_def)

lemma load_bytes_Some_length: "load_bytes buf off n = Some bs \<Longrightarrow> length bs = n"
  by (auto simp: load_bytes_def split: if_splits)

lemma load_bytes_eq_None: "(load_bytes buf off n = None) = (length buf < off + n)"
  by (auto simp: load_bytes_def)

subsection \<open>Fixed-width encodings\<close>

lemma of_nat_le_dec_enc [simp, codec_simps]:
  fixes w :: "'a::len word"
  assumes "LENGTH('a) \<le> 8 * n"
  shows "of_nat (le_dec (le_enc n (unat w))) = w"
  using assms by simp

lemma le_enc_of_nat_dec:
  assumes "length bs = n" "LENGTH('a::len) = 8 * n"
  shows "le_enc n (unat (of_nat (le_dec bs) :: 'a word)) = bs"
proof -
  have "le_dec bs < 2 ^ LENGTH('a)"
    using le_dec_less [of bs] assms by (simp add: power_mult)
  then have "unat (of_nat (le_dec bs) :: 'a word) = le_dec bs"
    by (simp add: unat_of_nat take_bit_eq_mod)
  then show ?thesis using le_enc_dec [of bs] assms(1) by simp
qed

text \<open>
  The interface a packed struct offers to the code that overlays it on a byte buffer: every
  value whose arrays have their declared sizes occupies \<open>width\<close> bytes and is read back from
  them, and every string of \<open>width\<close> bytes is such a value.
\<close>

locale fixed_codec =
  fixes width :: nat
    and sized :: "'a \<Rightarrow> bool"
    and enc :: "'a \<Rightarrow> bytes"
    and dec :: "bytes \<Rightarrow> 'a"
  assumes length_enc: "sized x \<Longrightarrow> length (enc x) = width"
    and dec_enc: "sized x \<Longrightarrow> dec (enc x) = x"
    and sized_dec: "length bs = width \<Longrightarrow> sized (dec bs)"
    and enc_dec: "length bs = width \<Longrightarrow> enc (dec bs) = bs"
begin

lemma load_enc:
  assumes "length pre = off" "sized x"
  shows "load_bytes (pre @ enc x @ post) off width = Some (enc x)"
  using assms length_enc by (intro load_bytes_mid) simp_all

lemma dec_take_drop:
  assumes "length pre = off" "sized x"
  shows "dec (take width (drop off (pre @ enc x @ post))) = x"
  using assms length_enc dec_enc by simp

lemma enc_inj: "sized x \<Longrightarrow> sized y \<Longrightarrow> enc x = enc y \<Longrightarrow> x = y"
  by (metis dec_enc)

lemma dec_inj: "length a = width \<Longrightarrow> length b = width \<Longrightarrow> dec a = dec b \<Longrightarrow> a = b"
  by (metis enc_dec)

end

subsection \<open>Lists\<close>

lemma nth_remove:
  assumes "i < length xs" "k < length xs - 1"
  shows "(take i xs @ drop (Suc i) xs) ! k = (if k < i then xs ! k else xs ! Suc k)"
  using assms by (auto simp: nth_append min_def)

lemma take_Suc_nth: "i < length xs \<Longrightarrow> take (Suc i) xs = take i xs @ [xs ! i]"
  by (rule take_Suc_conv_app_nth)

lemma take_nth_drop: "i < length xs \<Longrightarrow> take i xs @ xs ! i # drop (Suc i) xs = xs"
  by (rule id_take_nth_drop [symmetric])

lemma nth_take_drop: "i + k < length xs \<Longrightarrow> k < n \<Longrightarrow> take n (drop i xs) ! k = xs ! (i + k)"
  by simp

end
