(* ===== verification/Sample.thy ===== *)
theory Sample
  imports Prelude
begin

text \<open>
  Sample formats and sample specifications: \<open>src/pulse/sample.h\<close>, \<open>src/pulse/sample.c\<close>, and
  the frame arithmetic of \<open>src/pulsecore/sample-util.c\<close>.
\<close>

subsection \<open>Formats\<close>

text \<open>
  The enumeration of \<open>pa_sample_format_t\<close>. The protocol code assigns unchecked bytes to an
  object of this type, so it also takes values above the enumerators: \<open>PA_SAMPLE_OTHER n\<close>
  stands for the number \<open>14 + n\<close>.
\<close>

datatype pa_sample_format_t =
    PA_SAMPLE_U8
  | PA_SAMPLE_ALAW
  | PA_SAMPLE_ULAW
  | PA_SAMPLE_S16LE
  | PA_SAMPLE_S16BE
  | PA_SAMPLE_FLOAT32LE
  | PA_SAMPLE_FLOAT32BE
  | PA_SAMPLE_S32LE
  | PA_SAMPLE_S32BE
  | PA_SAMPLE_S24LE
  | PA_SAMPLE_S24BE
  | PA_SAMPLE_S24_32LE
  | PA_SAMPLE_S24_32BE
  | PA_SAMPLE_MAX
  | PA_SAMPLE_INVALID
  | PA_SAMPLE_OTHER nat

fun format_num :: "pa_sample_format_t \<Rightarrow> int" where
  "format_num PA_SAMPLE_U8 = 0"
| "format_num PA_SAMPLE_ALAW = 1"
| "format_num PA_SAMPLE_ULAW = 2"
| "format_num PA_SAMPLE_S16LE = 3"
| "format_num PA_SAMPLE_S16BE = 4"
| "format_num PA_SAMPLE_FLOAT32LE = 5"
| "format_num PA_SAMPLE_FLOAT32BE = 6"
| "format_num PA_SAMPLE_S32LE = 7"
| "format_num PA_SAMPLE_S32BE = 8"
| "format_num PA_SAMPLE_S24LE = 9"
| "format_num PA_SAMPLE_S24BE = 10"
| "format_num PA_SAMPLE_S24_32LE = 11"
| "format_num PA_SAMPLE_S24_32BE = 12"
| "format_num PA_SAMPLE_MAX = 13"
| "format_num PA_SAMPLE_INVALID = -1"
| "format_num (PA_SAMPLE_OTHER n) = 14 + int n"

definition formats :: "pa_sample_format_t list" where
  "formats =
     [PA_SAMPLE_U8, PA_SAMPLE_ALAW, PA_SAMPLE_ULAW, PA_SAMPLE_S16LE, PA_SAMPLE_S16BE,
      PA_SAMPLE_FLOAT32LE, PA_SAMPLE_FLOAT32BE, PA_SAMPLE_S32LE, PA_SAMPLE_S32BE,
      PA_SAMPLE_S24LE, PA_SAMPLE_S24BE, PA_SAMPLE_S24_32LE, PA_SAMPLE_S24_32BE]"

definition format_of_num :: "int \<Rightarrow> pa_sample_format_t" where
  "format_of_num n =
     (if 0 \<le> n \<and> n < 13 then formats ! nat n
      else if n = 13 then PA_SAMPLE_MAX
      else if n < 0 then PA_SAMPLE_INVALID
      else PA_SAMPLE_OTHER (nat (n - 14)))"

text \<open>Native-endian names, for a little-endian host.\<close>

abbreviation PA_SAMPLE_S16NE where "PA_SAMPLE_S16NE \<equiv> PA_SAMPLE_S16LE"
abbreviation PA_SAMPLE_FLOAT32NE where "PA_SAMPLE_FLOAT32NE \<equiv> PA_SAMPLE_FLOAT32LE"
abbreviation PA_SAMPLE_S32NE where "PA_SAMPLE_S32NE \<equiv> PA_SAMPLE_S32LE"
abbreviation PA_SAMPLE_S24NE where "PA_SAMPLE_S24NE \<equiv> PA_SAMPLE_S24LE"
abbreviation PA_SAMPLE_S24_32NE where "PA_SAMPLE_S24_32NE \<equiv> PA_SAMPLE_S24_32LE"
abbreviation PA_SAMPLE_S16RE where "PA_SAMPLE_S16RE \<equiv> PA_SAMPLE_S16BE"
abbreviation PA_SAMPLE_FLOAT32RE where "PA_SAMPLE_FLOAT32RE \<equiv> PA_SAMPLE_FLOAT32BE"
abbreviation PA_SAMPLE_S32RE where "PA_SAMPLE_S32RE \<equiv> PA_SAMPLE_S32BE"
abbreviation PA_SAMPLE_S24RE where "PA_SAMPLE_S24RE \<equiv> PA_SAMPLE_S24BE"
abbreviation PA_SAMPLE_S24_32RE where "PA_SAMPLE_S24_32RE \<equiv> PA_SAMPLE_S24_32BE"

fun size_table :: "pa_sample_format_t \<Rightarrow> nat" where
  "size_table PA_SAMPLE_U8 = 1"
| "size_table PA_SAMPLE_ULAW = 1"
| "size_table PA_SAMPLE_ALAW = 1"
| "size_table PA_SAMPLE_S16LE = 2"
| "size_table PA_SAMPLE_S16BE = 2"
| "size_table PA_SAMPLE_FLOAT32LE = 4"
| "size_table PA_SAMPLE_FLOAT32BE = 4"
| "size_table PA_SAMPLE_S32LE = 4"
| "size_table PA_SAMPLE_S32BE = 4"
| "size_table PA_SAMPLE_S24LE = 3"
| "size_table PA_SAMPLE_S24BE = 3"
| "size_table PA_SAMPLE_S24_32LE = 4"
| "size_table PA_SAMPLE_S24_32BE = 4"
| "size_table _ = 0"

subsection \<open>Sample specifications\<close>

record pa_sample_spec =
  ss_format :: pa_sample_format_t
  ss_rate :: nat
  ss_channels :: nat

definition PA_CHANNELS_MAX :: nat where "PA_CHANNELS_MAX = 32"
definition PA_RATE_MAX :: nat where "PA_RATE_MAX = 48000 * 8"
definition PA_USEC_PER_SEC :: nat where "PA_USEC_PER_SEC = 1000000"

definition pa_sample_format_valid :: "int \<Rightarrow> bool" where
  "pa_sample_format_valid format =
     ((if format < 0 then format + 2 ^ 32 else format) < format_num PA_SAMPLE_MAX)"

definition pa_sample_rate_valid :: "nat \<Rightarrow> bool" where
  "pa_sample_rate_valid rate = (rate > 0 \<and> rate \<le> PA_RATE_MAX * 101 div 100)"

definition pa_channels_valid :: "nat \<Rightarrow> bool" where
  "pa_channels_valid channels = (channels > 0 \<and> channels \<le> PA_CHANNELS_MAX)"

definition pa_sample_spec_valid :: "pa_sample_spec \<Rightarrow> bool" where
  "pa_sample_spec_valid spec =
     (if \<not> pa_sample_rate_valid (ss_rate spec) \<or>
         \<not> pa_channels_valid (ss_channels spec) \<or>
         \<not> pa_sample_format_valid (format_num (ss_format spec))
      then False else True)"

definition pa_sample_size_of_format :: "pa_sample_format_t \<Rightarrow> nat option" where
  "pa_sample_size_of_format f = do {
     pa_assert (pa_sample_format_valid (format_num f));
     Some (size_table f) }"

definition pa_sample_size :: "pa_sample_spec \<Rightarrow> nat option" where
  "pa_sample_size spec = do {
     pa_assert (pa_sample_spec_valid spec);
     Some (size_table (ss_format spec)) }"

definition pa_frame_size :: "pa_sample_spec \<Rightarrow> nat option" where
  "pa_frame_size spec = do {
     pa_assert (pa_sample_spec_valid spec);
     Some (size_table (ss_format spec) * ss_channels spec) }"

definition pa_bytes_per_second :: "pa_sample_spec \<Rightarrow> nat option" where
  "pa_bytes_per_second spec = do {
     pa_assert (pa_sample_spec_valid spec);
     Some (wrap64 (ss_rate spec * size_table (ss_format spec) * ss_channels spec)) }"

definition pa_bytes_to_usec :: "nat \<Rightarrow> pa_sample_spec \<Rightarrow> nat option" where
  "pa_bytes_to_usec len spec = do {
     pa_assert (pa_sample_spec_valid spec);
     Some (wrap64 ((len div (size_table (ss_format spec) * ss_channels spec)) * PA_USEC_PER_SEC)
             div ss_rate spec) }"

definition pa_usec_to_bytes :: "nat \<Rightarrow> pa_sample_spec \<Rightarrow> nat option" where
  "pa_usec_to_bytes t spec = do {
     pa_assert (pa_sample_spec_valid spec);
     Some (wrap64 ((wrap64 (t * ss_rate spec) div PA_USEC_PER_SEC)
             * (size_table (ss_format spec) * ss_channels spec))) }"

definition pa_sample_spec_init :: pa_sample_spec where
  "pa_sample_spec_init = \<lparr>ss_format = PA_SAMPLE_INVALID, ss_rate = 0, ss_channels = 0\<rparr>"

text \<open>
  The shortcut \<open>a == b\<close> of \<open>pa_sample_spec_equal\<close> compares addresses; equal addresses hold
  equal values, for which the fall-through comparison gives the same answer.
\<close>

definition pa_sample_spec_equal :: "pa_sample_spec \<Rightarrow> pa_sample_spec \<Rightarrow> bool" where
  "pa_sample_spec_equal a b =
     (if \<not> pa_sample_spec_valid a then False
      else if \<not> pa_sample_spec_valid b then False
      else ss_format a = ss_format b \<and> ss_rate a = ss_rate b \<and> ss_channels a = ss_channels b)"

subsection \<open>Names of formats\<close>

fun pa_sample_format_to_string :: "pa_sample_format_t \<Rightarrow> string option" where
  "pa_sample_format_to_string PA_SAMPLE_U8 = Some ''u8''"
| "pa_sample_format_to_string PA_SAMPLE_ALAW = Some ''aLaw''"
| "pa_sample_format_to_string PA_SAMPLE_ULAW = Some ''uLaw''"
| "pa_sample_format_to_string PA_SAMPLE_S16LE = Some ''s16le''"
| "pa_sample_format_to_string PA_SAMPLE_S16BE = Some ''s16be''"
| "pa_sample_format_to_string PA_SAMPLE_FLOAT32LE = Some ''float32le''"
| "pa_sample_format_to_string PA_SAMPLE_FLOAT32BE = Some ''float32be''"
| "pa_sample_format_to_string PA_SAMPLE_S32LE = Some ''s32le''"
| "pa_sample_format_to_string PA_SAMPLE_S32BE = Some ''s32be''"
| "pa_sample_format_to_string PA_SAMPLE_S24LE = Some ''s24le''"
| "pa_sample_format_to_string PA_SAMPLE_S24BE = Some ''s24be''"
| "pa_sample_format_to_string PA_SAMPLE_S24_32LE = Some ''s24-32le''"
| "pa_sample_format_to_string PA_SAMPLE_S24_32BE = Some ''s24-32be''"
| "pa_sample_format_to_string _ = None"

definition tolower :: "char \<Rightarrow> char" where
  "tolower c =
     (let n = (of_char c :: nat) in if 65 \<le> n \<and> n \<le> 90 then char_of (n + 32) else c)"

definition strcaseeq :: "string \<Rightarrow> string \<Rightarrow> bool" where
  "strcaseeq a b = (map tolower a = map tolower b)"

definition pa_parse_sample_format :: "string \<Rightarrow> pa_sample_format_t" where
  "pa_parse_sample_format format =
     (if strcaseeq format ''s16le'' then PA_SAMPLE_S16LE
      else if strcaseeq format ''s16be'' then PA_SAMPLE_S16BE
      else if strcaseeq format ''s16ne'' \<or> strcaseeq format ''s16'' \<or> strcaseeq format ''16''
        then PA_SAMPLE_S16NE
      else if strcaseeq format ''s16re'' then PA_SAMPLE_S16RE
      else if strcaseeq format ''u8'' \<or> strcaseeq format ''8'' then PA_SAMPLE_U8
      else if strcaseeq format ''float32'' \<or> strcaseeq format ''float32ne'' \<or>
              strcaseeq format ''float''
        then PA_SAMPLE_FLOAT32NE
      else if strcaseeq format ''float32re'' then PA_SAMPLE_FLOAT32RE
      else if strcaseeq format ''float32le'' then PA_SAMPLE_FLOAT32LE
      else if strcaseeq format ''float32be'' then PA_SAMPLE_FLOAT32BE
      else if strcaseeq format ''ulaw'' \<or> strcaseeq format ''mulaw'' then PA_SAMPLE_ULAW
      else if strcaseeq format ''alaw'' then PA_SAMPLE_ALAW
      else if strcaseeq format ''s32le'' then PA_SAMPLE_S32LE
      else if strcaseeq format ''s32be'' then PA_SAMPLE_S32BE
      else if strcaseeq format ''s32ne'' \<or> strcaseeq format ''s32'' \<or> strcaseeq format ''32''
        then PA_SAMPLE_S32NE
      else if strcaseeq format ''s32re'' then PA_SAMPLE_S24RE
      else if strcaseeq format ''s24le'' then PA_SAMPLE_S24LE
      else if strcaseeq format ''s24be'' then PA_SAMPLE_S24BE
      else if strcaseeq format ''s24ne'' \<or> strcaseeq format ''s24'' \<or> strcaseeq format ''24''
        then PA_SAMPLE_S24NE
      else if strcaseeq format ''s24re'' then PA_SAMPLE_S24RE
      else if strcaseeq format ''s24-32le'' then PA_SAMPLE_S24_32LE
      else if strcaseeq format ''s24-32be'' then PA_SAMPLE_S24_32BE
      else if strcaseeq format ''s24-32ne'' \<or> strcaseeq format ''s24-32''
        then PA_SAMPLE_S24_32NE
      else if strcaseeq format ''s24-32re'' then PA_SAMPLE_S24_32RE
      else PA_SAMPLE_INVALID)"

definition pa_sample_format_is_le :: "pa_sample_format_t \<Rightarrow> int option" where
  "pa_sample_format_is_le f = do {
     pa_assert (pa_sample_format_valid (format_num f));
     Some (if f \<in> {PA_SAMPLE_S16LE, PA_SAMPLE_S24LE, PA_SAMPLE_S32LE,
                   PA_SAMPLE_S24_32LE, PA_SAMPLE_FLOAT32LE} then 1
           else if f \<in> {PA_SAMPLE_S16BE, PA_SAMPLE_S24BE, PA_SAMPLE_S32BE,
                        PA_SAMPLE_S24_32BE, PA_SAMPLE_FLOAT32BE} then 0
           else -1) }"

definition pa_sample_format_is_be :: "pa_sample_format_t \<Rightarrow> int option" where
  "pa_sample_format_is_be f = do {
     r \<leftarrow> pa_sample_format_is_le f;
     Some (if r < 0 then r else if r = 0 then 1 else 0) }"

subsection \<open>Frame arithmetic of sample-util.c\<close>

definition pa_frame_align :: "nat \<Rightarrow> pa_sample_spec \<Rightarrow> nat option" where
  "pa_frame_align l ss = do {
     fs \<leftarrow> pa_frame_size ss;
     Some ((l div fs) * fs) }"

definition pa_frame_aligned :: "nat \<Rightarrow> pa_sample_spec \<Rightarrow> bool option" where
  "pa_frame_aligned l ss = do {
     fs \<leftarrow> pa_frame_size ss;
     Some (l mod fs = 0) }"

definition pa_bytes_to_usec_round_up :: "nat \<Rightarrow> pa_sample_spec \<Rightarrow> nat option" where
  "pa_bytes_to_usec_round_up len spec = do {
     fs \<leftarrow> pa_frame_size spec;
     (let frames = size_sub (size_add len fs) 1 div fs;
          usec = wrap64 (frames * PA_USEC_PER_SEC)
      in Some (size_sub (size_add usec (ss_rate spec)) 1 div ss_rate spec)) }"

definition pa_usec_to_bytes_round_up :: "nat \<Rightarrow> pa_sample_spec \<Rightarrow> nat option" where
  "pa_usec_to_bytes_round_up t spec = do {
     (let u = wrap64 (t * ss_rate spec);
          u = size_sub (size_add u PA_USEC_PER_SEC) 1 div PA_USEC_PER_SEC
      in do {
        fs \<leftarrow> pa_frame_size spec;
        Some (wrap64 (u * fs)) }) }"

definition pa_convert_size :: "nat \<Rightarrow> pa_sample_spec \<Rightarrow> pa_sample_spec \<Rightarrow> nat option" where
  "pa_convert_size sz from to = do {
     usec \<leftarrow> pa_bytes_to_usec_round_up sz from;
     pa_usec_to_bytes_round_up usec to }"

definition silence_byte :: "pa_sample_format_t \<Rightarrow> byte option" where
  "silence_byte f =
     (case f of
        PA_SAMPLE_U8 \<Rightarrow> Some 0x80
      | PA_SAMPLE_S16LE \<Rightarrow> Some 0
      | PA_SAMPLE_S16BE \<Rightarrow> Some 0
      | PA_SAMPLE_S32LE \<Rightarrow> Some 0
      | PA_SAMPLE_S32BE \<Rightarrow> Some 0
      | PA_SAMPLE_FLOAT32LE \<Rightarrow> Some 0
      | PA_SAMPLE_FLOAT32BE \<Rightarrow> Some 0
      | PA_SAMPLE_S24LE \<Rightarrow> Some 0
      | PA_SAMPLE_S24BE \<Rightarrow> Some 0
      | PA_SAMPLE_S24_32LE \<Rightarrow> Some 0
      | PA_SAMPLE_S24_32BE \<Rightarrow> Some 0
      | PA_SAMPLE_ALAW \<Rightarrow> Some 0xd5
      | PA_SAMPLE_ULAW \<Rightarrow> Some 0xff
      | _ \<Rightarrow> None)"

definition pa_silence_memory :: "nat \<Rightarrow> pa_sample_spec \<Rightarrow> bytes option" where
  "pa_silence_memory len spec = do {
     pa_assert (len > 0);
     c \<leftarrow> silence_byte (ss_format spec);
     Some (replicate len c) }"

subsection \<open>Facts on formats and specifications\<close>

lemma format_valid_iff: "pa_sample_format_valid (format_num f) = (f \<in> set formats)"
  by (cases f) (auto simp: pa_sample_format_valid_def formats_def)

lemma format_num_of_num: "-1 \<le> n \<Longrightarrow> format_num (format_of_num n) = n"
proof -
  assume a: "-1 \<le> n"
  show ?thesis
  proof (cases "0 \<le> n \<and> n < 13")
    case True
    then have "nat n \<in> {0..<13}" by auto
    also have "{0..<13} = set [0..<13 :: nat]" by simp
    finally have "nat n \<in> set [0..<13]" .
    moreover have "\<forall>k \<in> set [0..<13]. format_num (formats ! k) = int k"
      by (simp add: formats_def upt_rec)
    ultimately show ?thesis using True by (auto simp: format_of_num_def)
  qed (use a in \<open>auto simp: format_of_num_def\<close>)
qed

lemma format_of_num_num: "format_of_num (format_num f) = f"
  by (cases f) (simp_all add: format_of_num_def formats_def)

lemma size_table_le: "size_table f \<le> 4"
  by (cases f) simp_all

lemma size_table_pos: "f \<in> set formats \<Longrightarrow> 0 < size_table f"
  by (auto simp: formats_def)

lemma spec_validD:
  assumes "pa_sample_spec_valid spec"
  shows "0 < ss_rate spec" "ss_rate spec \<le> 387840" "0 < ss_channels spec" "ss_channels spec \<le> 32"
    "ss_format spec \<in> set formats"
  using assms
  by (auto simp: pa_sample_spec_valid_def pa_sample_rate_valid_def pa_channels_valid_def
      format_valid_iff PA_RATE_MAX_def PA_CHANNELS_MAX_def split: if_splits)

text \<open>Bytes of one frame, as \<^const>\<open>pa_frame_size\<close> returns it for a valid specification.\<close>

definition frame_bytes :: "pa_sample_spec \<Rightarrow> nat" where
  "frame_bytes spec = size_table (ss_format spec) * ss_channels spec"

lemma pa_frame_size_eq: "pa_sample_spec_valid spec \<Longrightarrow> pa_frame_size spec = Some (frame_bytes spec)"
  by (simp add: pa_frame_size_def frame_bytes_def)

lemma pa_frame_size_eq_None: "\<not> pa_sample_spec_valid spec \<Longrightarrow> pa_frame_size spec = None"
  by (simp add: pa_frame_size_def)

lemma frame_bytes_bounds:
  assumes "pa_sample_spec_valid spec"
  shows "0 < frame_bytes spec" "frame_bytes spec \<le> 128"
proof -
  note v = spec_validD [OF assms]
  show "0 < frame_bytes spec"
    using v size_table_pos by (simp add: frame_bytes_def)
  have "frame_bytes spec \<le> 4 * 32"
    unfolding frame_bytes_def using size_table_le v(4) by (rule mult_le_mono)
  then show "frame_bytes spec \<le> 128" by simp
qed

lemma pa_frame_align_eq:
  "pa_sample_spec_valid spec \<Longrightarrow>
     pa_frame_align l spec = Some ((l div frame_bytes spec) * frame_bytes spec)"
  by (simp add: pa_frame_align_def pa_frame_size_eq)

lemma pa_frame_aligned_eq:
  "pa_sample_spec_valid spec \<Longrightarrow> pa_frame_aligned l spec = Some (frame_bytes spec dvd l)"
  by (simp add: pa_frame_aligned_def pa_frame_size_eq dvd_eq_mod_eq_0)

lemma pa_bytes_to_usec_eq:
  "pa_sample_spec_valid spec \<Longrightarrow> (len div frame_bytes spec) * 1000000 < 2 ^ 64 \<Longrightarrow>
     pa_bytes_to_usec len spec = Some ((len div frame_bytes spec) * 1000000 div ss_rate spec)"
  by (simp add: pa_bytes_to_usec_def frame_bytes_def PA_USEC_PER_SEC_def wrap64_def)

lemma pa_usec_to_bytes_eq:
  assumes "pa_sample_spec_valid spec" "t * ss_rate spec < 2 ^ 64"
  shows "pa_usec_to_bytes t spec = Some ((t * ss_rate spec) div 1000000 * frame_bytes spec)"
proof -
  let ?f = "(t * ss_rate spec) div 1000000"
  have "?f * frame_bytes spec \<le> ?f * 128"
    using frame_bytes_bounds [OF assms(1)] by simp
  also have "\<dots> \<le> t * ss_rate spec" by linarith
  also have "\<dots> < 2 ^ 64" by fact
  finally show ?thesis
    using assms by (simp add: pa_usec_to_bytes_def frame_bytes_def PA_USEC_PER_SEC_def)
qed

text \<open>Rounding up the time of whole frames and converting back is exact: a sample lasts more
  than a microsecond.\<close>

lemma div_ceil_mult:
  fixes a r m :: nat
  assumes "0 < r" "r \<le> m"
  shows "((a * m + r - 1) div r * r) div m = a"
proof -
  let ?u = "(a * m + r - 1) div r"
  have split: "?u * r + (a * m + r - 1) mod r = a * m + r - 1"
    by (rule div_mult_mod_eq)
  have r: "(a * m + r - 1) mod r < r" using assms by simp
  have low: "a * m \<le> ?u * r" using split r assms by linarith
  have "?u * r < a * m + r" using split assms by linarith
  then have high: "?u * r < Suc a * m" using assms by simp
  from low high show ?thesis
    by (intro div_nat_eqI) (simp_all add: mult.commute)
qed

lemma pa_bytes_to_usec_round_up_eq:
  assumes v: "pa_sample_spec_valid spec" and al: "frame_bytes spec dvd len"
    and b: "(len div frame_bytes spec) * 1000000 + ss_rate spec < 2 ^ 64"
    and l: "len + frame_bytes spec < 2 ^ 64"
  shows "pa_bytes_to_usec_round_up len spec =
    Some (((len div frame_bytes spec) * 1000000 + ss_rate spec - 1) div ss_rate spec)"
proof -
  let ?fs = "frame_bytes spec"
  have fs: "0 < ?fs" and r: "0 < ss_rate spec"
    using frame_bytes_bounds spec_validD v by blast+
  from al obtain k where k: "len = ?fs * k" ..
  have s1: "size_add len ?fs = len + ?fs" using l by (rule size_add_id)
  have s2: "size_sub (len + ?fs) 1 = len + ?fs - 1"
    using l fs by (intro size_sub_id) simp_all
  have "(len + ?fs - 1) div ?fs = k"
    using fs unfolding k by (intro div_nat_eqI) (simp_all add: algebra_simps)
  moreover have "len div ?fs = k" using fs k by simp
  ultimately have frames: "size_sub (size_add len ?fs) 1 div ?fs = len div ?fs"
    by (simp add: s1 s2 del: One_nat_def)
  let ?u = "(len div ?fs) * 1000000"
  have s3: "size_add ?u (ss_rate spec) = ?u + ss_rate spec" using b by (rule size_add_id)
  have s4: "size_sub (?u + ss_rate spec) 1 = ?u + ss_rate spec - 1"
    using b r by (intro size_sub_id) simp_all
  have w: "wrap64 ?u = ?u" using b by simp
  show ?thesis
    unfolding pa_bytes_to_usec_round_up_def pa_frame_size_eq [OF v]
    by (simp add: frames PA_USEC_PER_SEC_def w s3 s4 Let_def del: One_nat_def)
qed

lemma tolower_literals:
  "tolower CHR ''a'' = CHR ''a''"
  "tolower CHR ''b'' = CHR ''b''"
  "tolower CHR ''e'' = CHR ''e''"
  "tolower CHR ''f'' = CHR ''f''"
  "tolower CHR ''i'' = CHR ''i''"
  "tolower CHR ''l'' = CHR ''l''"
  "tolower CHR ''m'' = CHR ''m''"
  "tolower CHR ''n'' = CHR ''n''"
  "tolower CHR ''o'' = CHR ''o''"
  "tolower CHR ''r'' = CHR ''r''"
  "tolower CHR ''u'' = CHR ''u''"
  "tolower CHR ''w'' = CHR ''w''"
  "tolower CHR ''s'' = CHR ''s''"
  "tolower CHR ''0'' = CHR ''0''"
  "tolower CHR ''1'' = CHR ''1''"
  "tolower CHR ''2'' = CHR ''2''"
  "tolower CHR ''3'' = CHR ''3''"
  "tolower CHR ''4'' = CHR ''4''"
  "tolower CHR ''6'' = CHR ''6''"
  "tolower CHR ''8'' = CHR ''8''"
  "tolower CHR ''-'' = CHR ''-''"
  "tolower CHR ''L'' = CHR ''l''"
  by code_simp+

lemma names_parse_back:
  "list_all (\<lambda>f. case pa_sample_format_to_string f of
     None \<Rightarrow> False | Some s \<Rightarrow> pa_parse_sample_format s = f) formats"
  by (simp add: formats_def pa_parse_sample_format_def strcaseeq_def tolower_literals)

subsection \<open>Properties\<close>

text \<open>
  C39: every valid sample format is recovered by \<^const>\<open>pa_parse_sample_format\<close> from the name
  \<^const>\<open>pa_sample_format_to_string\<close> gives it.
\<close>

theorem sample_format_name_roundtrip:
  assumes "pa_sample_format_valid (format_num f)"
  shows "\<exists>s. pa_sample_format_to_string f = Some s \<and> pa_parse_sample_format s = f"
  using assms names_parse_back unfolding format_valid_iff list_all_iff
  by (auto split: option.splits)

theorem sample_format_name_roundtrip_witness:
  "\<exists>s. pa_sample_format_to_string PA_SAMPLE_S24_32BE = Some s \<and>
     pa_parse_sample_format s = PA_SAMPLE_S24_32BE"
  by (rule sample_format_name_roundtrip) (simp add: pa_sample_format_valid_def)

text \<open>
  C40: for a whole number of frames whose duration fits 64 bits, converting the byte length to
  microseconds rounding up and back rounding down gives the length again.
\<close>

theorem bytes_usec_roundtrip:
  assumes "pa_sample_spec_valid spec" "frame_bytes spec dvd len"
    and "(len div frame_bytes spec) * 1000000 + ss_rate spec < 2 ^ 64"
    and "len + frame_bytes spec < 2 ^ 64"
  shows "\<exists>t. pa_bytes_to_usec_round_up len spec = Some t \<and> pa_usec_to_bytes t spec = Some len"
proof -
  let ?a = "len div frame_bytes spec" and ?r = "ss_rate spec"
  let ?t = "(?a * 1000000 + ?r - 1) div ?r"
  have r: "0 < ?r" "?r \<le> 1000000" using spec_validD [OF assms(1)] by simp_all
  have "?t * ?r \<le> ?a * 1000000 + ?r - 1"
    by (rule div_times_less_eq_dividend)
  then have "?t * ?r < 2 ^ 64" using assms(3) r by linarith
  then have "pa_usec_to_bytes ?t spec = Some ((?t * ?r) div 1000000 * frame_bytes spec)"
    by (rule pa_usec_to_bytes_eq [OF assms(1)])
  also have "(?t * ?r) div 1000000 = ?a"
    using r by (rule div_ceil_mult)
  also have "?a * frame_bytes spec = len" using assms(2) by simp
  finally show ?thesis using pa_bytes_to_usec_round_up_eq [OF assms] by blast
qed

theorem bytes_usec_roundtrip_witness:
  "\<exists>t. pa_bytes_to_usec_round_up 1400 \<lparr>ss_format = PA_SAMPLE_S16LE, ss_rate = 44100, ss_channels = 2\<rparr>
         = Some t \<and>
       pa_usec_to_bytes t \<lparr>ss_format = PA_SAMPLE_S16LE, ss_rate = 44100, ss_channels = 2\<rparr> = Some 1400"
  by (rule bytes_usec_roundtrip)
    (simp_all add: pa_sample_spec_valid_def pa_sample_rate_valid_def pa_channels_valid_def
      pa_sample_format_valid_def PA_RATE_MAX_def PA_CHANNELS_MAX_def frame_bytes_def)

text \<open>The name \<open>s32re\<close> is parsed as the 24-bit format, unlike \<open>s32ne\<close> and \<open>s24re\<close>.\<close>

lemma parse_s32re_is_s24: "pa_parse_sample_format ''s32re'' = PA_SAMPLE_S24RE"
  by (simp add: pa_parse_sample_format_def strcaseeq_def tolower_literals)

end
