(* ===== verification/Memchunk.thy ===== *)
theory Memchunk
  imports Prelude
begin

text \<open>
  Memory blocks and chunks: the part of \<open>src/pulsecore/memblock.c\<close> the audio path uses
  (allocation, length, reference counts), \<open>src/pulsecore/memchunk.c\<close>, and the chunk aligner
  \<open>src/pulsecore/mcalign.c\<close>.

  A memory pool maps block numbers to contents and reference counts. Counts are integers and
  releasing the last reference keeps the contents in the model: that no operation uses a
  released block is stated as an equation between counts and holders, not enforced by the
  model. A new block starts with arbitrary stale bytes (\<open>mp_stale\<close>).
\<close>

subsection \<open>Blocks\<close>

record pa_mempool =
  mp_data :: "nat \<Rightarrow> bytes"
  mp_refs :: "nat \<Rightarrow> int"
  mp_read_only :: "nat \<Rightarrow> bool"
  mp_is_silence :: "nat \<Rightarrow> bool"
  mp_next :: nat
  mp_stale :: "nat \<Rightarrow> byte"

definition pa_memblock_new :: "pa_mempool \<Rightarrow> nat \<Rightarrow> (pa_mempool \<times> nat) option" where
  "pa_memblock_new p len = do {
     pa_assert (len > 0);
     (let b = mp_next p
      in Some (p\<lparr>mp_data := (mp_data p)(b := map (mp_stale p) [0..<len]),
                 mp_refs := (mp_refs p)(b := 1),
                 mp_read_only := (mp_read_only p)(b := False),
                 mp_is_silence := (mp_is_silence p)(b := False),
                 mp_next := Suc b\<rparr>, b)) }"

definition pa_memblock_get_length :: "pa_mempool \<Rightarrow> nat \<Rightarrow> nat" where
  "pa_memblock_get_length p b = length (mp_data p b)"

definition pa_memblock_ref_is_one :: "pa_mempool \<Rightarrow> nat \<Rightarrow> bool" where
  "pa_memblock_ref_is_one p b = (mp_refs p b = 1)"

definition pa_memblock_is_read_only :: "pa_mempool \<Rightarrow> nat \<Rightarrow> bool" where
  "pa_memblock_is_read_only p b = (mp_read_only p b \<or> mp_refs p b > 1)"

definition pa_memblock_ref :: "pa_mempool \<Rightarrow> nat \<Rightarrow> pa_mempool" where
  "pa_memblock_ref p b = p\<lparr>mp_refs := (mp_refs p)(b := mp_refs p b + 1)\<rparr>"

definition pa_memblock_unref :: "pa_mempool \<Rightarrow> nat \<Rightarrow> pa_mempool" where
  "pa_memblock_unref p b = p\<lparr>mp_refs := (mp_refs p)(b := mp_refs p b - 1)\<rparr>"

definition pa_memblock_is_silence :: "pa_mempool \<Rightarrow> nat \<Rightarrow> bool" where
  "pa_memblock_is_silence p b = mp_is_silence p b"

definition pa_memblock_set_is_silence :: "pa_mempool \<Rightarrow> nat \<Rightarrow> bool \<Rightarrow> pa_mempool" where
  "pa_memblock_set_is_silence p b v = p\<lparr>mp_is_silence := (mp_is_silence p)(b := v)\<rparr>"

subsection \<open>Chunks\<close>

record pa_memchunk =
  ch_memblock :: "nat option"
  ch_index :: nat
  ch_length :: nat

definition pa_memchunk_reset :: pa_memchunk where
  "pa_memchunk_reset = \<lparr>ch_memblock = None, ch_index = 0, ch_length = 0\<rparr>"

definition pa_memchunk_isset :: "pa_memchunk \<Rightarrow> bool" where
  "pa_memchunk_isset c = (ch_memblock c \<noteq> None \<or> ch_index c > 0 \<or> ch_length c > 0)"

text \<open>\<open>blit\<close> writes bytes over a buffer, \<open>pa_memchunk_memcpy\<close> is the bounds-checked
  \<open>memmove\<close> between two chunks.\<close>

definition blit :: "bytes \<Rightarrow> nat \<Rightarrow> bytes \<Rightarrow> bytes" where
  "blit dst off xs = take off dst @ xs @ drop (off + length xs) dst"

definition write_block :: "pa_mempool \<Rightarrow> nat \<Rightarrow> nat \<Rightarrow> bytes \<Rightarrow> pa_mempool option" where
  "write_block p b off xs = do {
     pa_assert (off + length xs \<le> length (mp_data p b));
     Some (p\<lparr>mp_data := (mp_data p)(b := blit (mp_data p b) off xs)\<rparr>) }"

definition pa_memchunk_memcpy ::
    "pa_mempool \<Rightarrow> pa_memchunk \<Rightarrow> pa_memchunk \<Rightarrow> pa_mempool option" where
  "pa_memchunk_memcpy p dst src = do {
     pa_assert (ch_length dst = ch_length src);
     db \<leftarrow> ch_memblock dst;
     sb \<leftarrow> ch_memblock src;
     xs \<leftarrow> load_bytes (mp_data p sb) (ch_index src) (ch_length dst);
     write_block p db (ch_index dst) xs }"

definition pa_memchunk_make_writable ::
    "pa_mempool \<Rightarrow> pa_memchunk \<Rightarrow> nat \<Rightarrow> (pa_mempool \<times> pa_memchunk) option" where
  "pa_memchunk_make_writable p c mn = do {
     b \<leftarrow> ch_memblock c;
     (if pa_memblock_ref_is_one p b \<and> \<not> pa_memblock_is_read_only p b \<and>
         pa_memblock_get_length p b \<ge> ch_index c + mn
      then Some (p, c)
      else do {
        (p, n) \<leftarrow> pa_memblock_new p (max (ch_length c) mn);
        xs \<leftarrow> load_bytes (mp_data p b) (ch_index c) (ch_length c);
        p \<leftarrow> write_block p n 0 xs;
        Some (pa_memblock_unref p b, c\<lparr>ch_memblock := Some n, ch_index := 0\<rparr>) }) }"

definition chunk_bytes :: "pa_mempool \<Rightarrow> pa_memchunk \<Rightarrow> bytes" where
  "chunk_bytes p c =
     (case ch_memblock c of
        None \<Rightarrow> []
      | Some b \<Rightarrow> take (ch_length c) (drop (ch_index c) (mp_data p b)))"

text \<open>A chunk that names a block lies inside it and the block has been allocated.\<close>

definition chunk_ok :: "pa_mempool \<Rightarrow> pa_memchunk \<Rightarrow> bool" where
  "chunk_ok p c =
     (case ch_memblock c of
        None \<Rightarrow> False
      | Some b \<Rightarrow> b < mp_next p \<and> ch_index c + ch_length c \<le> length (mp_data p b))"

subsection \<open>The aligner\<close>

record pa_mcalign =
  mc_base :: nat
  mc_leftover :: pa_memchunk
  mc_current :: pa_memchunk

definition pa_mcalign_new :: "nat \<Rightarrow> pa_mcalign option" where
  "pa_mcalign_new base = do {
     pa_assert (base \<noteq> 0);
     Some \<lparr>mc_base = base, mc_leftover = pa_memchunk_reset, mc_current = pa_memchunk_reset\<rparr> }"

definition unref_chunk :: "pa_mempool \<Rightarrow> pa_memchunk \<Rightarrow> pa_mempool" where
  "unref_chunk p c = (case ch_memblock c of None \<Rightarrow> p | Some b \<Rightarrow> pa_memblock_unref p b)"

definition ref_chunk :: "pa_mempool \<Rightarrow> pa_memchunk \<Rightarrow> pa_mempool" where
  "ref_chunk p c = (case ch_memblock c of None \<Rightarrow> p | Some b \<Rightarrow> pa_memblock_ref p b)"

definition pa_mcalign_free :: "pa_mempool \<Rightarrow> pa_mcalign \<Rightarrow> pa_mempool" where
  "pa_mcalign_free p m = unref_chunk (unref_chunk p (mc_leftover m)) (mc_current m)"

definition pa_mcalign_push ::
    "pa_mempool \<Rightarrow> pa_mcalign \<Rightarrow> pa_memchunk \<Rightarrow> (pa_mempool \<times> pa_mcalign) option" where
  "pa_mcalign_push p m c = do {
     cb \<leftarrow> ch_memblock c;
     pa_assert (ch_length c > 0);
     pa_assert (ch_memblock (mc_current m) = None);
     (if ch_memblock (mc_leftover m) \<noteq> None then
        (if ch_memblock (mc_leftover m) = Some cb \<and>
            ch_index (mc_leftover m) + ch_length (mc_leftover m) = ch_index c then
           (let lo = (mc_leftover m)\<lparr>ch_length := ch_length (mc_leftover m) + ch_length c\<rparr>
            in if ch_length lo \<ge> mc_base m
               then Some (p, m\<lparr>mc_current := lo, mc_leftover := pa_memchunk_reset\<rparr>)
               else Some (p, m\<lparr>mc_leftover := lo\<rparr>))
         else do {
           pa_assert (ch_length (mc_leftover m) < mc_base m);
           (let l = min (mc_base m - ch_length (mc_leftover m)) (ch_length c)
            in do {
              (p, lo) \<leftarrow> pa_memchunk_make_writable p (mc_leftover m) (mc_base m);
              lb \<leftarrow> ch_memblock lo;
              xs \<leftarrow> load_bytes (mp_data p cb) (ch_index c) l;
              p \<leftarrow> write_block p lb (ch_index lo + ch_length lo) xs;
              (let lo = lo\<lparr>ch_length := ch_length lo + l\<rparr>
               in do {
                 pa_assert (ch_length lo \<le> mc_base m);
                 pa_assert (ch_length lo \<le> pa_memblock_get_length p lb);
                 (if ch_length c > l
                  then Some (pa_memblock_ref p cb,
                    m\<lparr>mc_leftover := lo,
                      mc_current := c\<lparr>ch_index := ch_index c + l, ch_length := ch_length c - l\<rparr>\<rparr>)
                  else Some (p, m\<lparr>mc_leftover := lo\<rparr>)) }) }) })
      else
        Some (pa_memblock_ref p cb,
          (if ch_length c \<ge> mc_base m then m\<lparr>mc_current := c\<rparr> else m\<lparr>mc_leftover := c\<rparr>))) }"

text \<open>The result of \<open>pa_mcalign_pop\<close>: \<^term>\<open>None\<close> inside \<^term>\<open>Some\<close> is its return value -1.\<close>

definition pa_mcalign_pop ::
    "pa_mempool \<Rightarrow> pa_mcalign \<Rightarrow> (pa_mempool \<times> pa_mcalign \<times> pa_memchunk option) option" where
  "pa_mcalign_pop p m =
     (if ch_memblock (mc_leftover m) \<noteq> None then do {
        pa_assert (ch_length (mc_leftover m) > 0);
        pa_assert (ch_length (mc_leftover m) \<le> mc_base m);
        (if ch_length (mc_leftover m) < mc_base m then Some (p, m, None)
         else
           (let c = mc_leftover m;
                m = m\<lparr>mc_leftover := pa_memchunk_reset\<rparr>;
                m = (if ch_memblock (mc_current m) \<noteq> None \<and> ch_length (mc_current m) < mc_base m
                     then m\<lparr>mc_leftover := mc_current m, mc_current := pa_memchunk_reset\<rparr>
                     else m)
            in Some (p, m, Some c))) }
      else
        (case ch_memblock (mc_current m) of
           None \<Rightarrow> Some (p, m, None)
         | Some b \<Rightarrow> do {
             pa_assert (ch_length (mc_current m) \<ge> mc_base m);
             (let l = (ch_length (mc_current m) div mc_base m) * mc_base m
              in do {
                pa_assert (l > 0);
                pa_assert (l \<le> ch_length (mc_current m));
                (let c = (mc_current m)\<lparr>ch_length := l\<rparr>;
                     p = pa_memblock_ref p b;
                     cur = (mc_current m)\<lparr>ch_index := ch_index (mc_current m) + l,
                                          ch_length := ch_length (mc_current m) - l\<rparr>
                 in if ch_length cur = 0
                    then Some (pa_memblock_unref p b, m\<lparr>mc_current := pa_memchunk_reset\<rparr>, Some c)
                    else do {
                      pa_assert (ch_length cur < mc_base m);
                      Some (p, m\<lparr>mc_leftover := cur, mc_current := pa_memchunk_reset\<rparr>, Some c) }) }) }))"

definition pa_mcalign_csize :: "pa_mcalign \<Rightarrow> nat \<Rightarrow> nat option" where
  "pa_mcalign_csize m l = do {
     pa_assert (l > 0);
     pa_assert (ch_memblock (mc_current m) = None);
     (let l = (if ch_memblock (mc_leftover m) \<noteq> None then l + ch_length (mc_leftover m) else l)
      in Some ((l div mc_base m) * mc_base m)) }"

text \<open>
  The loop of \<open>pa_mcalign_flush\<close>. A loop that never ends would be \<^term>\<open>None\<close>, like a failing
  assertion; \<open>mcalign_flush_returns\<close> below excludes both.
\<close>

partial_function (option) pa_mcalign_flush ::
    "pa_mempool \<Rightarrow> pa_mcalign \<Rightarrow> (pa_mempool \<times> pa_mcalign) option" where
  "pa_mcalign_flush p m =
     (case pa_mcalign_pop p m of
        None \<Rightarrow> None
      | Some (p, m, r) \<Rightarrow>
          (case r of
             None \<Rightarrow> Some (p, m)
           | Some c \<Rightarrow> pa_mcalign_flush (unref_chunk p c) m))"

subsection \<open>Facts on blocks and chunks\<close>

lemma length_blit: "off + length xs \<le> length dst \<Longrightarrow> length (blit dst off xs) = length dst"
  by (simp add: blit_def)

lemma blit_append_read:
  assumes "i + n = off" "off + length xs \<le> length dst"
  shows "take (n + length xs) (drop i (blit dst off xs)) = take n (drop i dst) @ xs"
proof -
  from assms have "drop i (blit dst off xs) =
      take n (drop i dst) @ xs @ drop (off + length xs) dst"
    by (auto simp: blit_def drop_take)
  moreover from assms have "length (take n (drop i dst)) = n" by auto
  ultimately show ?thesis by simp
qed

lemma chunk_bytes_ref [simp]:
  "chunk_bytes (pa_memblock_ref p b) c = chunk_bytes p c"
  "chunk_bytes (pa_memblock_unref p b) c = chunk_bytes p c"
  "chunk_bytes (unref_chunk p d) c = chunk_bytes p c"
  "chunk_bytes (ref_chunk p d) c = chunk_bytes p c"
  by (simp_all add: chunk_bytes_def pa_memblock_ref_def pa_memblock_unref_def unref_chunk_def
      ref_chunk_def split: option.splits)

lemma chunk_ok_ref [simp]:
  "chunk_ok (pa_memblock_ref p b) c = chunk_ok p c"
  "chunk_ok (pa_memblock_unref p b) c = chunk_ok p c"
  "chunk_ok (unref_chunk p d) c = chunk_ok p c"
  "chunk_ok (ref_chunk p d) c = chunk_ok p c"
  by (simp_all add: chunk_ok_def pa_memblock_ref_def pa_memblock_unref_def unref_chunk_def
      ref_chunk_def split: option.splits)

lemma mp_data_ref [simp]:
  "mp_data (pa_memblock_ref p b) = mp_data p"
  "mp_data (pa_memblock_unref p b) = mp_data p"
  "mp_next (pa_memblock_ref p b) = mp_next p"
  "mp_next (pa_memblock_unref p b) = mp_next p"
  by (simp_all add: pa_memblock_ref_def pa_memblock_unref_def)

lemma chunk_bytes_reset [simp]:
  "chunk_bytes p pa_memchunk_reset = []"
  "ch_memblock pa_memchunk_reset = None"
  "ch_length pa_memchunk_reset = 0"
  by (simp_all add: chunk_bytes_def pa_memchunk_reset_def)

lemma length_chunk_bytes: "chunk_ok p c \<Longrightarrow> length (chunk_bytes p c) = ch_length c"
  by (auto simp: chunk_ok_def chunk_bytes_def split: option.splits)

lemma chunk_bytes_cong:
  "(\<And>b. ch_memblock c = Some b \<Longrightarrow> mp_data p' b = mp_data p b) \<Longrightarrow>
     chunk_bytes p' c = chunk_bytes p c"
  by (auto simp: chunk_bytes_def split: option.splits)

lemma load_chunk_prefix:
  assumes "chunk_ok p c" "ch_memblock c = Some b" "l \<le> ch_length c"
  shows "load_bytes (mp_data p b) (ch_index c) l = Some (take l (chunk_bytes p c))"
  using assms by (auto simp: chunk_ok_def chunk_bytes_def load_bytes_def min_def)

lemma chunk_ok_part:
  assumes "chunk_ok p c" "l \<le> ch_length c"
  shows "chunk_ok p (c\<lparr>ch_length := l\<rparr>) \<and>
    chunk_ok p (c\<lparr>ch_index := ch_index c + l, ch_length := ch_length c - l\<rparr>)"
  using assms by (auto simp: chunk_ok_def split: option.splits)

lemma chunk_bytes_split:
  assumes "ch_memblock c = Some b" "l \<le> ch_length c"
  shows "take l (chunk_bytes p c) @
    chunk_bytes p (c\<lparr>ch_index := ch_index c + l, ch_length := ch_length c - l\<rparr>) = chunk_bytes p c"
proof -
  have "take (l + (ch_length c - l)) (drop (ch_index c) (mp_data p b)) =
      take l (drop (ch_index c) (mp_data p b)) @
      take (ch_length c - l) (drop l (drop (ch_index c) (mp_data p b)))"
    by (rule take_add)
  moreover have "take l (chunk_bytes p c) = take l (drop (ch_index c) (mp_data p b))"
    using assms by (simp add: chunk_bytes_def min.absorb1)
  ultimately show ?thesis
    using assms by (simp add: chunk_bytes_def add.commute del: take_append take_take)
qed

subsection \<open>The aligner keeps the byte stream\<close>

definition mcalign_inv :: "pa_mempool \<Rightarrow> pa_mcalign \<Rightarrow> bool" where
  "mcalign_inv p m \<longleftrightarrow>
     0 < mc_base m \<and>
     (ch_memblock (mc_leftover m) \<noteq> None \<longrightarrow>
        chunk_ok p (mc_leftover m) \<and> 0 < ch_length (mc_leftover m) \<and>
        ch_length (mc_leftover m) \<le> mc_base m) \<and>
     (ch_memblock (mc_current m) \<noteq> None \<longrightarrow>
        chunk_ok p (mc_current m) \<and> 0 < ch_length (mc_current m) \<and>
        (if ch_memblock (mc_leftover m) = None then mc_base m \<le> ch_length (mc_current m)
         else ch_length (mc_leftover m) = mc_base m))"

text \<open>Between two calls of \<open>pa_mcalign_push\<close> the client has popped everything it can.\<close>

definition mcalign_idle :: "pa_mcalign \<Rightarrow> bool" where
  "mcalign_idle m \<longleftrightarrow> ch_memblock (mc_current m) = None \<and>
     (ch_memblock (mc_leftover m) \<noteq> None \<longrightarrow> ch_length (mc_leftover m) < mc_base m)"

definition mcalign_pending :: "pa_mempool \<Rightarrow> pa_mcalign \<Rightarrow> bytes" where
  "mcalign_pending p m = chunk_bytes p (mc_leftover m) @ chunk_bytes p (mc_current m)"

lemma mcalign_inv_ref [simp]:
  "mcalign_inv (pa_memblock_ref p b) m = mcalign_inv p m"
  "mcalign_inv (pa_memblock_unref p b) m = mcalign_inv p m"
  "mcalign_inv (unref_chunk p c) m = mcalign_inv p m"
  by (simp_all add: mcalign_inv_def)

lemma mcalign_pending_ref [simp]:
  "mcalign_pending (pa_memblock_ref p b) m = mcalign_pending p m"
  "mcalign_pending (pa_memblock_unref p b) m = mcalign_pending p m"
  "mcalign_pending (unref_chunk p c) m = mcalign_pending p m"
  by (simp_all add: mcalign_pending_def)

lemma make_writable_props:
  assumes ok: "chunk_ok p c" and len: "0 < ch_length c" "ch_length c \<le> n"
  shows "\<exists>p' c' b'. pa_memchunk_make_writable p c n = Some (p', c') \<and>
    ch_memblock c' = Some b' \<and> ch_length c' = ch_length c \<and> chunk_ok p' c' \<and>
    chunk_bytes p' c' = chunk_bytes p c \<and> ch_index c' + n \<le> length (mp_data p' b') \<and>
    (\<forall>b < mp_next p. mp_data p' b = mp_data p b) \<and> mp_next p \<le> mp_next p' \<and>
    (b' < mp_next p \<longrightarrow> ch_memblock c = Some b' \<and> mp_refs p b' = 1)"
proof -
  from ok obtain b where b: "ch_memblock c = Some b" "b < mp_next p"
      "ch_index c + ch_length c \<le> length (mp_data p b)"
    by (auto simp: chunk_ok_def split: option.splits)
  show ?thesis
  proof (cases "pa_memblock_ref_is_one p b \<and> \<not> pa_memblock_is_read_only p b \<and>
      pa_memblock_get_length p b \<ge> ch_index c + n")
    case True
    then have "pa_memchunk_make_writable p c n = Some (p, c)"
      using b by (simp add: pa_memchunk_make_writable_def)
    with True b ok show ?thesis
      by (simp add: pa_memblock_ref_is_one_def pa_memblock_get_length_def)
  next
    case False
    let ?k = "mp_next p"
    let ?xs = "take (ch_length c) (drop (ch_index c) (mp_data p b))"
    let ?new = "blit (map (mp_stale p) [0..<n]) 0 ?xs"
    let ?p' = "pa_memblock_unref (p\<lparr>mp_refs := (mp_refs p)(?k := 1),
        mp_read_only := (mp_read_only p)(?k := False), mp_is_silence := (mp_is_silence p)(?k := False), mp_next := Suc ?k,
        mp_data := (mp_data p)(?k := ?new)\<rparr>) b"
    have n: "max (ch_length c) n = n" "0 < n" using len by simp_all
    have xs: "length ?xs = ch_length c" using b by simp
    have "pa_memchunk_make_writable p c n = Some (?p', c\<lparr>ch_memblock := Some ?k, ch_index := 0\<rparr>)"
      using b n xs len
      by (simp add: False pa_memchunk_make_writable_def pa_memblock_new_def write_block_def load_bytes_def
          Let_def)
    moreover have "length ?new = n" using xs len by (simp add: blit_def)
    moreover have "take (ch_length c) ?new = ?xs" using xs by (simp add: blit_def)
    ultimately show ?thesis
      using b len by (simp add: chunk_ok_def chunk_bytes_def)
  qed
qed

lemma write_block_append:
  assumes c: "ch_memblock c = Some b" and n: "n = ch_length c + length xs"
    and room: "ch_index c + n \<le> length (mp_data p b)"
  shows "\<exists>p'. write_block p b (ch_index c + ch_length c) xs = Some p' \<and>
    chunk_bytes p' (c\<lparr>ch_length := n\<rparr>) = chunk_bytes p c @ xs \<and>
    length (mp_data p' b) = length (mp_data p b) \<and>
    (\<forall>d. d \<noteq> b \<longrightarrow> mp_data p' d = mp_data p d) \<and> mp_next p' = mp_next p"
  using blit_append_read [of "ch_index c" "ch_length c" "ch_index c + ch_length c" xs "mp_data p b"]
    length_blit [of "ch_index c + ch_length c" xs "mp_data p b"] assms
  by (simp add: write_block_def chunk_bytes_def)

lemma mcalign_push_copy:
  assumes inv: "mcalign_inv p m" and idle: "mcalign_idle m"
    and c: "ch_memblock c = Some cb" "chunk_ok p c" "0 < ch_length c"
    and lo: "ch_memblock (mc_leftover m) = Some lb"
    and excl: "lb = cb \<longrightarrow> mp_refs p lb > 1"
    and nomerge: "\<not> (lb = cb \<and> ch_index (mc_leftover m) + ch_length (mc_leftover m) = ch_index c)"
  shows "\<exists>p' m'. pa_mcalign_push p m c = Some (p', m') \<and> mcalign_inv p' m' \<and>
    mcalign_pending p' m' = mcalign_pending p m @ chunk_bytes p c"
proof -
  let ?l = "min (mc_base m - ch_length (mc_leftover m)) (ch_length c)"
  from inv lo have lok: "chunk_ok p (mc_leftover m)" "0 < ch_length (mc_leftover m)"
    by (auto simp: mcalign_inv_def)
  from idle lo have lt: "ch_length (mc_leftover m) < mc_base m" and
    cur: "ch_memblock (mc_current m) = None"
    by (auto simp: mcalign_idle_def)
  obtain p1 lo1 b1 where mw: "pa_memchunk_make_writable p (mc_leftover m) (mc_base m) = Some (p1, lo1)"
    and b1: "ch_memblock lo1 = Some b1" and len1: "ch_length lo1 = ch_length (mc_leftover m)"
    and ok1: "chunk_ok p1 lo1" and by1: "chunk_bytes p1 lo1 = chunk_bytes p (mc_leftover m)"
    and room: "ch_index lo1 + mc_base m \<le> length (mp_data p1 b1)"
    and same: "\<forall>b < mp_next p. mp_data p1 b = mp_data p b" and nx: "mp_next p \<le> mp_next p1"
    and own: "b1 < mp_next p \<longrightarrow> ch_memblock (mc_leftover m) = Some b1 \<and> mp_refs p b1 = 1"
    using make_writable_props [OF lok less_imp_le [OF lt]] by blast
  have cbn: "cb < mp_next p" using c by (auto simp: chunk_ok_def)
  have ne: "cb \<noteq> b1" using own lo excl cbn by force
  have xs: "load_bytes (mp_data p1 cb) (ch_index c) ?l = Some (take ?l (chunk_bytes p c))"
    using load_chunk_prefix [OF c(2) c(1), of ?l] same cbn by simp
  let ?xs = "take ?l (chunk_bytes p c)"
  have lxs: "length ?xs = ?l" using length_chunk_bytes [OF c(2)] by simp
  have room2: "ch_index lo1 + (ch_length lo1 + ?l) \<le> length (mp_data p1 b1)"
    using room len1 lt by simp
  obtain p2 where w: "write_block p1 b1 (ch_index lo1 + ch_length lo1) ?xs = Some p2"
    and by2: "chunk_bytes p2 (lo1\<lparr>ch_length := ch_length lo1 + ?l\<rparr>) = chunk_bytes p1 lo1 @ ?xs"
    and len2: "length (mp_data p2 b1) = length (mp_data p1 b1)"
    and oth: "\<forall>d. d \<noteq> b1 \<longrightarrow> mp_data p2 d = mp_data p1 d" and nx2: "mp_next p2 = mp_next p1"
    using write_block_append [OF b1 _ room2, of ?xs] lxs by auto
  have b1n: "b1 < mp_next p1" using ok1 b1 by (simp add: chunk_ok_def)
  have lo2: "chunk_ok p2 (lo1\<lparr>ch_length := ch_length lo1 + ?l\<rparr>)"
    using b1 b1n room len1 len2 nx2 lt by (simp add: chunk_ok_def)
  have cd: "mp_data p2 cb = mp_data p cb" using oth ne same cbn by simp
  let ?cc = "c\<lparr>ch_index := ch_index c + ?l, ch_length := ch_length c - ?l\<rparr>"
  have cc: "?xs @ chunk_bytes p2 ?cc = chunk_bytes p c"
  proof -
    have "chunk_bytes p2 ?cc = chunk_bytes p ?cc"
      using cd c(1) by (intro chunk_bytes_cong) simp
    then show ?thesis using chunk_bytes_split [OF c(1), of ?l p] by simp
  qed
  have ccok: "chunk_ok p2 ?cc" using c(1,2) cd nx nx2 by (auto simp: chunk_ok_def)
  have pl: "ch_length lo1 + ?l \<le> pa_memblock_get_length p2 b1"
    using room len1 len2 lt by (simp add: pa_memblock_get_length_def)
  show ?thesis
  proof (cases "ch_length c > ?l")
    case True
    then have full: "ch_length (mc_leftover m) + ?l = mc_base m" using lt by simp
    let ?m' = "m\<lparr>mc_leftover := lo1\<lparr>ch_length := ch_length lo1 + ?l\<rparr>, mc_current := ?cc\<rparr>"
    have "pa_mcalign_push p m c = Some (pa_memblock_ref p2 cb, ?m')"
      using c lo cur lt nomerge mw b1 xs w True len1 pl full
      by (auto simp: pa_mcalign_push_def Let_def)
    moreover have "mcalign_inv p2 ?m'"
      using inv lo2 ccok True full len1 lok b1 by (simp add: mcalign_inv_def)
    moreover have "mcalign_pending p2 ?m' = mcalign_pending p m @ chunk_bytes p c"
      using by1 by2 cc cur by (simp add: mcalign_pending_def chunk_bytes_def [of _ "mc_current m"])
    ultimately show ?thesis by simp
  next
    case False
    then have lc: "?l = ch_length c" by simp
    have le: "ch_length (mc_leftover m) + ?l \<le> mc_base m" using lt by simp
    let ?m' = "m\<lparr>mc_leftover := lo1\<lparr>ch_length := ch_length lo1 + ?l\<rparr>\<rparr>"
    have "pa_mcalign_push p m c = Some (p2, ?m')"
      using c lo cur lt nomerge mw b1 xs w False len1 pl
      by (auto simp: pa_mcalign_push_def Let_def)
    moreover have "mcalign_inv p2 ?m'"
      using inv lo2 cur len1 lok le by (simp add: mcalign_inv_def)
    moreover have "?xs = chunk_bytes p c"
      using lc length_chunk_bytes [OF c(2)] by simp
    then have "mcalign_pending p2 ?m' = mcalign_pending p m @ chunk_bytes p c"
      using by1 by2 cur by (simp add: mcalign_pending_def chunk_bytes_def [of _ "mc_current m"])
    ultimately show ?thesis by simp
  qed
qed

lemma mcalign_push_merge:
  assumes inv: "mcalign_inv p m" and idle: "mcalign_idle m"
    and c: "ch_memblock c = Some cb" "chunk_ok p c" "0 < ch_length c"
    and lo: "ch_memblock (mc_leftover m) = Some cb"
    and adj: "ch_index (mc_leftover m) + ch_length (mc_leftover m) = ch_index c"
  shows "\<exists>m'. pa_mcalign_push p m c = Some (p, m') \<and> mcalign_inv p m' \<and>
    mcalign_pending p m' = mcalign_pending p m @ chunk_bytes p c"
proof -
  let ?lo = "(mc_leftover m)\<lparr>ch_length := ch_length (mc_leftover m) + ch_length c\<rparr>"
  have cur: "ch_memblock (mc_current m) = None" using idle by (simp add: mcalign_idle_def)
  have b: "chunk_bytes p ?lo = chunk_bytes p (mc_leftover m) @ chunk_bytes p c"
    using c lo adj by (simp add: chunk_bytes_def take_add) (metis add.commute)
  have ok: "chunk_ok p ?lo" using c lo adj by (simp add: chunk_ok_def)
  have cb0: "chunk_bytes p (mc_current m) = []" using cur by (simp add: chunk_bytes_def)
  show ?thesis
  proof (cases "ch_length ?lo \<ge> mc_base m")
    case True
    then have "pa_mcalign_push p m c =
        Some (p, m\<lparr>mc_current := ?lo, mc_leftover := pa_memchunk_reset\<rparr>)"
      using c lo adj cur by (simp add: pa_mcalign_push_def)
    with True inv ok b c cb0 show ?thesis
      by (simp add: mcalign_inv_def mcalign_pending_def)
  next
    case False
    then have "pa_mcalign_push p m c = Some (p, m\<lparr>mc_leftover := ?lo\<rparr>)"
      using c lo adj cur by (simp add: pa_mcalign_push_def)
    with False inv ok b c cb0 cur show ?thesis
      by (simp add: mcalign_inv_def mcalign_pending_def)
  qed
qed

lemma mcalign_push_store:
  assumes "mcalign_inv p m" "mcalign_idle m" "ch_memblock (mc_leftover m) = None"
    and "ch_memblock c = Some cb" "chunk_ok p c" "0 < ch_length c"
  shows "\<exists>p' m'. pa_mcalign_push p m c = Some (p', m') \<and> mcalign_inv p' m' \<and>
    mcalign_pending p' m' = mcalign_pending p m @ chunk_bytes p c"
  using assms
  by (auto simp: pa_mcalign_push_def mcalign_idle_def mcalign_inv_def mcalign_pending_def
      chunk_bytes_def [of _ "mc_leftover m"] chunk_bytes_def [of _ "mc_current m"])

lemma mcalign_pop_leftover:
  assumes inv: "mcalign_inv p m" and lo: "ch_memblock (mc_leftover m) \<noteq> None"
    and full: "ch_length (mc_leftover m) = mc_base m"
  shows "\<exists>m'. pa_mcalign_pop p m = Some (p, m', Some (mc_leftover m)) \<and> mcalign_inv p m' \<and>
    chunk_bytes p (mc_leftover m) @ mcalign_pending p m' = mcalign_pending p m"
  using assms
  by (auto simp: pa_mcalign_pop_def mcalign_inv_def mcalign_pending_def Let_def)

lemma mcalign_pop_current:
  assumes inv: "mcalign_inv p m" and lo: "ch_memblock (mc_leftover m) = None"
    and cur: "ch_memblock (mc_current m) = Some b"
  shows "\<exists>p' m' c. pa_mcalign_pop p m = Some (p', m', Some c) \<and> mcalign_inv p' m' \<and>
    chunk_bytes p' c @ mcalign_pending p' m' = mcalign_pending p m \<and> chunk_ok p' c \<and>
    0 < ch_length c \<and> mc_base m dvd ch_length c"
proof -
  let ?l = "(ch_length (mc_current m) div mc_base m) * mc_base m"
  let ?c = "(mc_current m)\<lparr>ch_length := ?l\<rparr>"
  let ?cur = "(mc_current m)\<lparr>ch_index := ch_index (mc_current m) + ?l,
    ch_length := ch_length (mc_current m) - ?l\<rparr>"
  from inv cur lo have base: "0 < mc_base m" "mc_base m \<le> ch_length (mc_current m)"
    and ok: "chunk_ok p (mc_current m)"
    by (auto simp: mcalign_inv_def)
  have l: "0 < ?l" "?l \<le> ch_length (mc_current m)" "ch_length (mc_current m) - ?l < mc_base m"
  proof -
    show "0 < ?l" using base by (simp add: div_greater_zero_iff)
    show "?l \<le> ch_length (mc_current m)" by (rule div_times_less_eq_dividend)
    show "ch_length (mc_current m) - ?l < mc_base m"
      using base by (simp add: minus_div_mult_eq_mod)
  qed
  have bytes: "chunk_bytes p ?c @ chunk_bytes p ?cur = chunk_bytes p (mc_current m)"
    using chunk_bytes_split [OF cur l(2), of p] cur l(2)
    by (simp add: chunk_bytes_def [of p ?c] chunk_bytes_def [of p "mc_current m"] min.absorb1)
  have oks: "chunk_ok p ?c" "chunk_ok p ?cur"
    using chunk_ok_part [OF ok l(2)] by blast+
  have lo0: "chunk_bytes p (mc_leftover m) = []" using lo by (simp add: chunk_bytes_def)
  have dv: "mc_base m dvd ?l" by simp
  show ?thesis
  proof (cases "ch_length ?cur = 0")
    case True
    have "ch_length (mc_current m) = ?l" using True l(2) by simp
    then have "mc_base m dvd ch_length (mc_current m)" using dv by metis
    moreover have "chunk_bytes p ?cur = []" using True oks(2) length_chunk_bytes by fastforce
    ultimately show ?thesis
      using True lo cur base l oks bytes lo0 inv
      by (simp add: pa_mcalign_pop_def Let_def mcalign_inv_def mcalign_pending_def)
  next
    case False
    then show ?thesis
      using lo cur base l oks bytes lo0 inv
      by (simp add: pa_mcalign_pop_def Let_def mcalign_inv_def mcalign_pending_def)
        (metis div_times_less_eq_dividend le_antisym)
  qed
qed

lemma mcalign_pop_idle:
  assumes "mcalign_inv p m" "mcalign_idle m"
  shows "pa_mcalign_pop p m = Some (p, m, None)"
  using assms by (simp add: pa_mcalign_pop_def mcalign_inv_def mcalign_idle_def)

lemma mcalign_pop_not_idle:
  assumes inv: "mcalign_inv p m" and busy: "\<not> mcalign_idle m"
  shows "\<exists>p' m' c. pa_mcalign_pop p m = Some (p', m', Some c) \<and> mcalign_inv p' m' \<and>
    chunk_bytes p' c @ mcalign_pending p' m' = mcalign_pending p m \<and> chunk_ok p' c \<and>
    0 < ch_length c \<and> mc_base m dvd ch_length c"
proof (cases "ch_memblock (mc_leftover m) = None")
  case True
  with busy obtain b where "ch_memblock (mc_current m) = Some b"
    by (auto simp: mcalign_idle_def)
  with inv True show ?thesis by (rule mcalign_pop_current)
next
  case False
  with inv busy have full: "ch_length (mc_leftover m) = mc_base m"
    and ok: "chunk_ok p (mc_leftover m)" "0 < mc_base m"
    by (auto simp: mcalign_inv_def mcalign_idle_def)
  from mcalign_pop_leftover [OF inv False full] full ok show ?thesis by fastforce
qed

lemma mcalign_flush_returns:
  assumes "mcalign_inv p m"
  shows "\<exists>p' m'. pa_mcalign_flush p m = Some (p', m') \<and> mcalign_inv p' m' \<and> mcalign_idle m'"
  using assms
proof (induction "length (mcalign_pending p m)" arbitrary: p m rule: less_induct)
  case less
  show ?case
  proof (cases "mcalign_idle m")
    case True
    with less.prems show ?thesis
      by (simp add: pa_mcalign_flush.simps [of p m] mcalign_pop_idle)
  next
    case False
    from mcalign_pop_not_idle [OF less.prems this] obtain p' m' c where
      pop: "pa_mcalign_pop p m = Some (p', m', Some c)" and inv: "mcalign_inv p' m'" and
      bts: "chunk_bytes p' c @ mcalign_pending p' m' = mcalign_pending p m" and
      ok: "chunk_ok p' c" "0 < ch_length c"
      by blast
    have "length (mcalign_pending (unref_chunk p' c) m') < length (mcalign_pending p m)"
      using ok length_chunk_bytes [OF ok(1)] arg_cong [OF bts, of length] by simp
    moreover have "mcalign_inv (unref_chunk p' c) m'" using inv by simp
    ultimately show ?thesis
      using less.hyps [of "unref_chunk p' c" m'] pop
      by (simp add: pa_mcalign_flush.simps [of p m])
  qed
qed

subsection \<open>Properties\<close>

text \<open>
  C37: pushing a chunk into the aligner never fails and appends exactly the chunk's bytes to
  the bytes waiting in it, whether the chunk is merged, copied or stored; a chunk of the block
  the aligner already holds is shared, so that block has more than one reference.
\<close>

theorem mcalign_push_appends:
  assumes "mcalign_inv p m" "mcalign_idle m" "chunk_ok p c" "0 < ch_length c"
    and "ch_memblock (mc_leftover m) = ch_memblock c \<longrightarrow> mp_refs p (the (ch_memblock c)) > 1"
  shows "\<exists>p' m'. pa_mcalign_push p m c = Some (p', m') \<and> mcalign_inv p' m' \<and>
    mcalign_pending p' m' = mcalign_pending p m @ chunk_bytes p c"
proof -
  from assms(3) obtain cb where cb: "ch_memblock c = Some cb"
    by (auto simp: chunk_ok_def split: option.splits)
  show ?thesis
  proof (cases "ch_memblock (mc_leftover m)")
    case None
    from mcalign_push_store [OF assms(1,2) this cb assms(3,4)] show ?thesis .
  next
    case (Some lb)
    show ?thesis
    proof (cases "lb = cb \<and> ch_index (mc_leftover m) + ch_length (mc_leftover m) = ch_index c")
      case True
      with mcalign_push_merge [OF assms(1,2) cb assms(3,4)] Some show ?thesis by blast
    next
      case False
      have "lb = cb \<longrightarrow> mp_refs p lb > 1" using assms(5) Some cb by auto
      from mcalign_push_copy [OF assms(1,2) cb assms(3,4) Some this False] show ?thesis .
    qed
  qed
qed

theorem mcalign_push_appends_witness:
  "let p = \<lparr>mp_data = (\<lambda>b. if b = 0 then [1, 2, 3] else [4, 5]), mp_refs = (\<lambda>_. 1),
            mp_read_only = (\<lambda>_. False), mp_is_silence = (\<lambda>_. False), mp_next = 2, mp_stale = (\<lambda>_. 0)\<rparr>;
       m = \<lparr>mc_base = 4, mc_leftover = \<lparr>ch_memblock = Some 0, ch_index = 0, ch_length = 3\<rparr>,
            mc_current = pa_memchunk_reset\<rparr>;
       c = \<lparr>ch_memblock = Some 1, ch_index = 0, ch_length = 2\<rparr>
   in \<exists>p' m'. pa_mcalign_push p m c = Some (p', m') \<and> mcalign_inv p' m' \<and>
        mcalign_pending p' m' = mcalign_pending p m @ chunk_bytes p c"
  unfolding Let_def
  by (rule mcalign_push_appends)
    (simp_all add: mcalign_inv_def mcalign_idle_def chunk_ok_def)

text \<open>
  C38: popping from the aligner takes a positive whole number of base units off the front of
  the waiting bytes, and reports that nothing is available exactly when less than one unit
  waits.
\<close>

theorem mcalign_pop_takes_front:
  assumes "mcalign_inv p m"
  shows "\<exists>p' m' r. pa_mcalign_pop p m = Some (p', m', r) \<and> mcalign_inv p' m' \<and>
    (case r of
       None \<Rightarrow> p' = p \<and> m' = m \<and> length (mcalign_pending p m) < mc_base m
     | Some c \<Rightarrow> chunk_bytes p' c @ mcalign_pending p' m' = mcalign_pending p m \<and>
         0 < ch_length c \<and> mc_base m dvd ch_length c \<and> length (chunk_bytes p' c) = ch_length c)"
proof (cases "mcalign_idle m")
  case True
  then have "length (mcalign_pending p m) < mc_base m"
    using assms length_chunk_bytes [of p "mc_leftover m"]
    by (cases "ch_memblock (mc_leftover m)")
      (auto simp: mcalign_pending_def mcalign_idle_def mcalign_inv_def
        chunk_bytes_def [of _ "mc_current m"] chunk_bytes_def [of _ "mc_leftover m"])
  with mcalign_pop_idle [OF assms True] assms show ?thesis by simp
next
  case False
  from mcalign_pop_not_idle [OF assms this] show ?thesis
    using length_chunk_bytes by fastforce
qed

theorem mcalign_pop_takes_front_witness:
  "let p = \<lparr>mp_data = (\<lambda>_. [1, 2, 3, 4, 5]), mp_refs = (\<lambda>_. 1), mp_read_only = (\<lambda>_. False),
            mp_is_silence = (\<lambda>_. False), mp_next = 1, mp_stale = (\<lambda>_. 0)\<rparr>;
       m = \<lparr>mc_base = 2, mc_leftover = pa_memchunk_reset,
            mc_current = \<lparr>ch_memblock = Some 0, ch_index = 0, ch_length = 5\<rparr>\<rparr>
   in \<exists>p' m' r. pa_mcalign_pop p m = Some (p', m', r) \<and> mcalign_inv p' m' \<and>
        (case r of
           None \<Rightarrow> p' = p \<and> m' = m \<and> length (mcalign_pending p m) < mc_base m
         | Some c \<Rightarrow> chunk_bytes p' c @ mcalign_pending p' m' = mcalign_pending p m \<and>
             0 < ch_length c \<and> mc_base m dvd ch_length c \<and> length (chunk_bytes p' c) = ch_length c)"
  unfolding Let_def
  by (rule mcalign_pop_takes_front) (simp add: mcalign_inv_def chunk_ok_def)

end
