(* ===== verification/Memblockq.thy ===== *)
theory Memblockq
  imports Sample Memchunk
begin

text \<open>
  The memory block queue \<open>src/pulsecore/memblockq.c\<close>: state and operations.

  The doubly linked list \<open>blocks\<close> .. \<open>blocks_tail\<close> is a list of items; a pointer to an item
  is its position in the list (\<^typ>\<open>nat option\<close>, \<^term>\<open>None\<close> for NULL), so removing or inserting
  an item renumbers the cached cursors \<open>current_read\<close> and \<open>current_write\<close>. The memory pool the
  blocks belong to travels with the queue. Assertions that only say that the links of the list
  agree with each other (\<open>bq->blocks == q\<close>, \<open>bq->n_blocks >= 1\<close>) have no counterpart.
\<close>

subsection \<open>State\<close>

record list_item =
  li_index :: int
  li_chunk :: pa_memchunk

record pa_memblockq =
  mq_blocks :: "list_item list"
  mq_current_read :: "nat option"
  mq_current_write :: "nat option"
  mq_n_blocks :: nat
  mq_maxlength :: nat
  mq_tlength :: nat
  mq_base :: nat
  mq_prebuf :: nat
  mq_minreq :: nat
  mq_maxrewind :: nat
  mq_read_index :: int
  mq_write_index :: int
  mq_in_prebuf :: bool
  mq_silence :: pa_memchunk
  mq_mcalign :: pa_mcalign
  mq_missing :: int
  mq_requested :: int
  mq_name :: string
  mq_sample_spec :: pa_sample_spec
  mq_pool :: pa_mempool

text \<open>The position after an item, \<open>q->index + (int64_t) q->chunk.length\<close>.\<close>

definition li_end :: "list_item \<Rightarrow> int" where
  "li_end q = li_index q + int (ch_length (li_chunk q))"

subsection \<open>Cursors\<close>

fun scan_read_left :: "list_item list \<Rightarrow> int \<Rightarrow> nat \<Rightarrow> nat" where
  "scan_read_left xs ri 0 = 0"
| "scan_read_left xs ri (Suc i) =
     (if li_index (xs ! Suc i) > ri then scan_read_left xs ri i else Suc i)"

function scan_read_right :: "list_item list \<Rightarrow> int \<Rightarrow> nat \<Rightarrow> nat option" where
  "scan_read_right xs ri i =
     (if i < length xs
      then if li_end (xs ! i) \<le> ri then scan_read_right xs ri (Suc i) else Some i
      else None)"
  by pat_completeness auto
termination by (relation "measure (\<lambda>(xs, ri, i). length xs - i)") auto

declare scan_read_right.simps [simp del]

definition fix_current_read :: "pa_memblockq \<Rightarrow> pa_memblockq" where
  "fix_current_read bq =
     (if mq_blocks bq = [] then bq\<lparr>mq_current_read := None\<rparr>
      else
        (let i = (case mq_current_read bq of None \<Rightarrow> 0 | Some i \<Rightarrow> i);
             i = scan_read_left (mq_blocks bq) (mq_read_index bq) i
         in bq\<lparr>mq_current_read := scan_read_right (mq_blocks bq) (mq_read_index bq) i\<rparr>))"

function scan_write_right :: "list_item list \<Rightarrow> int \<Rightarrow> nat \<Rightarrow> nat" where
  "scan_write_right xs wi i =
     (if Suc i < length xs \<and> li_end (xs ! i) \<le> wi then scan_write_right xs wi (Suc i) else i)"
  by pat_completeness auto
termination by (relation "measure (\<lambda>(xs, wi, i). length xs - i)") auto

declare scan_write_right.simps [simp del]

fun scan_write_left :: "list_item list \<Rightarrow> int \<Rightarrow> nat \<Rightarrow> nat option" where
  "scan_write_left xs wi 0 = (if li_index (xs ! 0) > wi then None else Some 0)"
| "scan_write_left xs wi (Suc i) =
     (if li_index (xs ! Suc i) > wi then scan_write_left xs wi i else Some (Suc i))"

definition fix_current_write :: "pa_memblockq \<Rightarrow> pa_memblockq" where
  "fix_current_write bq =
     (if mq_blocks bq = [] then bq\<lparr>mq_current_write := None\<rparr>
      else
        (let i = (case mq_current_write bq of None \<Rightarrow> length (mq_blocks bq) - 1 | Some i \<Rightarrow> i);
             i = scan_write_right (mq_blocks bq) (mq_write_index bq) i
         in bq\<lparr>mq_current_write := scan_write_left (mq_blocks bq) (mq_write_index bq) i\<rparr>))"

definition drop_block :: "pa_memblockq \<Rightarrow> nat \<Rightarrow> pa_memblockq" where
  "drop_block bq i =
     bq\<lparr>mq_blocks := take i (mq_blocks bq) @ drop (Suc i) (mq_blocks bq),
        mq_current_write :=
          (case mq_current_write bq of
             None \<Rightarrow> None
           | Some j \<Rightarrow> if j = i then (if i = 0 then None else Some (i - 1))
                      else Some (if i < j then j - 1 else j)),
        mq_current_read :=
          (case mq_current_read bq of
             None \<Rightarrow> None
           | Some j \<Rightarrow> if j = i then (if Suc i < length (mq_blocks bq) then Some i else None)
                      else Some (if i < j then j - 1 else j)),
        mq_pool := unref_chunk (mq_pool bq) (li_chunk (mq_blocks bq ! i)),
        mq_n_blocks := mq_n_blocks bq - 1\<rparr>"

text \<open>Linking a new item in front of position \<open>j\<close>; the item holds a reference to its block.\<close>

definition insert_block :: "pa_memblockq \<Rightarrow> nat \<Rightarrow> list_item \<Rightarrow> pa_memblockq" where
  "insert_block bq j n =
     bq\<lparr>mq_blocks := take j (mq_blocks bq) @ n # drop j (mq_blocks bq),
        mq_current_write := map_option (\<lambda>k. if j \<le> k then Suc k else k) (mq_current_write bq),
        mq_current_read := map_option (\<lambda>k. if j \<le> k then Suc k else k) (mq_current_read bq),
        mq_pool := ref_chunk (mq_pool bq) (li_chunk n),
        mq_n_blocks := mq_n_blocks bq + 1\<rparr>"

lemma length_drop_block:
  "i < length (mq_blocks bq) \<Longrightarrow> length (mq_blocks (drop_block bq i)) < length (mq_blocks bq)"
  by (simp add: drop_block_def)

function drop_backlog_to :: "pa_memblockq \<Rightarrow> int \<Rightarrow> pa_memblockq" where
  "drop_backlog_to bq boundary =
     (if mq_blocks bq \<noteq> [] \<and> li_end (mq_blocks bq ! 0) \<le> boundary
      then drop_backlog_to (drop_block bq 0) boundary
      else bq)"
  by pat_completeness auto
termination
  by (relation "measure (\<lambda>(bq, _). length (mq_blocks bq))") (auto simp: length_drop_block)

declare drop_backlog_to.simps [simp del]

definition drop_backlog :: "pa_memblockq \<Rightarrow> pa_memblockq" where
  "drop_backlog bq = drop_backlog_to bq (mq_read_index bq - int (mq_maxrewind bq))"

subsection \<open>Accounting\<close>

definition can_push :: "pa_memblockq \<Rightarrow> nat \<Rightarrow> bool" where
  "can_push bq l =
     (if mq_read_index bq > mq_write_index bq \<and>
         \<not> int l > mq_read_index bq - mq_write_index bq
      then True
      else
        (let l = (if mq_read_index bq > mq_write_index bq
                  then l - nat (mq_read_index bq - mq_write_index bq) else l);
             end = (if mq_blocks bq \<noteq> [] then li_end (last (mq_blocks bq)) else mq_write_index bq)
         in if mq_write_index bq + int l > end
            then if mq_write_index bq + int l - mq_read_index bq > int (mq_maxlength bq)
                 then False else True
            else True))"

definition write_index_changed :: "pa_memblockq \<Rightarrow> int \<Rightarrow> bool \<Rightarrow> pa_memblockq" where
  "write_index_changed bq old account =
     (let delta = mq_write_index bq - old
      in if account then bq\<lparr>mq_requested := mq_requested bq - delta\<rparr>
         else bq\<lparr>mq_missing := mq_missing bq - delta\<rparr>)"

definition read_index_changed :: "pa_memblockq \<Rightarrow> int \<Rightarrow> pa_memblockq" where
  "read_index_changed bq old =
     (let delta = mq_read_index bq - old in bq\<lparr>mq_missing := mq_missing bq + delta\<rparr>)"

subsection \<open>Push\<close>

function push_advance :: "list_item list \<Rightarrow> int \<Rightarrow> nat \<Rightarrow> nat" where
  "push_advance xs we i =
     (if we > li_index (xs ! i) \<and> Suc i < length xs then push_advance xs we (Suc i) else i)"
  by pat_completeness auto
termination by (relation "measure (\<lambda>(xs, we, i). length xs - i)") auto

declare push_advance.simps [simp del]

definition push_cut :: "int \<Rightarrow> int \<Rightarrow> pa_memblockq \<Rightarrow> nat \<Rightarrow> pa_memblockq \<times> nat" where
  "push_cut wi we bq i =
     (let q = mq_blocks bq ! i;
          bq = (if we < li_end q
                then
                  (let d = nat (we - li_index q);
                       p = q\<lparr>li_index := li_index q + int d,
                             li_chunk := (li_chunk q)\<lparr>ch_length := ch_length (li_chunk q) - d\<rparr>\<rparr>
                   in insert_block bq (Suc i) p)
                else bq);
          l = nat (wi - li_index q);
          bq = bq\<lparr>mq_blocks := (mq_blocks bq)[i := q\<lparr>li_chunk := (li_chunk q)\<lparr>ch_length := l\<rparr>\<rparr>]\<rparr>
      in if l = 0 then (drop_block bq i, i) else (bq, Suc i))"

definition push_trim :: "int \<Rightarrow> pa_memblockq \<Rightarrow> nat \<Rightarrow> pa_memblockq" where
  "push_trim we bq i =
     (let q = mq_blocks bq ! i;
          d = nat (we - li_index q);
          c = li_chunk q
      in bq\<lparr>mq_blocks := (mq_blocks bq)[i :=
           q\<lparr>li_index := li_index q + int d,
             li_chunk := c\<lparr>ch_index := ch_index c + d, ch_length := ch_length c - d\<rparr>\<rparr>]\<rparr>)"

text \<open>
  The loop of \<open>pa_memblockq_push\<close> that walks from back to front. Its pointer \<open>q\<close> is \<open>0\<close> for
  NULL and \<open>Suc i\<close> for the item at position \<open>i\<close>.
\<close>

fun push_scan :: "int \<Rightarrow> int \<Rightarrow> pa_memblockq \<Rightarrow> nat \<Rightarrow> pa_memblockq \<times> nat" where
  "push_scan wi we bq 0 = (bq, 0)"
| "push_scan wi we bq (Suc i) =
     (let q = mq_blocks bq ! i
      in if wi \<ge> li_end q then (bq, Suc i)
         else if we \<le> li_index q then push_scan wi we bq i
         else if wi \<le> li_index q \<and> we \<ge> li_end q then push_scan wi we (drop_block bq i) i
         else if wi \<ge> li_index q then push_cut wi we bq i
         else push_scan wi we (push_trim we bq i) i)"

definition push_start :: "pa_memblockq \<Rightarrow> int \<Rightarrow> nat" where
  "push_start bq we =
     (case mq_current_write bq of
        Some i \<Rightarrow> Suc (push_advance (mq_blocks bq) we i)
      | None \<Rightarrow> length (mq_blocks bq))"

definition push_link :: "pa_memblockq \<Rightarrow> nat \<Rightarrow> pa_memchunk \<Rightarrow> pa_memblockq option" where
  "push_link bq q chunk =
     (let wi = mq_write_index bq;
          we = wi + int (ch_length chunk);
          xs = mq_blocks bq
      in case q of
           0 \<Rightarrow> do {
             pa_assert (xs = [] \<or> we \<le> li_index (xs ! 0));
             Some ((insert_block bq 0 \<lparr>li_index = wi, li_chunk = chunk\<rparr>)\<lparr>mq_write_index := we\<rparr>) }
         | Suc i \<Rightarrow> do {
             pa_assert (wi \<ge> li_end (xs ! i));
             pa_assert (\<not> Suc i < length xs \<or> we \<le> li_index (xs ! Suc i));
             (let c = li_chunk (xs ! i)
              in if ch_memblock c = ch_memblock chunk \<and> ch_index c + ch_length c = ch_index chunk \<and>
                    wi = li_end (xs ! i)
                 then Some (bq\<lparr>mq_blocks := xs[i := (xs ! i)\<lparr>li_chunk :=
                              c\<lparr>ch_length := ch_length c + ch_length chunk\<rparr>\<rparr>],
                            mq_write_index := we\<rparr>)
                 else Some ((insert_block bq (Suc i) \<lparr>li_index = wi, li_chunk = chunk\<rparr>)
                              \<lparr>mq_write_index := we\<rparr>)) })"

definition pa_memblockq_push ::
    "pa_memblockq \<Rightarrow> pa_memchunk \<Rightarrow> (pa_memblockq \<times> int) option" where
  "pa_memblockq_push bq uchunk = do {
     b \<leftarrow> ch_memblock uchunk;
     pa_assert (ch_length uchunk > 0);
     pa_assert (ch_index uchunk + ch_length uchunk \<le> pa_memblock_get_length (mq_pool bq) b);
     pa_assert (ch_length uchunk mod mq_base bq = 0);
     pa_assert (ch_index uchunk mod mq_base bq = 0);
     (if \<not> can_push bq (ch_length uchunk) then Some (bq, -1)
      else
        (let old = mq_write_index bq;
             we = old + int (ch_length uchunk);
             bq = fix_current_write bq;
             (bq, q) = push_scan old we bq (push_start bq we)
         in do {
           bq \<leftarrow> push_link bq q uchunk;
           Some (write_index_changed bq old True, 0) })) }"

subsection \<open>Prebuffering and reading\<close>

definition pa_memblockq_get_length :: "pa_memblockq \<Rightarrow> nat" where
  "pa_memblockq_get_length bq =
     (if mq_write_index bq \<le> mq_read_index bq then 0
      else nat (mq_write_index bq - mq_read_index bq))"

definition pa_memblockq_prebuf_active :: "pa_memblockq \<Rightarrow> bool" where
  "pa_memblockq_prebuf_active bq =
     (if mq_in_prebuf bq then pa_memblockq_get_length bq < mq_prebuf bq
      else mq_prebuf bq > 0 \<and> mq_read_index bq \<ge> mq_write_index bq)"

definition update_prebuf :: "pa_memblockq \<Rightarrow> pa_memblockq \<times> bool" where
  "update_prebuf bq =
     (if mq_in_prebuf bq
      then if pa_memblockq_get_length bq < mq_prebuf bq then (bq, True)
           else (bq\<lparr>mq_in_prebuf := False\<rparr>, False)
      else if mq_prebuf bq > 0 \<and> mq_read_index bq \<ge> mq_write_index bq
           then (bq\<lparr>mq_in_prebuf := True\<rparr>, True)
           else (bq, False))"

definition peek_silence :: "pa_memblockq \<Rightarrow> nat \<Rightarrow> pa_memblockq \<times> pa_memchunk option" where
  "peek_silence bq len =
     (if ch_memblock (mq_silence bq) \<noteq> None
      then
        (let chunk = mq_silence bq;
             bq = bq\<lparr>mq_pool := ref_chunk (mq_pool bq) chunk\<rparr>;
             chunk = (if len > 0 \<and> len < ch_length chunk then chunk\<lparr>ch_length := len\<rparr> else chunk)
         in (bq, Some (chunk\<lparr>ch_index := 0\<rparr>)))
      else if len \<le> 0 then (bq, None)
      else (bq, Some \<lparr>ch_memblock = None, ch_index = 0, ch_length = len\<rparr>))"

text \<open>\<open>pa_memblockq_peek\<close> returns the chunk, or \<^term>\<open>None\<close> for its return value -1.\<close>

definition pa_memblockq_peek :: "pa_memblockq \<Rightarrow> pa_memblockq \<times> pa_memchunk option" where
  "pa_memblockq_peek bq =
     (let (bq, prebuf) = update_prebuf bq
      in if prebuf then (bq, None)
         else
           (let bq = fix_current_read bq
            in case mq_current_read bq of
                 None \<Rightarrow>
                   peek_silence bq
                     (if mq_write_index bq > mq_read_index bq
                      then nat (mq_write_index bq - mq_read_index bq) else 0)
               | Some i \<Rightarrow>
                   (let q = mq_blocks bq ! i
                    in if li_index q > mq_read_index bq
                       then peek_silence bq (nat (li_index q - mq_read_index bq))
                       else
                         (let chunk = li_chunk q;
                              d = nat (mq_read_index bq - li_index q)
                          in (bq\<lparr>mq_pool := ref_chunk (mq_pool bq) chunk\<rparr>,
                              Some (chunk\<lparr>ch_index := ch_index chunk + d,
                                          ch_length := ch_length chunk - d\<rparr>))))))"

text \<open>
  The copy loop of \<open>pa_memblockq_peek_fixed_size\<close>: \<open>off\<close> is \<open>rchunk.index\<close>, \<open>item\<close> the
  position of the next item. \<^term>\<open>None\<close> also stands for a loop that never ends (a silence
  chunk of length 0 makes no progress).
\<close>

partial_function (option) peek_copy ::
    "list_item list \<Rightarrow> pa_memchunk \<Rightarrow> nat \<Rightarrow> nat \<Rightarrow> pa_mempool \<Rightarrow> nat \<Rightarrow> nat option \<Rightarrow> int \<Rightarrow>
       pa_mempool option" where
  "peek_copy xs silence dst block_size p off item ri =
     (if off < block_size then
        (let use_silence = (case item of None \<Rightarrow> True | Some i \<Rightarrow> li_index (xs ! i) > ri);
             tchunk =
               (case item of
                  None \<Rightarrow> silence
                | Some i \<Rightarrow>
                    if use_silence
                    then silence\<lparr>ch_length := min (ch_length silence) (nat (li_index (xs ! i) - ri))\<rparr>
                    else
                      (let c = li_chunk (xs ! i); d = nat (ri - li_index (xs ! i))
                       in c\<lparr>ch_index := ch_index c + d, ch_length := ch_length c - d\<rparr>));
             item =
               (case item of
                  None \<Rightarrow> None
                | Some i \<Rightarrow> if use_silence then Some i
                           else if Suc i < length xs then Some (Suc i) else None);
             l = min (ch_length tchunk) (block_size - off)
         in case pa_memchunk_memcpy p \<lparr>ch_memblock = Some dst, ch_index = off, ch_length = l\<rparr>
                   (tchunk\<lparr>ch_length := l\<rparr>) of
              None \<Rightarrow> None
            | Some p \<Rightarrow> peek_copy xs silence dst block_size p (off + l) item (ri + int l))
      else Some p)"

definition pa_memblockq_peek_fixed_size ::
    "pa_memblockq \<Rightarrow> nat \<Rightarrow> (pa_memblockq \<times> pa_memchunk option) option" where
  "pa_memblockq_peek_fixed_size bq block_size = do {
     pa_assert (block_size > 0);
     pa_assert (ch_memblock (mq_silence bq) \<noteq> None);
     (case pa_memblockq_peek bq of
        (bq, None) \<Rightarrow> Some (bq, None)
      | (bq, Some tchunk) \<Rightarrow>
          if ch_length tchunk \<ge> block_size
          then Some (bq, Some (tchunk\<lparr>ch_length := block_size\<rparr>))
          else do {
            (p, n) \<leftarrow> pa_memblock_new (mq_pool bq) block_size;
            p \<leftarrow> pa_memchunk_memcpy p
                   \<lparr>ch_memblock = Some n, ch_index = 0, ch_length = ch_length tchunk\<rparr> tchunk;
            p \<leftarrow> peek_copy (mq_blocks bq) (mq_silence bq) n block_size (unref_chunk p tchunk)
                   (ch_length tchunk) (mq_current_read bq)
                   (mq_read_index bq + int (ch_length tchunk));
            Some (bq\<lparr>mq_pool := p\<rparr>,
                  Some \<lparr>ch_memblock = Some n, ch_index = 0, ch_length = block_size\<rparr>) }) }"

subsection \<open>Dropping, seeking and flushing\<close>

lemma scan_read_right_end: "scan_read_right xs ri i = Some j \<Longrightarrow> j < length xs \<and> ri < li_end (xs ! j)"
proof (induction xs ri i rule: scan_read_right.induct)
  case (1 xs ri i)
  then show ?case
    by (auto simp: scan_read_right.simps [of xs ri i] split: if_splits)
qed

lemma fix_current_read_cases:
  "mq_current_read (fix_current_read bq) = Some j \<Longrightarrow>
     j < length (mq_blocks bq) \<and> mq_read_index bq < li_end (mq_blocks bq ! j)"
  by (auto simp: fix_current_read_def Let_def dest: scan_read_right_end split: if_splits)

text \<open>
  One round of the loop of \<open>pa_memblockq_drop\<close>: what remains to be dropped, or \<open>0\<close> when the
  loop is left. The assertion \<open>p >= bq->read_index\<close> holds because the cursor was just fixed.
\<close>

definition drop_round :: "pa_memblockq \<Rightarrow> nat \<Rightarrow> pa_memblockq \<times> nat" where
  "drop_round bq len =
     (let (bq, prebuf) = update_prebuf bq
      in if prebuf then (bq, 0)
         else
           (let bq = fix_current_read bq
            in case mq_current_read bq of
                 None \<Rightarrow> (bq\<lparr>mq_read_index := mq_read_index bq + int len\<rparr>, 0)
               | Some i \<Rightarrow>
                   (let p = li_end (mq_blocks bq ! i);
                        d = min (p - mq_read_index bq) (int len)
                    in (bq\<lparr>mq_read_index := mq_read_index bq + d\<rparr>, len - nat d))))"

lemma update_prebuf_eq:
  "update_prebuf bq =
     (bq\<lparr>mq_in_prebuf := pa_memblockq_prebuf_active bq\<rparr>, pa_memblockq_prebuf_active bq)"
  by (simp add: update_prebuf_def pa_memblockq_prebuf_active_def)

lemma fix_current_read_frame [simp]:
  "mq_blocks (fix_current_read bq) = mq_blocks bq"
  "mq_read_index (fix_current_read bq) = mq_read_index bq"
  "mq_write_index (fix_current_read bq) = mq_write_index bq"
  "mq_in_prebuf (fix_current_read bq) = mq_in_prebuf bq"
  "mq_pool (fix_current_read bq) = mq_pool bq"
  by (simp_all add: fix_current_read_def Let_def)

lemma drop_round_less: "0 < len \<Longrightarrow> snd (drop_round bq len) < len"
  using fix_current_read_cases [of "bq\<lparr>mq_in_prebuf := False\<rparr>"]
  by (auto simp: drop_round_def update_prebuf_eq Let_def split: option.splits)

function drop_loop :: "pa_memblockq \<Rightarrow> nat \<Rightarrow> pa_memblockq" where
  "drop_loop bq len =
     (if len > 0 then drop_loop (fst (drop_round bq len)) (snd (drop_round bq len)) else bq)"
  by pat_completeness auto
termination by (relation "measure snd") (auto simp: drop_round_less)

declare drop_loop.simps [simp del]

definition pa_memblockq_drop :: "pa_memblockq \<Rightarrow> nat \<Rightarrow> pa_memblockq option" where
  "pa_memblockq_drop bq len = do {
     pa_assert (len mod mq_base bq = 0);
     (let old = mq_read_index bq
      in Some (read_index_changed (drop_backlog (drop_loop bq len)) old)) }"

definition pa_memblockq_rewind :: "pa_memblockq \<Rightarrow> nat \<Rightarrow> pa_memblockq option" where
  "pa_memblockq_rewind bq len = do {
     pa_assert (len mod mq_base bq = 0);
     (let old = mq_read_index bq
      in Some (read_index_changed (bq\<lparr>mq_read_index := mq_read_index bq - int len\<rparr>) old)) }"

definition pa_memblockq_is_readable :: "pa_memblockq \<Rightarrow> bool" where
  "pa_memblockq_is_readable bq =
     (if pa_memblockq_prebuf_active bq then False
      else if pa_memblockq_get_length bq \<le> 0 then False
      else True)"

datatype pa_seek_mode_t =
    PA_SEEK_RELATIVE | PA_SEEK_ABSOLUTE | PA_SEEK_RELATIVE_ON_READ | PA_SEEK_RELATIVE_END

definition pa_memblockq_seek ::
    "pa_memblockq \<Rightarrow> int \<Rightarrow> pa_seek_mode_t \<Rightarrow> bool \<Rightarrow> pa_memblockq" where
  "pa_memblockq_seek bq offset seek account =
     (let old = mq_write_index bq;
          bq =
            (case seek of
               PA_SEEK_RELATIVE \<Rightarrow> bq\<lparr>mq_write_index := mq_write_index bq + offset\<rparr>
             | PA_SEEK_ABSOLUTE \<Rightarrow> bq\<lparr>mq_write_index := offset\<rparr>
             | PA_SEEK_RELATIVE_ON_READ \<Rightarrow> bq\<lparr>mq_write_index := mq_read_index bq + offset\<rparr>
             | PA_SEEK_RELATIVE_END \<Rightarrow>
                 bq\<lparr>mq_write_index :=
                      (if mq_blocks bq \<noteq> [] then li_end (last (mq_blocks bq))
                       else mq_read_index bq) + offset\<rparr>)
      in write_index_changed (drop_backlog bq) old account)"

function pa_memblockq_silence :: "pa_memblockq \<Rightarrow> pa_memblockq" where
  "pa_memblockq_silence bq =
     (if mq_blocks bq \<noteq> [] then pa_memblockq_silence (drop_block bq 0) else bq)"
  by pat_completeness auto
termination
  by (relation "measure (\<lambda>bq. length (mq_blocks bq))") (auto simp: length_drop_block)

declare pa_memblockq_silence.simps [simp del]

definition pa_memblockq_prebuf_disable :: "pa_memblockq \<Rightarrow> pa_memblockq" where
  "pa_memblockq_prebuf_disable bq = bq\<lparr>mq_in_prebuf := False\<rparr>"

definition pa_memblockq_prebuf_force :: "pa_memblockq \<Rightarrow> pa_memblockq" where
  "pa_memblockq_prebuf_force bq = (if mq_prebuf bq > 0 then bq\<lparr>mq_in_prebuf := True\<rparr> else bq)"

definition pa_memblockq_flush_write :: "pa_memblockq \<Rightarrow> bool \<Rightarrow> pa_memblockq" where
  "pa_memblockq_flush_write bq account =
     (let bq = pa_memblockq_silence bq;
          old = mq_write_index bq;
          bq = bq\<lparr>mq_write_index := mq_read_index bq\<rparr>;
          bq = pa_memblockq_prebuf_force bq
      in write_index_changed bq old account)"

definition pa_memblockq_flush_read :: "pa_memblockq \<Rightarrow> pa_memblockq" where
  "pa_memblockq_flush_read bq =
     (let bq = pa_memblockq_silence bq;
          old = mq_read_index bq;
          bq = bq\<lparr>mq_read_index := mq_write_index bq\<rparr>;
          bq = pa_memblockq_prebuf_force bq
      in read_index_changed bq old)"

definition pa_memblockq_get_tlength :: "pa_memblockq \<Rightarrow> nat" where
  "pa_memblockq_get_tlength bq = mq_tlength bq"

definition pa_memblockq_get_minreq :: "pa_memblockq \<Rightarrow> nat" where
  "pa_memblockq_get_minreq bq = mq_minreq bq"

definition pa_memblockq_get_maxrewind :: "pa_memblockq \<Rightarrow> nat" where
  "pa_memblockq_get_maxrewind bq = mq_maxrewind bq"

definition pa_memblockq_get_read_index :: "pa_memblockq \<Rightarrow> int" where
  "pa_memblockq_get_read_index bq = mq_read_index bq"

definition pa_memblockq_get_write_index :: "pa_memblockq \<Rightarrow> int" where
  "pa_memblockq_get_write_index bq = mq_write_index bq"

definition pa_memblockq_get_maxlength :: "pa_memblockq \<Rightarrow> nat" where
  "pa_memblockq_get_maxlength bq = mq_maxlength bq"

definition pa_memblockq_get_prebuf :: "pa_memblockq \<Rightarrow> nat" where
  "pa_memblockq_get_prebuf bq = mq_prebuf bq"

definition pa_memblockq_is_empty :: "pa_memblockq \<Rightarrow> bool" where
  "pa_memblockq_is_empty bq = (mq_blocks bq = [])"

definition pa_memblockq_get_nblocks :: "pa_memblockq \<Rightarrow> nat" where
  "pa_memblockq_get_nblocks bq = mq_n_blocks bq"

definition pa_memblockq_get_base :: "pa_memblockq \<Rightarrow> nat" where
  "pa_memblockq_get_base bq = mq_base bq"

definition pa_memblockq_pop_missing :: "pa_memblockq \<Rightarrow> pa_memblockq \<times> nat" where
  "pa_memblockq_pop_missing bq =
     (if mq_missing bq \<le> 0 then (bq, 0)
      else if nat (mq_missing bq) < mq_minreq bq \<and> \<not> pa_memblockq_prebuf_active bq then (bq, 0)
      else
        (bq\<lparr>mq_requested := mq_requested bq + mq_missing bq, mq_missing := 0\<rparr>,
         nat (mq_missing bq)))"

subsection \<open>Buffer attributes\<close>

text \<open>Rounding to a multiple of the frame size, \<open>((x+bq->base-1)/bq->base)*bq->base\<close> and
  \<open>(x/bq->base)*bq->base\<close>.\<close>

definition round_up_base :: "nat \<Rightarrow> nat \<Rightarrow> nat" where
  "round_up_base x base = (size_sub (size_add x base) 1 div base) * base"

definition round_down_base :: "nat \<Rightarrow> nat \<Rightarrow> nat" where
  "round_down_base x base = (x div base) * base"

text \<open>\<open>bq->tlength+bq->base-bq->minreq\<close>\<close>

definition prebuf_limit :: "pa_memblockq \<Rightarrow> nat" where
  "prebuf_limit bq = size_sub (size_add (mq_tlength bq) (mq_base bq)) (mq_minreq bq)"

definition pa_memblockq_set_prebuf :: "pa_memblockq \<Rightarrow> nat \<Rightarrow> pa_memblockq" where
  "pa_memblockq_set_prebuf bq prebuf =
     (let prebuf = (if prebuf = SIZE_MAX then prebuf_limit bq else prebuf);
          bq = bq\<lparr>mq_prebuf := round_up_base prebuf (mq_base bq)\<rparr>;
          bq = (if prebuf > 0 \<and> mq_prebuf bq < mq_base bq
                then bq\<lparr>mq_prebuf := mq_base bq\<rparr> else bq);
          bq = (if mq_prebuf bq > prebuf_limit bq
                then bq\<lparr>mq_prebuf := prebuf_limit bq\<rparr> else bq)
      in if mq_prebuf bq \<le> 0 \<or> pa_memblockq_get_length bq \<ge> mq_prebuf bq
         then bq\<lparr>mq_in_prebuf := False\<rparr> else bq)"

definition pa_memblockq_set_minreq :: "pa_memblockq \<Rightarrow> nat \<Rightarrow> pa_memblockq" where
  "pa_memblockq_set_minreq bq minreq =
     (let bq = bq\<lparr>mq_minreq := round_down_base minreq (mq_base bq)\<rparr>;
          bq = (if mq_minreq bq > mq_tlength bq then bq\<lparr>mq_minreq := mq_tlength bq\<rparr> else bq);
          bq = (if mq_minreq bq < mq_base bq then bq\<lparr>mq_minreq := mq_base bq\<rparr> else bq)
      in if mq_prebuf bq > prebuf_limit bq
         then pa_memblockq_set_prebuf bq (prebuf_limit bq) else bq)"

definition pa_memblockq_set_tlength :: "pa_memblockq \<Rightarrow> nat \<Rightarrow> pa_memblockq" where
  "pa_memblockq_set_tlength bq tlength =
     (let tlength = (if tlength \<le> 0 \<or> tlength = SIZE_MAX then mq_maxlength bq else tlength);
          old_tlength = mq_tlength bq;
          bq = bq\<lparr>mq_tlength := round_up_base tlength (mq_base bq)\<rparr>;
          bq = (if mq_tlength bq > mq_maxlength bq
                then bq\<lparr>mq_tlength := mq_maxlength bq\<rparr> else bq);
          bq = (if mq_minreq bq > mq_tlength bq
                then pa_memblockq_set_minreq bq (mq_tlength bq) else bq);
          bq = (if mq_prebuf bq > prebuf_limit bq
                then pa_memblockq_set_prebuf bq (prebuf_limit bq) else bq)
      in bq\<lparr>mq_missing := mq_missing bq + (int (mq_tlength bq) - int old_tlength)\<rparr>)"

definition pa_memblockq_set_maxlength :: "pa_memblockq \<Rightarrow> nat \<Rightarrow> pa_memblockq" where
  "pa_memblockq_set_maxlength bq maxlength =
     (let bq = bq\<lparr>mq_maxlength := round_up_base maxlength (mq_base bq)\<rparr>;
          bq = (if mq_maxlength bq < mq_base bq
                then bq\<lparr>mq_maxlength := mq_base bq\<rparr> else bq)
      in if mq_tlength bq > mq_maxlength bq
         then pa_memblockq_set_tlength bq (mq_maxlength bq) else bq)"

definition pa_memblockq_set_maxrewind :: "pa_memblockq \<Rightarrow> nat \<Rightarrow> pa_memblockq" where
  "pa_memblockq_set_maxrewind bq maxrewind =
     bq\<lparr>mq_maxrewind := round_down_base maxrewind (mq_base bq)\<rparr>"

record pa_buffer_attr =
  ba_maxlength :: nat
  ba_tlength :: nat
  ba_prebuf :: nat
  ba_minreq :: nat

definition pa_memblockq_apply_attr :: "pa_memblockq \<Rightarrow> pa_buffer_attr \<Rightarrow> pa_memblockq" where
  "pa_memblockq_apply_attr bq a =
     (let bq = pa_memblockq_set_maxlength bq (ba_maxlength a);
          bq = pa_memblockq_set_tlength bq (ba_tlength a);
          bq = pa_memblockq_set_minreq bq (ba_minreq a)
      in pa_memblockq_set_prebuf bq (ba_prebuf a))"

definition pa_memblockq_get_attr :: "pa_memblockq \<Rightarrow> pa_buffer_attr" where
  "pa_memblockq_get_attr bq =
     \<lparr>ba_maxlength = pa_memblockq_get_maxlength bq mod 2 ^ 32,
      ba_tlength = pa_memblockq_get_tlength bq mod 2 ^ 32,
      ba_prebuf = pa_memblockq_get_prebuf bq mod 2 ^ 32,
      ba_minreq = pa_memblockq_get_minreq bq mod 2 ^ 32\<rparr>"

subsection \<open>Construction, silence and splicing\<close>

definition pa_memblockq_set_silence :: "pa_memblockq \<Rightarrow> pa_memchunk option \<Rightarrow> pa_memblockq" where
  "pa_memblockq_set_silence bq silence =
     (let bq = bq\<lparr>mq_pool := unref_chunk (mq_pool bq) (mq_silence bq)\<rparr>
      in case silence of
           Some c \<Rightarrow> bq\<lparr>mq_silence := c, mq_pool := ref_chunk (mq_pool bq) c\<rparr>
         | None \<Rightarrow> bq\<lparr>mq_silence := pa_memchunk_reset\<rparr>)"

definition pa_memblockq_new ::
    "string \<Rightarrow> int \<Rightarrow> nat \<Rightarrow> nat \<Rightarrow> pa_sample_spec \<Rightarrow> nat \<Rightarrow> nat \<Rightarrow> nat \<Rightarrow> pa_memchunk option \<Rightarrow>
       pa_mempool \<Rightarrow> pa_memblockq option" where
  "pa_memblockq_new name idx maxlength tlength sample_spec prebuf minreq maxrewind silence pool = do {
     base \<leftarrow> pa_frame_size sample_spec;
     mcalign \<leftarrow> pa_mcalign_new base;
     (let bq = \<lparr>mq_blocks = [], mq_current_read = None, mq_current_write = None, mq_n_blocks = 0,
                mq_maxlength = 0, mq_tlength = 0, mq_base = base, mq_prebuf = 0, mq_minreq = 0,
                mq_maxrewind = 0, mq_read_index = idx, mq_write_index = idx, mq_in_prebuf = True,
                mq_silence = pa_memchunk_reset, mq_mcalign = mcalign, mq_missing = 0,
                mq_requested = 0, mq_name = name, mq_sample_spec = sample_spec, mq_pool = pool\<rparr>;
          bq = pa_memblockq_set_maxlength bq maxlength;
          bq = pa_memblockq_set_tlength bq tlength;
          bq = pa_memblockq_set_minreq bq minreq;
          bq = pa_memblockq_set_prebuf bq prebuf;
          bq = pa_memblockq_set_maxrewind bq maxrewind
      in Some (case silence of
                 None \<Rightarrow> bq
               | Some c \<Rightarrow> bq\<lparr>mq_silence := c, mq_pool := ref_chunk (mq_pool bq) c\<rparr>)) }"

text \<open>Freeing a queue leaves the pool with the references the queue held released.\<close>

definition pa_memblockq_free :: "pa_memblockq \<Rightarrow> pa_mempool" where
  "pa_memblockq_free bq =
     (let bq = pa_memblockq_silence bq
      in pa_mcalign_free (unref_chunk (mq_pool bq) (mq_silence bq)) (mq_mcalign bq))"

definition pa_memblockq_willneed :: "pa_memblockq \<Rightarrow> pa_memblockq" where
  "pa_memblockq_willneed bq = fix_current_read bq"

text \<open>The loop of \<open>pa_memblockq_push_align\<close> over the chunks the aligner hands out.\<close>

partial_function (option) push_align_loop ::
    "pa_memblockq \<Rightarrow> (pa_memblockq \<times> int) option" where
  "push_align_loop bq =
     (case pa_mcalign_pop (mq_pool bq) (mq_mcalign bq) of
        None \<Rightarrow> None
      | Some (p, m, r) \<Rightarrow>
          (let bq = bq\<lparr>mq_pool := p, mq_mcalign := m\<rparr>
           in case r of
                None \<Rightarrow> Some (bq, 0)
              | Some rchunk \<Rightarrow>
                  (case pa_memblockq_push bq rchunk of
                     None \<Rightarrow> None
                   | Some (bq, res) \<Rightarrow>
                       (let bq = bq\<lparr>mq_pool := unref_chunk (mq_pool bq) rchunk\<rparr>
                        in if res < 0
                           then (case pa_mcalign_flush (mq_pool bq) (mq_mcalign bq) of
                                   None \<Rightarrow> None
                                 | Some (p, m) \<Rightarrow> Some (bq\<lparr>mq_pool := p, mq_mcalign := m\<rparr>, -1))
                           else push_align_loop bq))))"

definition pa_memblockq_push_align ::
    "pa_memblockq \<Rightarrow> pa_memchunk \<Rightarrow> (pa_memblockq \<times> int) option" where
  "pa_memblockq_push_align bq chunk =
     (if mq_base bq = 1 then pa_memblockq_push bq chunk
      else do {
        csize \<leftarrow> pa_mcalign_csize (mq_mcalign bq) (ch_length chunk);
        (if \<not> can_push bq csize then Some (bq, -1)
         else do {
           (p, m) \<leftarrow> pa_mcalign_push (mq_pool bq) (mq_mcalign bq) chunk;
           push_align_loop (bq\<lparr>mq_pool := p, mq_mcalign := m\<rparr>) }) })"

text \<open>
  \<open>pa_memblockq_splice\<close> copies from \<open>source\<close> to \<open>bq\<close>; the two queues share one pool, which is
  handed from one to the other. As in the code, the drop at the end of each round is applied
  to \<open>bq\<close>.
\<close>

partial_function (option) splice_loop ::
    "pa_memblockq \<Rightarrow> pa_memblockq \<Rightarrow> (pa_memblockq \<times> pa_memblockq \<times> int) option" where
  "splice_loop bq source =
     (case pa_memblockq_peek (source\<lparr>mq_pool := mq_pool bq\<rparr>) of
        (source, None) \<Rightarrow> Some (bq\<lparr>mq_pool := mq_pool source\<rparr>, source, 0)
      | (source, Some chunk) \<Rightarrow>
          (if \<not> ch_length chunk > 0 then None
           else
             (let bq = bq\<lparr>mq_pool := mq_pool source\<rparr>
              in case (if ch_memblock chunk \<noteq> None
                       then (case pa_memblockq_push_align bq chunk of
                               None \<Rightarrow> None
                             | Some (bq, res) \<Rightarrow>
                                 Some (bq\<lparr>mq_pool := unref_chunk (mq_pool bq) chunk\<rparr>, res))
                       else Some (pa_memblockq_seek bq (int (ch_length chunk)) PA_SEEK_RELATIVE True, 0)) of
                   None \<Rightarrow> None
                 | Some (bq, res) \<Rightarrow>
                     (if res < 0 then Some (bq, source, -1)
                      else
                        (case pa_memblockq_drop bq (ch_length chunk) of
                           None \<Rightarrow> None
                         | Some bq \<Rightarrow> splice_loop bq source)))))"

definition pa_memblockq_splice ::
    "pa_memblockq \<Rightarrow> pa_memblockq \<Rightarrow> (pa_memblockq \<times> pa_memblockq \<times> int) option" where
  "pa_memblockq_splice bq source = splice_loop (pa_memblockq_prebuf_disable bq) source"

end
