(* ===== verification/Memblockq_Blocks.thy ===== *)
theory Memblockq_Blocks
  imports Memblockq
begin

text \<open>
  The list of blocks of a queue under \<^const>\<open>pa_memblockq_push\<close>: the walk from back to front that
  drops, truncates, splits and trims blocks is reduced to a function on lists,
  \<open>pushed\<close>, and every list operation is shown to keep the cursors, the item count and the
  balance of block references.
\<close>

subsection \<open>Well-formed lists of items\<close>

definition blocks_ok :: "list_item list \<Rightarrow> bool" where
  "blocks_ok xs \<longleftrightarrow> (\<forall>q \<in> set xs. li_index q < li_end q) \<and>
     sorted_wrt (\<lambda>a b. li_end a \<le> li_index b) xs"

lemma blocks_ok_Nil [simp]: "blocks_ok []"
  by (simp add: blocks_ok_def)

lemma blocks_ok_append:
  "blocks_ok (xs @ ys) \<longleftrightarrow>
     blocks_ok xs \<and> blocks_ok ys \<and> (\<forall>a \<in> set xs. \<forall>b \<in> set ys. li_end a \<le> li_index b)"
  by (auto simp: blocks_ok_def sorted_wrt_append)

lemma blocks_ok_Cons:
  "blocks_ok (q # xs) \<longleftrightarrow>
     li_index q < li_end q \<and> blocks_ok xs \<and> (\<forall>b \<in> set xs. li_end q \<le> li_index b)"
  by (auto simp: blocks_ok_def)

lemma blocks_ok_split:
  assumes "blocks_ok xs" "i < length xs"
  shows "blocks_ok (take i xs)" "blocks_ok (drop (Suc i) xs)" "li_index (xs ! i) < li_end (xs ! i)"
    "\<forall>a \<in> set (take i xs). li_end a \<le> li_index (xs ! i) \<and> li_index a < li_end a"
    "\<forall>b \<in> set (drop (Suc i) xs). li_end (xs ! i) \<le> li_index b"
    "\<forall>a \<in> set (take i xs). \<forall>b \<in> set (drop (Suc i) xs). li_end a \<le> li_index b"
proof -
  from assms have "blocks_ok (take i xs @ xs ! i # drop (Suc i) xs)"
    by (simp add: take_nth_drop)
  then show "blocks_ok (take i xs)" "blocks_ok (drop (Suc i) xs)" "li_index (xs ! i) < li_end (xs ! i)"
    "\<forall>a \<in> set (take i xs). li_end a \<le> li_index (xs ! i) \<and> li_index a < li_end a"
    "\<forall>b \<in> set (drop (Suc i) xs). li_end (xs ! i) \<le> li_index b"
    "\<forall>a \<in> set (take i xs). \<forall>b \<in> set (drop (Suc i) xs). li_end a \<le> li_index b"
    by (auto simp: blocks_ok_append blocks_ok_Cons) (auto simp: blocks_ok_def)
qed

lemma blocks_ok_nth_mono:
  assumes "blocks_ok xs" "i < j" "j < length xs"
  shows "li_end (xs ! i) \<le> li_index (xs ! j)"
  using assms by (auto simp: blocks_ok_def sorted_wrt_iff_nth_less)

lemma blocks_ok_nth: "blocks_ok xs \<Longrightarrow> i < length xs \<Longrightarrow> li_index (xs ! i) < li_end (xs ! i)"
  by (simp add: blocks_ok_def)

subsection \<open>What a write keeps of an item\<close>

definition before_item :: "int \<Rightarrow> list_item \<Rightarrow> list_item list" where
  "before_item wi q =
     (if li_end q \<le> wi then [q]
      else if li_index q < wi
        then [q\<lparr>li_chunk := (li_chunk q)\<lparr>ch_length := nat (wi - li_index q)\<rparr>\<rparr>]
      else [])"

definition after_item :: "int \<Rightarrow> int \<Rightarrow> list_item \<Rightarrow> list_item list" where
  "after_item wi we q =
     (if we \<le> li_index q then [q]
      else if li_end q \<le> we then []
      else
        (let d = nat (we - li_index q); c = li_chunk q
         in [q\<lparr>li_index := li_index q + int d,
               li_chunk := c\<lparr>ch_index := (if li_index q \<le> wi then ch_index c else ch_index c + d),
                             ch_length := ch_length c - d\<rparr>\<rparr>]))"

definition kept_before :: "int \<Rightarrow> list_item list \<Rightarrow> list_item list" where
  "kept_before wi xs = concat (map (before_item wi) xs)"

definition kept_after :: "int \<Rightarrow> int \<Rightarrow> list_item list \<Rightarrow> list_item list" where
  "kept_after wi we xs = concat (map (after_item wi we) xs)"

lemma kept_append [simp]:
  "kept_before wi (xs @ ys) = kept_before wi xs @ kept_before wi ys"
  "kept_after wi we (xs @ ys) = kept_after wi we xs @ kept_after wi we ys"
  by (simp_all add: kept_before_def kept_after_def)

lemma kept_single [simp]:
  "kept_before wi [q] = before_item wi q"
  "kept_after wi we [q] = after_item wi we q"
  "kept_before wi [] = []"
  "kept_after wi we [] = []"
  by (simp_all add: kept_before_def kept_after_def)

lemma kept_Cons:
  "kept_before wi (q # xs) = before_item wi q @ kept_before wi xs"
  "kept_after wi we (q # xs) = after_item wi we q @ kept_after wi we xs"
  by (simp_all add: kept_before_def kept_after_def)

lemma kept_left:
  assumes "\<forall>a \<in> set xs. li_end a \<le> wi \<and> li_index a < li_end a" "wi < we"
  shows "kept_before wi xs = xs" "kept_after wi we xs = []"
  using assms by (induction xs) (auto simp: kept_Cons before_item_def after_item_def)

lemma kept_right:
  assumes "\<forall>b \<in> set xs. we \<le> li_index b \<and> li_index b < li_end b" "wi < we"
  shows "kept_before wi xs = []" "kept_after wi we xs = xs"
  using assms by (induction xs) (auto simp: kept_Cons before_item_def after_item_def)

subsection \<open>The loops of push\<close>

lemma mq_blocks_drop_block [simp]:
  "mq_blocks (drop_block bq i) = take i (mq_blocks bq) @ drop (Suc i) (mq_blocks bq)"
  by (simp add: drop_block_def)

lemma mq_blocks_insert_block [simp]:
  "mq_blocks (insert_block bq j n) = take j (mq_blocks bq) @ n # drop j (mq_blocks bq)"
  by (simp add: insert_block_def)

lemma push_cut_blocks:
  assumes ok: "blocks_ok (mq_blocks bq)" and i: "i < length (mq_blocks bq)" and w: "wi < we"
    and q: "q = mq_blocks bq ! i" "li_index q \<le> wi" "wi < li_end q"
  shows "mq_blocks (fst (push_cut wi we bq i)) =
      take i (mq_blocks bq) @ before_item wi q @ after_item wi we q @ drop (Suc i) (mq_blocks bq)"
    and "snd (push_cut wi we bq i) = i + length (before_item wi q)"
proof -
  let ?xs = "mq_blocks bq"
  have t: "length (take i ?xs) = i" using i by simp
  show "mq_blocks (fst (push_cut wi we bq i)) =
      take i ?xs @ before_item wi q @ after_item wi we q @ drop (Suc i) ?xs"
    using q w i t
    by (auto simp: push_cut_def Let_def before_item_def after_item_def li_end_def
        list_update_append take_Suc_nth upd_conv_take_nth_drop)
  show "snd (push_cut wi we bq i) = i + length (before_item wi q)"
    using q by (auto simp: push_cut_def Let_def before_item_def)
qed

lemma mq_blocks_push_trim:
  assumes "i < length (mq_blocks bq)"
  shows "take i (mq_blocks (push_trim we bq i)) = take i (mq_blocks bq)"
    "drop (Suc i) (mq_blocks (push_trim we bq i)) = drop (Suc i) (mq_blocks bq)"
    "length (mq_blocks (push_trim we bq i)) = length (mq_blocks bq)"
  by (simp_all add: push_trim_def Let_def)

lemma push_trim_item:
  assumes "i < length (mq_blocks bq)" "wi < li_index (mq_blocks bq ! i)"
    "li_index (mq_blocks bq ! i) < we" "we < li_end (mq_blocks bq ! i)"
  shows "after_item wi we (mq_blocks bq ! i) = [mq_blocks (push_trim we bq i) ! i]"
    "li_index (mq_blocks (push_trim we bq i) ! i) = we"
    "li_end (mq_blocks (push_trim we bq i) ! i) = li_end (mq_blocks bq ! i)"
  using assms by (simp_all add: push_trim_def after_item_def Let_def li_end_def)

lemma push_scan_blocks:
  assumes "blocks_ok (mq_blocks bq)" "n \<le> length (mq_blocks bq)" "wi < we"
  shows "mq_blocks (fst (push_scan wi we bq n)) =
      kept_before wi (take n (mq_blocks bq)) @ kept_after wi we (take n (mq_blocks bq)) @
        drop n (mq_blocks bq) \<and>
    snd (push_scan wi we bq n) = length (kept_before wi (take n (mq_blocks bq)))"
  using assms
proof (induction n arbitrary: bq)
  case 0
  then show ?case by simp
next
  case (Suc i)
  let ?xs = "mq_blocks bq"
  define q where "q = ?xs ! i"
  have i: "i < length ?xs" using Suc.prems by simp
  note sp = blocks_ok_split [OF Suc.prems(1) i, folded q_def]
  have tk: "take (Suc i) ?xs = take i ?xs @ [q]" using i by (simp add: take_Suc_nth q_def)
  have dr: "drop i ?xs = q # drop (Suc i) ?xs" using i by (simp add: Cons_nth_drop_Suc q_def)
  note w = \<open>wi < we\<close>
  consider (left) "li_end q \<le> wi" | (right) "wi < li_end q" "we \<le> li_index q"
    | (inside) "wi < li_end q" "li_index q < we" "wi \<le> li_index q" "li_end q \<le> we"
    | (cut) "wi < li_end q" "li_index q < we" "li_index q \<le> wi" "\<not> (wi \<le> li_index q \<and> li_end q \<le> we)"
    | (trim) "wi < li_index q" "li_index q < we" "we < li_end q"
    by linarith
  then show ?case
  proof cases
    case left
    then have "\<forall>a \<in> set (take (Suc i) ?xs). li_end a \<le> wi \<and> li_index a < li_end a"
      using sp(3,4) unfolding tk by fastforce
    then show ?thesis
      using left i kept_left [OF _ w, of "take (Suc i) ?xs"] by (simp add: Let_def q_def)
  next
    case right
    then have "before_item wi q = []" "after_item wi we q = [q]"
      using w by (simp_all add: before_item_def after_item_def)
    then show ?thesis
      using right w i Suc.IH [OF Suc.prems(1)] unfolding tk by (simp add: Let_def dr flip: q_def)
  next
    case inside
    let ?bq = "drop_block bq i"
    have b: "blocks_ok (mq_blocks ?bq)"
      using sp by (simp add: blocks_ok_append)
    have "before_item wi q = []" "after_item wi we q = []"
      using inside by (simp_all add: before_item_def after_item_def)
    then show ?thesis
      using inside w i Suc.IH [OF b] unfolding tk by (simp add: Let_def flip: q_def)
  next
    case cut
    then have "\<forall>a \<in> set (take i ?xs). li_end a \<le> wi \<and> li_index a < li_end a"
      using sp(4) by fastforce
    note kl = kept_left [OF this w]
    from push_cut_blocks [OF Suc.prems(1) i w q_def cut(3,1)] show ?thesis
      using cut kl i unfolding tk by (auto simp: Let_def simp flip: q_def)
  next
    case trim
    let ?bq = "push_trim we bq i"
    note pt = push_trim_item [OF i, folded q_def, OF trim]
    have ys: "mq_blocks ?bq = take i ?xs @ mq_blocks ?bq ! i # drop (Suc i) ?xs"
      using take_nth_drop [of i "mq_blocks ?bq"] mq_blocks_push_trim [OF i, of we] i by simp
    have b: "blocks_ok (mq_blocks ?bq)"
      using sp pt trim by (subst ys) (fastforce simp: blocks_ok_append blocks_ok_Cons)
    have "before_item wi q = []" using trim w by (simp add: before_item_def)
    moreover have "drop i (mq_blocks ?bq) = after_item wi we q @ drop (Suc i) ?xs"
      using ys i pt(1) by (metis append_Cons append_Nil append_eq_conv_conj length_take
          less_imp_le_nat min.absorb2)
    ultimately show ?thesis
      using trim w i Suc.IH [OF b] mq_blocks_push_trim [OF i, of we] unfolding tk
      by (simp add: Let_def flip: q_def)
  qed
qed

lemma push_advance_bounds:
  assumes "i < length xs"
  shows "push_advance xs we i < length xs \<and>
    (Suc (push_advance xs we i) < length xs \<longrightarrow> we \<le> li_index (xs ! push_advance xs we i))"
  using assms
proof (induction xs we i rule: push_advance.induct)
  case (1 xs we i)
  then show ?case by (auto simp: push_advance.simps [of xs we i])
qed

definition cursors_ok :: "pa_memblockq \<Rightarrow> bool" where
  "cursors_ok bq \<longleftrightarrow>
     (\<forall>i. mq_current_read bq = Some i \<longrightarrow> i < length (mq_blocks bq)) \<and>
     (\<forall>i. mq_current_write bq = Some i \<longrightarrow> i < length (mq_blocks bq))"

lemma push_start_bounds:
  assumes ok: "blocks_ok (mq_blocks bq)" and c: "cursors_ok bq"
  shows "push_start bq we \<le> length (mq_blocks bq)"
    and "\<forall>b \<in> set (drop (push_start bq we) (mq_blocks bq)). we \<le> li_index b \<and> li_index b < li_end b"
proof -
  let ?xs = "mq_blocks bq"
  show "push_start bq we \<le> length ?xs"
    using c push_advance_bounds [of _ ?xs we]
    by (auto simp: push_start_def cursors_ok_def Suc_le_eq split: option.splits)
  show "\<forall>b \<in> set (drop (push_start bq we) ?xs). we \<le> li_index b \<and> li_index b < li_end b"
  proof
    fix b assume b: "b \<in> set (drop (push_start bq we) ?xs)"
    then obtain k where k: "push_start bq we \<le> k" "k < length ?xs" "b = ?xs ! k"
      by (auto simp: in_set_conv_nth) (metis add.commute le_add1 less_diff_conv)
    then obtain i where i: "mq_current_write bq = Some i"
      by (auto simp: push_start_def split: option.splits)
    let ?j = "push_advance ?xs we i"
    have il: "i < length ?xs" using c i by (simp add: cursors_ok_def)
    have j: "?j < k" using k i by (simp add: push_start_def)
    then have "we \<le> li_index (?xs ! ?j)"
      using push_advance_bounds [OF il, of we] k by auto
    also have "\<dots> < li_end (?xs ! ?j)" using ok j k by (intro blocks_ok_nth) auto
    also have "\<dots> \<le> li_index b" using blocks_ok_nth_mono [OF ok j k(2)] k by simp
    finally show "we \<le> li_index b \<and> li_index b < li_end b"
      using blocks_ok_nth [OF ok k(2)] k by simp
  qed
qed

lemma push_scan_start:
  assumes ok: "blocks_ok (mq_blocks bq)" and c: "cursors_ok bq" and w: "wi < we"
  shows "mq_blocks (fst (push_scan wi we bq (push_start bq we))) =
      kept_before wi (mq_blocks bq) @ kept_after wi we (mq_blocks bq)"
    and "snd (push_scan wi we bq (push_start bq we)) = length (kept_before wi (mq_blocks bq))"
proof -
  let ?xs = "mq_blocks bq" and ?n = "push_start bq we"
  note b = push_start_bounds [OF ok c, of we]
  note r = kept_right [OF b(2) w]
  have "kept_before wi ?xs = kept_before wi (take ?n ?xs) @ kept_before wi (drop ?n ?xs)"
    "kept_after wi we ?xs = kept_after wi we (take ?n ?xs) @ kept_after wi we (drop ?n ?xs)"
    using kept_append [of wi] by (metis append_take_drop_id)+
  with push_scan_blocks [OF ok b(1) w] r show
    "mq_blocks (fst (push_scan wi we bq ?n)) = kept_before wi ?xs @ kept_after wi we ?xs"
    "snd (push_scan wi we bq ?n) = length (kept_before wi ?xs)"
    by simp_all
qed

lemma kept_ends:
  assumes "wi < we"
  shows "\<forall>a \<in> set (kept_before wi xs). li_end a \<le> wi"
    and "\<forall>b \<in> set (kept_after wi we xs). we \<le> li_index b"
  using assms
  by (auto simp: kept_before_def kept_after_def before_item_def after_item_def Let_def li_end_def
      split: if_splits)

lemma before_item_within:
  "a \<in> set (before_item wi q) \<Longrightarrow> li_index q < li_end q \<Longrightarrow>
     li_index a = li_index q \<and> li_index a < li_end a \<and> li_end a \<le> li_end q"
  by (auto simp: before_item_def li_end_def split: if_splits)

lemma after_item_within:
  "b \<in> set (after_item wi we q) \<Longrightarrow> li_index q < li_end q \<Longrightarrow>
     li_index q \<le> li_index b \<and> li_index b < li_end b \<and> li_end b = li_end q"
  by (auto simp: after_item_def li_end_def Let_def split: if_splits)

lemma blocks_ok_concat_map:
  assumes "blocks_ok xs"
    and "\<And>q a. q \<in> set xs \<Longrightarrow> a \<in> set (f q) \<Longrightarrow>
      li_index q \<le> li_index a \<and> li_index a < li_end a \<and> li_end a \<le> li_end q"
    and "\<And>q. length (f q) \<le> 1"
  shows "blocks_ok (concat (map f xs))"
  using assms
proof (induction xs)
  case Nil
  then show ?case by simp
next
  case (Cons q xs)
  have IH: "blocks_ok (concat (map f xs))"
    using Cons.prems(1) by (intro Cons.IH Cons.prems(2,3)) (auto simp: blocks_ok_Cons)
  have one: "f q = [] \<or> (\<exists>a. f q = [a])"
    using Cons.prems(3) [of q] by (cases "f q") auto
  have "li_end a \<le> li_index b" if "a \<in> set (f q)" "r \<in> set xs" "b \<in> set (f r)" for a r b
    using Cons.prems(2) [of q a] Cons.prems(2) [of r b] that Cons.prems(1)
    by (fastforce simp: blocks_ok_Cons)
  with IH one Cons.prems(2) [of q] show ?case
    by (auto simp: blocks_ok_Cons)
qed

lemma blocks_ok_kept:
  assumes ok: "blocks_ok xs" and w: "wi < we"
  shows "blocks_ok (kept_before wi xs)" "blocks_ok (kept_after wi we xs)"
proof -
  have pos: "\<And>q. q \<in> set xs \<Longrightarrow> li_index q < li_end q" using ok by (simp add: blocks_ok_def)
  show "blocks_ok (kept_before wi xs)"
    unfolding kept_before_def using ok
  proof (rule blocks_ok_concat_map)
    show "li_index q \<le> li_index a \<and> li_index a < li_end a \<and> li_end a \<le> li_end q"
      if "q \<in> set xs" "a \<in> set (before_item wi q)" for q a
      using before_item_within [OF that(2) pos [OF that(1)]] by simp
  qed (simp add: before_item_def)
  show "blocks_ok (kept_after wi we xs)"
    unfolding kept_after_def using ok
  proof (rule blocks_ok_concat_map)
    show "li_index q \<le> li_index a \<and> li_index a < li_end a \<and> li_end a \<le> li_end q"
      if "q \<in> set xs" "a \<in> set (after_item wi we q)" for q a
      using after_item_within [OF that(2) pos [OF that(1)]] by simp
  qed (simp add: after_item_def Let_def)
qed

subsection \<open>What the loops of push leave alone\<close>

definition mq_params :: "pa_memblockq \<Rightarrow> (nat \<times> nat \<times> nat \<times> nat \<times> nat \<times> nat) \<times> (int \<times> int \<times> bool) \<times>
    pa_memchunk \<times> pa_mcalign \<times> (int \<times> int) \<times> (nat \<Rightarrow> bytes) \<times> nat" where
  "mq_params bq =
     ((mq_maxlength bq, mq_tlength bq, mq_base bq, mq_prebuf bq, mq_minreq bq, mq_maxrewind bq),
      (mq_read_index bq, mq_write_index bq, mq_in_prebuf bq), mq_silence bq, mq_mcalign bq,
      (mq_missing bq, mq_requested bq), mp_data (mq_pool bq), mp_next (mq_pool bq))"

text \<open>References to a block that are not held by an item of the queue.\<close>

definition item_refs :: "nat \<Rightarrow> list_item \<Rightarrow> int" where
  "item_refs b q = (if ch_memblock (li_chunk q) = Some b then 1 else 0)"

definition foreign_refs :: "pa_memblockq \<Rightarrow> nat \<Rightarrow> int" where
  "foreign_refs bq b = mp_refs (mq_pool bq) b - (\<Sum>q\<leftarrow>mq_blocks bq. item_refs b q)"

text \<open>The bookkeeping every list operation keeps: item count, cursors, references.\<close>

definition book_ok :: "(nat \<Rightarrow> int) \<Rightarrow> pa_memblockq \<Rightarrow> bool" where
  "book_ok f bq \<longleftrightarrow> cursors_ok bq \<and> mq_n_blocks bq = length (mq_blocks bq) \<and> foreign_refs bq = f"

lemma unref_chunk_simps [simp]:
  "mp_data (unref_chunk p c) = mp_data p" "mp_next (unref_chunk p c) = mp_next p"
  "mp_data (ref_chunk p c) = mp_data p" "mp_next (ref_chunk p c) = mp_next p"
  by (simp_all add: unref_chunk_def ref_chunk_def split: option.splits)

lemma mp_refs_unref_chunk:
  "mp_refs (unref_chunk p (li_chunk q)) b = mp_refs p b - item_refs b q"
  "mp_refs (ref_chunk p (li_chunk q)) b = mp_refs p b + item_refs b q"
  by (auto simp: item_refs_def unref_chunk_def ref_chunk_def pa_memblock_ref_def
      pa_memblock_unref_def split: option.splits)

lemma sum_list_map_nth:
  fixes f :: "'a \<Rightarrow> int"
  assumes "i < length xs"
  shows "sum_list (map f xs) =
    sum_list (map f (take i xs)) + f (xs ! i) + sum_list (map f (drop (Suc i) xs))"
proof -
  have "sum_list (map f xs) = sum_list (map f (take i xs @ xs ! i # drop (Suc i) xs))"
    using assms by (simp add: take_nth_drop)
  then show ?thesis by simp
qed

lemma sum_list_map_take_drop:
  fixes f :: "'a \<Rightarrow> int"
  shows "sum_list (map f xs) = sum_list (map f (take j xs)) + sum_list (map f (drop j xs))"
  by (metis append_take_drop_id map_append sum_list_append)

lemma book_ok_frame [simp]:
  "book_ok f (bq\<lparr>mq_write_index := v0\<rparr>) = book_ok f bq"
  "book_ok f (bq\<lparr>mq_read_index := v1\<rparr>) = book_ok f bq"
  "book_ok f (bq\<lparr>mq_requested := v2\<rparr>) = book_ok f bq"
  "book_ok f (bq\<lparr>mq_missing := v3\<rparr>) = book_ok f bq"
  "book_ok f (bq\<lparr>mq_in_prebuf := v4\<rparr>) = book_ok f bq"
  "book_ok f (bq\<lparr>mq_prebuf := v5\<rparr>) = book_ok f bq"
  "book_ok f (bq\<lparr>mq_minreq := v6\<rparr>) = book_ok f bq"
  "book_ok f (bq\<lparr>mq_tlength := v7\<rparr>) = book_ok f bq"
  "book_ok f (bq\<lparr>mq_maxlength := v8\<rparr>) = book_ok f bq"
  "book_ok f (bq\<lparr>mq_maxrewind := v9\<rparr>) = book_ok f bq"
  "book_ok f (bq\<lparr>mq_silence := v10\<rparr>) = book_ok f bq"
  by (simp_all add: book_ok_def cursors_ok_def foreign_refs_def fun_eq_iff)

lemma book_ok_drop_block:
  assumes "book_ok f bq" "i < length (mq_blocks bq)"
  shows "book_ok f (drop_block bq i)"
proof -
  have "foreign_refs (drop_block bq i) = foreign_refs bq"
    by (simp add: foreign_refs_def drop_block_def mp_refs_unref_chunk fun_eq_iff
        sum_list_map_nth [OF assms(2)])
  moreover have "cursors_ok (drop_block bq i)"
    using assms by (auto simp: book_ok_def cursors_ok_def drop_block_def split: option.splits if_splits)
  moreover have "mq_n_blocks (drop_block bq i) = length (mq_blocks (drop_block bq i))"
    using assms by (simp add: book_ok_def drop_block_def)
  ultimately show ?thesis using assms(1) by (simp add: book_ok_def)
qed

lemma book_ok_insert_block:
  assumes "book_ok f bq" "j \<le> length (mq_blocks bq)"
  shows "book_ok f (insert_block bq j n)"
proof -
  have "foreign_refs (insert_block bq j n) = foreign_refs bq"
    using sum_list_map_take_drop [of _ "mq_blocks bq" j]
    by (simp add: foreign_refs_def insert_block_def mp_refs_unref_chunk [of _ n] fun_eq_iff)
  moreover have "cursors_ok (insert_block bq j n)"
    using assms by (auto simp: book_ok_def cursors_ok_def insert_block_def)
  moreover have "mq_n_blocks (insert_block bq j n) = length (mq_blocks (insert_block bq j n))"
    using assms by (simp add: book_ok_def insert_block_def)
  ultimately show ?thesis using assms(1) by (simp add: book_ok_def)
qed

lemma book_ok_update:
  assumes "book_ok f bq" "i < length (mq_blocks bq)"
    and "ch_memblock (li_chunk q) = ch_memblock (li_chunk (mq_blocks bq ! i))"
  shows "book_ok f (bq\<lparr>mq_blocks := (mq_blocks bq)[i := q]\<rparr>)"
proof -
  have "item_refs b q = item_refs b (mq_blocks bq ! i)" for b
    using assms(3) by (simp add: item_refs_def)
  then have "(\<Sum>q\<leftarrow>(mq_blocks bq)[i := q]. item_refs b q) = (\<Sum>q\<leftarrow>mq_blocks bq. item_refs b q)" for b
    using assms(2) sum_list_map_nth [OF assms(2), of "item_refs b"]
    by (simp add: upd_conv_take_nth_drop)
  then show ?thesis
    using assms by (simp add: book_ok_def cursors_ok_def foreign_refs_def fun_eq_iff)
qed

lemma push_cut_book:
  assumes "book_ok f bq" "i < length (mq_blocks bq)"
  shows "book_ok f (fst (push_cut wi we bq i)) \<and> mq_params (fst (push_cut wi we bq i)) = mq_params bq"
proof -
  let ?q = "mq_blocks bq ! i"
  define p where "p = ?q\<lparr>li_index := li_index ?q + int (nat (we - li_index ?q)),
    li_chunk := (li_chunk ?q)\<lparr>ch_length := ch_length (li_chunk ?q) - nat (we - li_index ?q)\<rparr>\<rparr>"
  define b1 where "b1 = (if we < li_end ?q then insert_block bq (Suc i) p else bq)"
  define y where "y = ?q\<lparr>li_chunk := (li_chunk ?q)\<lparr>ch_length := nat (wi - li_index ?q)\<rparr>\<rparr>"
  define b2 where "b2 = b1\<lparr>mq_blocks := (mq_blocks b1)[i := y]\<rparr>"
  have b1: "book_ok f b1" using assms book_ok_insert_block by (simp add: b1_def)
  have i1: "i < length (mq_blocks b1)" "mq_blocks b1 ! i = ?q"
    using assms(2) by (auto simp: b1_def nth_append)
  have b2: "book_ok f b2"
    unfolding b2_def using b1 i1 by (intro book_ok_update) (simp_all add: y_def)
  have pr: "mq_params b2 = mq_params bq"
    by (simp add: b2_def b1_def mq_params_def insert_block_def)
  have eq: "push_cut wi we bq i = (if nat (wi - li_index ?q) = 0 then (drop_block b2 i, i) else (b2, Suc i))"
    by (simp add: push_cut_def Let_def p_def b1_def y_def b2_def)
  have d: "mq_params (drop_block b2 i) = mq_params b2"
    by (simp add: mq_params_def drop_block_def)
  show ?thesis
    using b2 pr d i1 book_ok_drop_block [OF b2, of i] by (simp add: eq b2_def)
qed

lemma push_trim_book:
  assumes "book_ok f bq" "i < length (mq_blocks bq)"
  shows "book_ok f (push_trim we bq i) \<and> mq_params (push_trim we bq i) = mq_params bq"
  unfolding push_trim_def Let_def
  using assms by (intro conjI book_ok_update) (simp_all add: mq_params_def)

lemma push_scan_book:
  assumes "book_ok f bq" "n \<le> length (mq_blocks bq)"
  shows "book_ok f (fst (push_scan wi we bq n)) \<and> mq_params (fst (push_scan wi we bq n)) = mq_params bq"
  using assms
proof (induction n arbitrary: bq)
  case 0
  then show ?case by simp
next
  case (Suc i)
  then have i: "i < length (mq_blocks bq)" by simp
  have d: "book_ok f (drop_block bq i)" "mq_params (drop_block bq i) = mq_params bq"
    using book_ok_drop_block [OF Suc.prems(1) i] by (simp_all add: mq_params_def drop_block_def)
  have t: "book_ok f (push_trim we bq i)" "mq_params (push_trim we bq i) = mq_params bq"
    using push_trim_book [OF Suc.prems(1) i] by blast+
  have il: "i \<le> length (mq_blocks bq)" "i \<le> length (mq_blocks (drop_block bq i))"
    "i \<le> length (mq_blocks (push_trim we bq i))"
    using i mq_blocks_push_trim(3) [OF i] by simp_all
  show ?case
    using Suc.prems(1) push_cut_book [OF Suc.prems(1) i, of wi we]
      Suc.IH [OF Suc.prems(1) il(1)] Suc.IH [OF d(1) il(2)] Suc.IH [OF t(1) il(3)] d(2) t(2)
    by (simp add: Let_def)
qed

lemma scan_write_right_less: "i < length xs \<Longrightarrow> scan_write_right xs wi i < length xs"
proof (induction xs wi i rule: scan_write_right.induct)
  case (1 xs wi i)
  then show ?case by (auto simp: scan_write_right.simps [of xs wi i])
qed

lemma scan_write_left_le: "scan_write_left xs wi i = Some j \<Longrightarrow> j \<le> i"
  by (induction xs wi i rule: scan_write_left.induct) (auto split: if_splits)

lemma fix_current_write_frame [simp]:
  "mq_blocks (fix_current_write bq) = mq_blocks bq"
  "mq_params (fix_current_write bq) = mq_params bq"
  "foreign_refs (fix_current_write bq) = foreign_refs bq"
  "mq_n_blocks (fix_current_write bq) = mq_n_blocks bq"
  "mq_current_read (fix_current_write bq) = mq_current_read bq"
  by (simp_all add: fix_current_write_def Let_def mq_params_def foreign_refs_def fun_eq_iff)

lemma fix_current_write_book:
  assumes "book_ok f bq"
  shows "book_ok f (fix_current_write bq)"
proof -
  have "j < length (mq_blocks bq)" if "mq_current_write (fix_current_write bq) = Some j" for j
  proof -
    let ?i = "case mq_current_write bq of None \<Rightarrow> length (mq_blocks bq) - 1 | Some i \<Rightarrow> i"
    from that have ne: "mq_blocks bq \<noteq> []"
      and j: "scan_write_left (mq_blocks bq) (mq_write_index bq)
        (scan_write_right (mq_blocks bq) (mq_write_index bq) ?i) = Some j"
      by (auto simp: fix_current_write_def Let_def split: if_splits)
    have "?i < length (mq_blocks bq)"
      using assms ne by (auto simp: book_ok_def cursors_ok_def split: option.splits)
    with scan_write_left_le [OF j] scan_write_right_less show ?thesis
      using le_less_trans by blast
  qed
  with assms show ?thesis by (simp add: book_ok_def cursors_ok_def)
qed

subsection \<open>The list after a push\<close>

definition merges :: "int \<Rightarrow> pa_memchunk \<Rightarrow> list_item \<Rightarrow> bool" where
  "merges wi c q \<longleftrightarrow> ch_memblock (li_chunk q) = ch_memblock c \<and>
     ch_index (li_chunk q) + ch_length (li_chunk q) = ch_index c \<and> wi = li_end q"

definition grow :: "pa_memchunk \<Rightarrow> list_item \<Rightarrow> list_item" where
  "grow c q = q\<lparr>li_chunk := (li_chunk q)\<lparr>ch_length := ch_length (li_chunk q) + ch_length c\<rparr>\<rparr>"

definition pushed :: "int \<Rightarrow> pa_memchunk \<Rightarrow> list_item list \<Rightarrow> list_item list" where
  "pushed wi c xs =
     (let ys = kept_before wi xs; zs = kept_after wi (wi + int (ch_length c)) xs
      in if ys \<noteq> [] \<and> merges wi c (last ys) then butlast ys @ grow c (last ys) # zs
         else ys @ \<lparr>li_index = wi, li_chunk = c\<rparr> # zs)"

lemma push_link_spec:
  assumes bk: "book_ok f bq" and xs: "mq_blocks bq = ys @ zs" and q: "q = length ys"
    and wi: "wi = mq_write_index bq" and len: "0 < ch_length c"
    and ly: "\<forall>a \<in> set ys. li_end a \<le> wi"
    and lz: "\<forall>b \<in> set zs. wi + int (ch_length c) \<le> li_index b"
  shows "\<exists>bq'. push_link bq q c = Some bq' \<and> book_ok f bq' \<and>
    mq_params bq' = mq_params (bq\<lparr>mq_write_index := wi + int (ch_length c)\<rparr>) \<and>
    mq_blocks bq' =
      (if ys \<noteq> [] \<and> merges wi c (last ys) then butlast ys @ grow c (last ys) # zs
       else ys @ \<lparr>li_index = wi, li_chunk = c\<rparr> # zs)"
proof (cases ys rule: rev_cases)
  case Nil
  let ?n = "\<lparr>li_index = wi, li_chunk = c\<rparr>"
  have "xs = [] \<or> wi + int (ch_length c) \<le> li_index (xs ! 0)" if "xs = zs" for xs
    using lz that by (cases zs) auto
  with Nil xs q wi have "push_link bq q c =
      Some ((insert_block bq 0 ?n)\<lparr>mq_write_index := wi + int (ch_length c)\<rparr>)"
    by (simp add: push_link_def Let_def)
  moreover have "book_ok f (insert_block bq 0 ?n)"
    using bk by (rule book_ok_insert_block) simp
  ultimately show ?thesis
    using Nil xs by (simp add: mq_params_def) (simp add: insert_block_def)
next
  case (snoc ys' y)
  let ?i = "length ys'" and ?n = "\<lparr>li_index = wi, li_chunk = c\<rparr>"
  let ?we = "wi + int (ch_length c)"
  have nth: "mq_blocks bq ! ?i = y" "?i < length (mq_blocks bq)" using snoc xs by auto
  have a1: "li_end y \<le> wi" using ly snoc by simp
  have a2: "\<not> Suc ?i < length (mq_blocks bq) \<or> ?we \<le> li_index (mq_blocks bq ! Suc ?i)"
    using lz snoc xs by (cases zs) (auto simp: nth_append)
  have link: "push_link bq q c = Some
      (if merges wi c y
       then bq\<lparr>mq_blocks := (mq_blocks bq)[?i := grow c y], mq_write_index := ?we\<rparr>
       else (insert_block bq (Suc ?i) ?n)\<lparr>mq_write_index := ?we\<rparr>)"
    using a1 a2 nth snoc q wi by (simp add: push_link_def Let_def merges_def grow_def)
  have b1: "book_ok f (bq\<lparr>mq_blocks := (mq_blocks bq)[?i := grow c y]\<rparr>)"
    using bk nth by (intro book_ok_update) (simp_all add: grow_def)
  have b2: "book_ok f (insert_block bq (Suc ?i) ?n)"
    using bk nth by (intro book_ok_insert_block) simp_all
  show ?thesis
    using b1 b2 snoc xs
    by (simp add: link mq_params_def list_update_append) (simp add: insert_block_def)
qed

lemma push_spec:
  assumes ok: "blocks_ok (mq_blocks bq)" and bk: "book_ok f bq"
    and c: "ch_memblock c = Some b" "0 < ch_length c"
      "ch_index c + ch_length c \<le> length (mp_data (mq_pool bq) b)"
      "mq_base bq dvd ch_length c" "mq_base bq dvd ch_index c"
    and room: "can_push bq (ch_length c)"
  shows "\<exists>bq'. pa_memblockq_push bq c = Some (bq', 0) \<and> book_ok f bq' \<and>
    mq_blocks bq' = pushed (mq_write_index bq) c (mq_blocks bq) \<and>
    mq_params bq' = mq_params (bq\<lparr>mq_write_index := mq_write_index bq + int (ch_length c),
      mq_requested := mq_requested bq - int (ch_length c)\<rparr>)"
proof -
  let ?wi = "mq_write_index bq" and ?xs = "mq_blocks bq"
  let ?we = "?wi + int (ch_length c)"
  let ?b1 = "fix_current_write bq"
  define r where "r = push_scan ?wi ?we ?b1 (push_start ?b1 ?we)"
  have w: "?wi < ?we" using c by simp
  have bk1: "book_ok f ?b1" using bk by (rule fix_current_write_book)
  have ok1: "blocks_ok (mq_blocks ?b1)" "cursors_ok ?b1" using ok bk1 by (simp_all add: book_ok_def)
  note sc = push_scan_start [OF ok1 w, folded r_def, simplified]
  have bk2: "book_ok f (fst r)" "mq_params (fst r) = mq_params bq"
    using push_scan_book [OF bk1 push_start_bounds(1) [OF ok1], of ?wi ?we ?we] by (simp_all add: r_def)
  have wi2: "?wi = mq_write_index (fst r)" using bk2(2) by (simp add: mq_params_def)
  obtain b3 where b3: "push_link (fst r) (snd r) c = Some b3" "book_ok f b3"
    "mq_params b3 = mq_params ((fst r)\<lparr>mq_write_index := ?we\<rparr>)"
    "mq_blocks b3 = pushed ?wi c ?xs"
    using push_link_spec [OF bk2(1) sc wi2 c(2) kept_ends [OF w]] by (auto simp: pushed_def Let_def)
  have "pa_memblockq_push bq c = Some (write_index_changed b3 ?wi True, 0)"
    using c room b3(1)
    by (simp add: pa_memblockq_push_def Let_def case_prod_beta r_def pa_memblock_get_length_def
        dvd_imp_mod_0)
  moreover have "book_ok f (write_index_changed b3 ?wi True)"
    "mq_blocks (write_index_changed b3 ?wi True) = pushed ?wi c ?xs"
    using b3(2,4)
    by (simp_all add: write_index_changed_def Let_def)
  moreover have "mq_params (write_index_changed b3 ?wi True) =
      mq_params (bq\<lparr>mq_write_index := ?we, mq_requested := mq_requested bq - int (ch_length c)\<rparr>)"
    using b3(3) bk2(2) by (simp add: write_index_changed_def Let_def mq_params_def)
  ultimately show ?thesis by blast
qed

end
