(* ===== verification/Byte_Queue.thy ===== *)
theory Byte_Queue
  imports Prelude
begin

text \<open>
  The contract between a stream client and the queue it uses: pushing a chunk appends its
  bytes or refuses it when the capacity would be exceeded, peeking shows a prefix of the pending
  bytes, dropping removes bytes from the front. \<open>module-iwab-input\<close> is the client,
  \<open>memblockq.c\<close> the provider.
\<close>

locale byte_queue =
  fixes inv :: "'q \<Rightarrow> bool"
    and pending :: "'q \<Rightarrow> bytes"
    and capacity :: "'q \<Rightarrow> nat"
    and ready :: "'q \<Rightarrow> bool"
    and frame :: "'q \<Rightarrow> nat"
    and fits :: "'q \<Rightarrow> 'c \<Rightarrow> bool"
    and cbytes :: "'q \<Rightarrow> 'c \<Rightarrow> bytes"
    and push :: "'q \<Rightarrow> 'c \<Rightarrow> ('q \<times> int) option"
    and peek :: "'q \<Rightarrow> 'q \<times> 'c option"
    and discard :: "'q \<Rightarrow> nat \<Rightarrow> 'q option"
  assumes push_room: "inv q \<Longrightarrow> fits q c \<Longrightarrow>
      length (pending q) + length (cbytes q c) \<le> capacity q \<Longrightarrow>
      \<exists>q'. push q c = Some (q', 0) \<and> inv q' \<and> pending q' = pending q @ cbytes q c \<and>
        capacity q' = capacity q \<and> fits q' = fits q \<and> cbytes q' = cbytes q"
    and push_full: "inv q \<Longrightarrow> fits q c \<Longrightarrow>
      capacity q < length (pending q) + length (cbytes q c) \<Longrightarrow> push q c = Some (q, - 1)"
    and peek_front: "inv q \<Longrightarrow> ready q \<Longrightarrow> pending q \<noteq> [] \<Longrightarrow>
      \<exists>q' c. peek q = (q', Some c) \<and> inv q' \<and> ready q' \<and> pending q' = pending q \<and>
        frame q' dvd length (cbytes q' c) \<and> cbytes q' c \<noteq> [] \<and>
        (\<exists>rest. pending q = cbytes q' c @ rest) \<and> cbytes q' = cbytes q"
    and discard_front: "inv q \<Longrightarrow> ready q \<Longrightarrow> frame q dvd n \<Longrightarrow> 0 < n \<Longrightarrow>
      n \<le> length (pending q) \<Longrightarrow>
      \<exists>q'. discard q n = Some q' \<and> inv q' \<and> pending q' = drop n (pending q) \<and>
        (n < length (pending q) \<longrightarrow> ready q') \<and> cbytes q' = cbytes q"
begin

text \<open>Whatever the fill level, a well-formed chunk is appended whole or not at all.\<close>

lemma push_total:
  assumes "inv q" "fits q c"
  shows "\<exists>q' r. push q c = Some (q', r) \<and> inv q' \<and> capacity q' = capacity q \<and> fits q' = fits q \<and>
    cbytes q' = cbytes q \<and>
    (if length (pending q) + length (cbytes q c) \<le> capacity q
     then r = 0 \<and> pending q' = pending q @ cbytes q c
     else r = - 1 \<and> q' = q)"
  using push_room [OF assms] push_full [OF assms] assms(1) by (metis linorder_not_le)

text \<open>One round of a reader: peek, then drop what was seen.\<close>

lemma pop_front:
  assumes "inv q" "ready q" "pending q \<noteq> []"
  shows "\<exists>q' c q''. peek q = (q', Some c) \<and> discard q' (length (cbytes q' c)) = Some q'' \<and> inv q'' \<and>
    cbytes q' c \<noteq> [] \<and> pending q = cbytes q' c @ pending q'' \<and> (pending q'' \<noteq> [] \<longrightarrow> ready q'') \<and>
    cbytes q'' = cbytes q \<and> cbytes q' = cbytes q"
proof -
  obtain q' c rest where p: "peek q = (q', Some c)" "inv q'" "ready q'" "pending q' = pending q"
    "frame q' dvd length (cbytes q' c)" "cbytes q' c \<noteq> []" "pending q = cbytes q' c @ rest"
    "cbytes q' = cbytes q"
    using peek_front [OF assms] by blast
  have "0 < length (cbytes q' c)" "length (cbytes q' c) \<le> length (pending q')" using p by simp_all
  then obtain q'' where "discard q' (length (cbytes q' c)) = Some q''" "inv q''"
    "pending q'' = drop (length (cbytes q' c)) (pending q')"
    "length (cbytes q' c) < length (pending q') \<longrightarrow> ready q''" "cbytes q'' = cbytes q'"
    using discard_front [OF p(2,3,5)] by blast
  then show ?thesis using p by auto
qed

end

end
