(* ===== verification/Memblockq_Stream.thy ===== *)
theory Memblockq_Stream
  imports Memblockq_Blocks Byte_Queue
begin

text \<open>
  The stream a queue holds, as a partial function from positions to bytes: what push, peek and
  drop do to it, and the queue of a gapless stream as an instance of the \<open>byte_queue\<close>
  interface.
\<close>

subsection \<open>The stream a queue holds\<close>

definition chunk_byte :: "pa_mempool \<Rightarrow> pa_memchunk \<Rightarrow> nat \<Rightarrow> byte" where
  "chunk_byte p c k = mp_data p (the (ch_memblock c)) ! (ch_index c + k)"

definition item_map :: "pa_mempool \<Rightarrow> list_item \<Rightarrow> int \<rightharpoonup> byte" where
  "item_map p q = (\<lambda>pos. if li_index q \<le> pos \<and> pos < li_end q
     then Some (chunk_byte p (li_chunk q) (nat (pos - li_index q))) else None)"

primrec content :: "pa_mempool \<Rightarrow> list_item list \<Rightarrow> int \<rightharpoonup> byte" where
  "content p [] = Map.empty"
| "content p (q # xs) = item_map p q ++ content p xs"

lemma content_append: "content p (xs @ ys) = content p xs ++ content p ys"
  by (induction xs) simp_all

lemma restrict_map_add: "(m ++ n) |` A = m |` A ++ n |` A"
  by (rule ext) (simp add: restrict_map_def map_add_def)

lemma item_map_before: "content p (before_item wi q) = item_map p q |` {..<wi}"
  by (auto simp: before_item_def item_map_def restrict_map_def li_end_def chunk_byte_def fun_eq_iff)

lemma item_map_after:
  assumes "\<not> (li_index q \<le> wi \<and> we < li_end q)" "wi < we"
  shows "content p (after_item wi we q) = item_map p q |` {we..}"
proof -
  have *: "nat (we - i) + nat (pos - we) = nat (pos - i)" if "i < we" "we \<le> pos" for i pos :: int
    using that by linarith
  show ?thesis
    using assms
    by (auto simp: after_item_def Let_def item_map_def restrict_map_def li_end_def chunk_byte_def
        fun_eq_iff * add.assoc)
qed

lemma content_before: "content p (kept_before wi xs) = content p xs |` {..<wi}"
  by (induction xs) (simp_all add: kept_Cons content_append item_map_before restrict_map_add)

lemma content_after:
  assumes "\<forall>q \<in> set xs. \<not> (li_index q \<le> wi \<and> we < li_end q)" "wi < we"
  shows "content p (kept_after wi we xs) = content p xs |` {we..}"
  using assms
  by (induction xs) (simp_all add: kept_Cons content_append item_map_after restrict_map_add)

lemma dom_content: "dom (content p xs) = (\<Union>q \<in> set xs. {li_index q..<li_end q})"
  by (induction xs) (auto simp: item_map_def dom_def map_add_Some_iff split: if_splits)

lemma dom_content_after:
  assumes "wi < we" "blocks_ok xs"
  shows "dom (content p (kept_after wi we xs)) = dom (content p xs) \<inter> {we..}"
proof -
  have "(\<Union>a \<in> set (after_item wi we q). {li_index a..<li_end a}) = {li_index q..<li_end q} \<inter> {we..}"
    for q
    using assms(1) by (auto simp: after_item_def Let_def li_end_def)
  then show ?thesis by (auto simp: dom_content kept_after_def)
qed

lemma item_map_grow:
  assumes "merges wi c q" "0 < ch_length (li_chunk q)"
  shows "item_map p (grow c q) = item_map p q ++ item_map p \<lparr>li_index = wi, li_chunk = c\<rparr>"
  using assms
  by (auto simp: merges_def grow_def item_map_def li_end_def chunk_byte_def map_add_def fun_eq_iff
      nat_diff_distrib' intro!: arg_cong [where f = "\<lambda>k. _ ! k"])

lemma content_pushed_parts:
  fixes c :: pa_memchunk and wi :: int
  defines "we \<equiv> wi + int (ch_length c)"
  assumes "blocks_ok xs" "0 < ch_length c"
  shows "content p (pushed wi c xs) = content p (kept_before wi xs) ++
    item_map p \<lparr>li_index = wi, li_chunk = c\<rparr> ++ content p (kept_after wi we xs)"
proof -
  let ?ys = "kept_before wi xs" and ?zs = "kept_after wi we xs"
  show ?thesis
  proof (cases "?ys \<noteq> [] \<and> merges wi c (last ?ys)")
    case True
    have "last ?ys \<in> set ?ys" using True by simp
    then have "0 < ch_length (li_chunk (last ?ys))"
      using blocks_ok_kept(1) [OF assms(2), of wi "wi + 1"]
      by (fastforce simp: blocks_ok_def li_end_def)
    then have "item_map p (grow c (last ?ys)) =
        item_map p (last ?ys) ++ item_map p \<lparr>li_index = wi, li_chunk = c\<rparr>"
      using True item_map_grow by blast
    moreover have "content p ?ys = content p (butlast ?ys) ++ item_map p (last ?ys)"
      using True content_append [of p "butlast ?ys" "[last ?ys]"] by simp
    ultimately show ?thesis
      using True by (simp add: pushed_def Let_def content_append map_add_assoc we_def)
  next
    case False
    then show ?thesis
      by (auto simp: pushed_def Let_def content_append map_add_assoc we_def)
  qed
qed

definition overwrite :: "(int \<rightharpoonup> byte) \<Rightarrow> int \<Rightarrow> bytes \<Rightarrow> (int \<rightharpoonup> byte)" where
  "overwrite m at bs =
     (\<lambda>pos. if at \<le> pos \<and> pos < at + int (length bs) then Some (bs ! nat (pos - at)) else m pos)"

lemma chunk_bytes_nth:
  "chunk_ok p c \<Longrightarrow> k < ch_length c \<Longrightarrow> chunk_bytes p c ! k = chunk_byte p c k"
  by (auto simp: chunk_ok_def chunk_bytes_def chunk_byte_def split: option.splits)

lemma content_pushed:
  assumes ok: "blocks_ok xs" and c: "chunk_ok p c" "0 < ch_length c"
    and ns: "\<forall>q \<in> set xs. \<not> (li_index q \<le> wi \<and> wi + int (ch_length c) < li_end q)"
  shows "content p (pushed wi c xs) = overwrite (content p xs) wi (chunk_bytes p c)"
proof -
  let ?we = "wi + int (ch_length c)"
  have w: "wi < ?we" using c by simp
  have "content p (pushed wi c xs) = content p xs |` {..<wi} ++
      item_map p \<lparr>li_index = wi, li_chunk = c\<rparr> ++ content p xs |` {?we..}"
    using content_pushed_parts [OF ok c(2)] content_after [OF ns w] content_before by simp
  also have "\<dots> = overwrite (content p xs) wi (chunk_bytes p c)"
    using c
    by (auto simp: fun_eq_iff overwrite_def map_add_def restrict_map_def item_map_def li_end_def
        length_chunk_bytes chunk_bytes_nth split: option.splits)
  finally show ?thesis .
qed

lemma blocks_ok_pushed:
  assumes ok: "blocks_ok xs" and c: "0 < ch_length c"
  shows "blocks_ok (pushed wi c xs)"
proof -
  let ?we = "wi + int (ch_length c)"
  have w: "wi < ?we" using c by simp
  note k = blocks_ok_kept [OF ok w] and e = kept_ends [OF w, of xs]
  let ?ys = "kept_before wi xs"
  show ?thesis
  proof (cases "?ys \<noteq> [] \<and> merges wi c (last ?ys)")
    case True
    then obtain ys' y where y: "?ys = ys' @ [y]" by (metis append_butlast_last_id)
    have g: "li_index (grow c y) = li_index y" "li_end (grow c y) = ?we"
      using True y by (simp_all add: grow_def li_end_def merges_def)
    show ?thesis
      using True y g k e w
      by (fastforce simp: pushed_def Let_def blocks_ok_append blocks_ok_Cons)
  next
    case False
    then have "pushed wi c xs = ?ys @ \<lparr>li_index = wi, li_chunk = c\<rparr> # kept_after wi ?we xs"
      by (auto simp: pushed_def Let_def)
    then show ?thesis
      using k e w by (fastforce simp: blocks_ok_append blocks_ok_Cons li_end_def)
  qed
qed

subsection \<open>The read cursor\<close>

definition read_item :: "list_item list \<Rightarrow> int \<Rightarrow> nat option" where
  "read_item xs ri =
     (let i = length (takeWhile (\<lambda>q. li_end q \<le> ri) xs) in if i < length xs then Some i else None)"

lemma scan_read_left_before:
  assumes "blocks_ok xs" "i < length xs"
  shows "scan_read_left xs ri i < length xs \<and>
    (\<forall>q \<in> set (take (scan_read_left xs ri i) xs). li_end q \<le> ri)"
  using assms(2)
proof (induction i)
  case (Suc i)
  show ?case
  proof (cases "li_index (xs ! Suc i) > ri")
    case False
    have "li_end q \<le> li_index (xs ! Suc i)" if "q \<in> set (take (Suc i) xs)" for q
      using that assms(1) Suc.prems
      by (auto simp: blocks_ok_def sorted_wrt_iff_nth_less in_set_conv_nth)
    then show ?thesis using False Suc.prems by fastforce
  qed (use Suc in simp)
qed simp

lemma scan_read_right_item:
  assumes "\<forall>q \<in> set (take i xs). li_end q \<le> ri"
  shows "scan_read_right xs ri i = read_item xs ri"
  using assms
proof (induction xs ri i rule: scan_read_right.induct)
  case (1 xs ri i)
  let ?P = "\<lambda>q. li_end q \<le> ri"
  show ?case
  proof (cases "i < length xs")
    case True
    have tw: "takeWhile ?P xs = take i xs @ takeWhile ?P (drop i xs)"
      using 1(2) takeWhile_append2 [of "take i xs" ?P "drop i xs"] by simp
    show ?thesis
    proof (cases "?P (xs ! i)")
      case T: True
      have "\<forall>q \<in> set (take (Suc i) xs). li_end q \<le> ri"
        using 1(2) T True by (auto simp: take_Suc_conv_app_nth)
      then show ?thesis using 1(1) [OF True T] T True by (simp add: scan_read_right.simps [of xs ri i])
    next
      case False
      then have "takeWhile ?P xs = take i xs" using tw True by (simp flip: Cons_nth_drop_Suc)
      then show ?thesis using False True
        by (simp add: scan_read_right.simps [of xs ri i] read_item_def Let_def)
    qed
  next
    case False
    then have "takeWhile ?P xs = xs" using 1(2) by (simp add: takeWhile_eq_all_conv)
    then have "length (takeWhile ?P xs) = length xs" by (rule arg_cong)
    then show ?thesis using False
      by (simp add: scan_read_right.simps [of xs ri i] read_item_def Let_def)
  qed
qed

lemma fix_current_read_canonical:
  assumes "blocks_ok (mq_blocks bq)" "cursors_ok bq"
  shows "fix_current_read bq = bq\<lparr>mq_current_read := read_item (mq_blocks bq) (mq_read_index bq)\<rparr>"
proof (cases "mq_blocks bq = []")
  case False
  let ?i = "case mq_current_read bq of None \<Rightarrow> 0 | Some i \<Rightarrow> i"
  have "?i < length (mq_blocks bq)"
    using assms(2) False by (auto simp: cursors_ok_def split: option.splits)
  then show ?thesis
    using False scan_read_left_before [OF assms(1)] scan_read_right_item
    by (simp add: fix_current_read_def Let_def)
qed (simp add: fix_current_read_def read_item_def)

lemma read_item_SomeD:
  assumes "read_item xs ri = Some i"
  shows "i < length xs" "ri < li_end (xs ! i)" "\<forall>q \<in> set (take i xs). li_end q \<le> ri"
proof -
  have i: "i = length (takeWhile (\<lambda>q. li_end q \<le> ri) xs)" "i < length xs"
    using assms by (auto simp: read_item_def Let_def split: if_splits)
  show "i < length xs" by (rule i)
  show "ri < li_end (xs ! i)" using nth_length_takeWhile [of "\<lambda>q. li_end q \<le> ri" xs] i by simp
  show "\<forall>q \<in> set (take i xs). li_end q \<le> ri"
    using i(1) by (metis set_takeWhileD takeWhile_eq_take)
qed

lemma read_item_NoneD:
  assumes "read_item xs ri = None" "q \<in> set xs"
  shows "li_end q \<le> ri"
proof -
  let ?P = "\<lambda>q. li_end q \<le> ri"
  have "length (takeWhile ?P xs) + length (dropWhile ?P xs) = length xs"
    by (metis length_append takeWhile_dropWhile_id)
  then have "length (dropWhile ?P xs) = 0"
    using assms(1) by (simp only: read_item_def Let_def split: if_splits) simp
  then show ?thesis using assms(2) by (auto simp: dropWhile_eq_Nil_conv)
qed

subsection \<open>Reading\<close>

lemma content_None:
  "(\<And>q. q \<in> set xs \<Longrightarrow> pos < li_index q \<or> li_end q \<le> pos) \<Longrightarrow> content p xs pos = None"
  by (induction xs) (force simp: item_map_def)+

lemma item_map_in_content:
  assumes "blocks_ok xs" "i < length xs" "li_index (xs ! i) \<le> pos" "pos < li_end (xs ! i)"
  shows "content p xs pos = item_map p (xs ! i) pos"
proof -
  let ?q = "xs ! i"
  have xs: "xs = take i xs @ ?q # drop (Suc i) xs" using assms(2) by (simp add: id_take_nth_drop)
  have "\<forall>b \<in> set (drop (Suc i) xs). li_end ?q \<le> li_index b"
    using assms(1) xs by (metis blocks_ok_Cons blocks_ok_append)
  then have "content p (drop (Suc i) xs) pos = None" using assms(4) by (force intro: content_None)
  moreover have "content p xs = content p (take i xs) ++ (item_map p ?q ++ content p (drop (Suc i) xs))"
    using content_append [of p "take i xs" "?q # drop (Suc i) xs"] xs by simp
  ultimately show ?thesis
    using assms(3,4) by (simp add: map_add_def item_map_def)
qed

lemma content_gap:
  assumes "blocks_ok xs" "read_item xs ri = Some i" "ri \<le> pos" "pos < li_index (xs ! i)"
  shows "content p xs pos = None"
proof -
  note r = read_item_SomeD [OF assms(2)]
  have xs: "xs = take i xs @ xs ! i # drop (Suc i) xs" using r(1) by (simp add: id_take_nth_drop)
  have "\<forall>b \<in> set (drop (Suc i) xs). li_end (xs ! i) \<le> li_index b" "li_index (xs ! i) < li_end (xs ! i)"
    using assms(1) xs by (metis blocks_ok_Cons blocks_ok_append)+
  moreover have "set xs = set (take i xs) \<union> {xs ! i} \<union> set (drop (Suc i) xs)"
    using arg_cong [OF xs, of set] by simp
  ultimately show ?thesis
    using r(3) assms(3,4) by (intro content_None) fastforce
qed

text \<open>What \<open>pa_memblockq_peek\<close> promises about the chunk it returns.\<close>

definition peek_ok :: "pa_memblockq \<Rightarrow> pa_memchunk \<Rightarrow> bool" where
  "peek_ok bq c \<longleftrightarrow>
     (let p = mq_pool bq; m = content p (mq_blocks bq); ri = mq_read_index bq
      in chunk_ok p c \<and> 0 < ch_length c \<and>
           (\<forall>k < ch_length c. m (ri + int k) = Some (chunk_bytes p c ! k)))"

definition peek_hole :: "pa_memblockq \<Rightarrow> pa_memchunk \<Rightarrow> bool" where
  "peek_hole bq c \<longleftrightarrow>
     (\<forall>k < ch_length c. content (mq_pool bq) (mq_blocks bq) (mq_read_index bq + int k) = None) \<and>
     (ch_memblock c = None \<longrightarrow> 0 < ch_length c) \<and>
     (ch_memblock c \<noteq> None \<longrightarrow> ch_memblock c = ch_memblock (mq_silence bq) \<and> ch_index c = 0 \<and>
        ch_length c \<le> ch_length (mq_silence bq))"

definition blocks_backed :: "pa_memblockq \<Rightarrow> bool" where
  "blocks_backed bq \<longleftrightarrow> (\<forall>q \<in> set (mq_blocks bq). chunk_ok (mq_pool bq) (li_chunk q))"

lemma peek_item:
  assumes ok: "blocks_ok (mq_blocks bq)" and bk: "blocks_backed bq"
    and r: "read_item (mq_blocks bq) (mq_read_index bq) = Some i"
    and i: "\<not> li_index (mq_blocks bq ! i) > mq_read_index bq"
  defines "c \<equiv> li_chunk (mq_blocks bq ! i)"
  defines "d \<equiv> nat (mq_read_index bq - li_index (mq_blocks bq ! i))"
  shows "peek_ok bq (c\<lparr>ch_index := ch_index c + d, ch_length := ch_length c - d\<rparr>)"
proof -
  let ?q = "mq_blocks bq ! i" and ?ri = "mq_read_index bq" and ?p = "mq_pool bq"
  let ?c = "c\<lparr>ch_index := ch_index c + d, ch_length := ch_length c - d\<rparr>"
  note rd = read_item_SomeD [OF r]
  have d: "d < ch_length c" "li_index ?q + int d = ?ri"
    using rd(2) i by (auto simp: d_def c_def li_end_def)
  have ck: "chunk_ok ?p c" using bk rd(1) by (auto simp: blocks_backed_def c_def)
  then have ck': "chunk_ok ?p ?c" using d(1) by (auto simp: chunk_ok_def split: option.splits)
  have "content ?p (mq_blocks bq) (?ri + int k) = Some (chunk_bytes ?p ?c ! k)"
    if "k < ch_length ?c" for k
  proof -
    have "content ?p (mq_blocks bq) (?ri + int k) = item_map ?p ?q (?ri + int k)"
      using item_map_in_content [OF ok rd(1)] d that by (simp add: li_end_def c_def)
    also have "\<dots> = Some (chunk_byte ?p c (d + k))"
      using d(1) that unfolding d(2) [symmetric] by (simp add: item_map_def li_end_def c_def nat_int_add)
    finally show ?thesis using chunk_bytes_nth [OF ck' that] by (simp add: chunk_byte_def add.assoc)
  qed
  then show ?thesis using ck' d(1) by (simp add: peek_ok_def Let_def)
qed

lemma peek_silence_hole:
  assumes "peek_silence bq l = (bq', Some c)"
    and "\<And>k. (l = 0 \<or> k < l) \<Longrightarrow>
      content (mq_pool bq) (mq_blocks bq) (mq_read_index bq + int k) = None"
  shows "peek_hole bq c"
  using assms by (auto simp: peek_silence_def peek_hole_def Let_def split: if_splits)

lemma peek_cases:
  assumes ok: "blocks_ok (mq_blocks bq)" and cu: "cursors_ok bq" and bk: "blocks_backed bq"
    and pk: "pa_memblockq_peek bq = (bq', Some c)"
  shows "\<not> pa_memblockq_prebuf_active bq \<and> (peek_ok bq c \<or> peek_hole bq c)"
proof -
  let ?b = "bq\<lparr>mq_in_prebuf := False\<rparr>"
  let ?ri = "mq_read_index bq" and ?xs = "mq_blocks bq"
  let ?b' = "?b\<lparr>mq_current_read := read_item ?xs ?ri\<rparr>"
  have np: "\<not> pa_memblockq_prebuf_active bq"
    using pk by (auto simp: pa_memblockq_peek_def update_prebuf_eq)
  have fx: "fix_current_read ?b = ?b'"
    using fix_current_read_canonical [of ?b] ok cu by (simp add: cursors_ok_def)
  note pk' = pk [unfolded pa_memblockq_peek_def update_prebuf_eq Let_def, simplified np, simplified, unfolded fx,
      simplified]
  show ?thesis
  proof (cases "read_item ?xs ?ri")
    case None
    have "content (mq_pool bq) ?xs (?ri + int k) = None" for k
      using read_item_NoneD [OF None] by (intro content_None) force
    then have "peek_hole ?b' c"
      using pk' None peek_silence_hole [of ?b' _ bq' c] by (auto split: if_splits)
    then show ?thesis using np by (simp add: peek_hole_def)
  next
    case (Some i)
    show ?thesis
    proof (cases "li_index (?xs ! i) > ?ri")
      case True
      have "peek_hole ?b' c"
        using pk' Some True content_gap [OF ok Some]
          peek_silence_hole [of ?b' "nat (li_index (?xs ! i) - ?ri)" bq' c]
        by simp
      then show ?thesis using np by (simp add: peek_hole_def)
    next
      case False
      then show ?thesis using pk' Some np peek_item [OF ok bk Some False] by (simp add: Let_def)
    qed
  qed
qed

subsection \<open>The invariant of a queue\<close>

definition mq_inv :: "pa_memblockq \<Rightarrow> bool" where
  "mq_inv bq \<longleftrightarrow> blocks_ok (mq_blocks bq) \<and> cursors_ok bq \<and>
     mq_n_blocks bq = length (mq_blocks bq) \<and> blocks_backed bq \<and> 0 < mq_base bq"

lemma mq_inv_book: "mq_inv bq \<Longrightarrow> book_ok (foreign_refs bq) bq"
  by (simp add: mq_inv_def book_ok_def)

lemma mq_inv_intro:
  "blocks_ok (mq_blocks bq) \<Longrightarrow> book_ok f bq \<Longrightarrow> blocks_backed bq \<Longrightarrow> 0 < mq_base bq \<Longrightarrow> mq_inv bq"
  by (simp add: mq_inv_def book_ok_def)

lemma mq_paramsD:
  assumes "mq_params a = mq_params b"
  shows "mq_maxlength a = mq_maxlength b" "mq_tlength a = mq_tlength b" "mq_base a = mq_base b"
    "mq_prebuf a = mq_prebuf b" "mq_minreq a = mq_minreq b" "mq_maxrewind a = mq_maxrewind b"
    "mq_read_index a = mq_read_index b" "mq_write_index a = mq_write_index b"
    "mq_in_prebuf a = mq_in_prebuf b" "mq_silence a = mq_silence b" "mq_mcalign a = mq_mcalign b"
    "mq_missing a = mq_missing b" "mq_requested a = mq_requested b"
    "mp_data (mq_pool a) = mp_data (mq_pool b)" "mp_next (mq_pool a) = mp_next (mq_pool b)"
  using assms by (simp_all add: mq_params_def)

lemma chunk_ok_cong:
  "mp_data p = mp_data p' \<Longrightarrow> mp_next p = mp_next p' \<Longrightarrow> chunk_ok p c = chunk_ok p' c"
  by (simp add: chunk_ok_def split: option.split)

lemma content_cong:
  assumes "mp_data p = mp_data p'"
  shows "content p xs = content p' xs"
proof -
  have "item_map p q = item_map p' q" for q
    using assms by (simp add: item_map_def chunk_byte_def fun_eq_iff)
  then show ?thesis by (induction xs) simp_all
qed

lemma blocks_ok_dropWhile: "blocks_ok xs \<Longrightarrow> blocks_ok (dropWhile P xs)"
  by (metis blocks_ok_append takeWhile_dropWhile_id)

lemma blocks_backed_pushed:
  assumes bk: "blocks_backed bq" and ok: "blocks_ok (mq_blocks bq)"
    and c: "chunk_ok (mq_pool bq) c" "0 < ch_length c"
    and q: "q \<in> set (pushed wi c (mq_blocks bq))"
  shows "chunk_ok (mq_pool bq) (li_chunk q)"
proof -
  let ?xs = "mq_blocks bq" and ?we = "wi + int (ch_length c)"
  have cut: "chunk_ok (mq_pool bq) (li_chunk a)"
    if "a \<in> set (kept_before wi ?xs) \<or> a \<in> set (kept_after wi ?we ?xs)" for a
  proof -
    from that obtain x where x: "x \<in> set ?xs" "a \<in> set (before_item wi x) \<or> a \<in> set (after_item wi ?we x)"
      by (auto simp: kept_before_def kept_after_def)
    have "chunk_ok (mq_pool bq) (li_chunk x)" using bk x(1) by (simp add: blocks_backed_def)
    then show ?thesis using x(2)
      by (auto simp: before_item_def after_item_def Let_def chunk_ok_def li_end_def
          split: if_splits option.splits)
  qed
  consider "q \<in> set (kept_before wi ?xs)" | "q \<in> set (kept_after wi ?we ?xs)"
    | "q = \<lparr>li_index = wi, li_chunk = c\<rparr>"
    | "merges wi c (last (kept_before wi ?xs))" "q = grow c (last (kept_before wi ?xs))"
    using q by (auto simp: pushed_def Let_def dest: in_set_butlastD split: if_splits)
  then show ?thesis
  proof cases
    case 4
    then show ?thesis using c by (auto simp: grow_def merges_def chunk_ok_def split: option.splits)
  qed (use cut c in auto)
qed

lemma push_inv:
  assumes inv: "mq_inv bq" and c: "chunk_ok (mq_pool bq) c" "0 < ch_length c"
    "mq_base bq dvd ch_length c" "mq_base bq dvd ch_index c"
    and room: "can_push bq (ch_length c)"
  shows "\<exists>bq'. pa_memblockq_push bq c = Some (bq', 0) \<and> mq_inv bq' \<and>
    foreign_refs bq' = foreign_refs bq \<and>
    mq_blocks bq' = pushed (mq_write_index bq) c (mq_blocks bq) \<and>
    mq_params bq' = mq_params (bq\<lparr>mq_write_index := mq_write_index bq + int (ch_length c),
      mq_requested := mq_requested bq - int (ch_length c)\<rparr>)"
proof -
  obtain b where b: "ch_memblock c = Some b" "ch_index c + ch_length c \<le> length (mp_data (mq_pool bq) b)"
    using c(1) by (auto simp: chunk_ok_def split: option.splits)
  have ok: "blocks_ok (mq_blocks bq)" "blocks_backed bq" using inv by (simp_all add: mq_inv_def)
  obtain bq' where bq': "pa_memblockq_push bq c = Some (bq', 0)" "book_ok (foreign_refs bq) bq'"
    "mq_blocks bq' = pushed (mq_write_index bq) c (mq_blocks bq)"
    "mq_params bq' = mq_params (bq\<lparr>mq_write_index := mq_write_index bq + int (ch_length c),
      mq_requested := mq_requested bq - int (ch_length c)\<rparr>)"
    using push_spec [OF ok(1) mq_inv_book [OF inv] b(1) c(2) b(2) c(3,4) room] by blast
  note pd = mq_paramsD [OF bq'(4)]
  have "blocks_backed bq'"
    using blocks_backed_pushed [OF ok(2,1) c(1,2)] bq'(3) pd(14,15)
    by (simp add: blocks_backed_def chunk_ok_cong [of "mq_pool bq'" "mq_pool bq"])
  then have "mq_inv bq'"
    using mq_inv_intro [OF _ bq'(2)] blocks_ok_pushed [OF ok(1) c(2)] bq'(3) pd(3) inv
    by (simp add: mq_inv_def)
  then show ?thesis using bq' by (auto simp: book_ok_def)
qed

subsection \<open>Dropping\<close>

lemma drop_backlog_to_spec:
  assumes "book_ok f bq"
  shows "mq_blocks (drop_backlog_to bq b) = dropWhile (\<lambda>q. li_end q \<le> b) (mq_blocks bq) \<and>
    book_ok f (drop_backlog_to bq b) \<and> mq_params (drop_backlog_to bq b) = mq_params bq"
  using assms
proof (induction bq b rule: drop_backlog_to.induct)
  case (1 bq b)
  show ?case
  proof (cases "mq_blocks bq \<noteq> [] \<and> li_end (mq_blocks bq ! 0) \<le> b")
    case True
    then obtain q xs where xs: "mq_blocks bq = q # xs" by (cases "mq_blocks bq") auto
    have "mq_params (drop_block bq 0) = mq_params bq"
      by (simp add: drop_block_def mq_params_def)
    then show ?thesis
      using 1(1) [OF True] book_ok_drop_block [OF 1(2), of 0] xs True
      by (simp add: drop_backlog_to.simps [of bq] drop_block_def)
  next
    case False
    then show ?thesis using 1(2)
      by (cases "mq_blocks bq") (simp_all add: drop_backlog_to.simps [of bq])
  qed
qed

lemma silence_spec:
  assumes "book_ok f bq"
  shows "mq_blocks (pa_memblockq_silence bq) = [] \<and> book_ok f (pa_memblockq_silence bq) \<and>
    mq_params (pa_memblockq_silence bq) = mq_params bq"
  using assms
proof (induction bq rule: pa_memblockq_silence.induct)
  case (1 bq)
  show ?case
  proof (cases "mq_blocks bq = []")
    case False
    have "mq_params (drop_block bq 0) = mq_params bq"
      by (simp add: drop_block_def mq_params_def)
    then show ?thesis
      using 1(1) [OF False] book_ok_drop_block [OF 1(2), of 0] False
      by (simp add: pa_memblockq_silence.simps [of bq])
  qed (use 1(2) in \<open>simp add: pa_memblockq_silence.simps [of bq]\<close>)
qed

lemma drop_round_spec:
  assumes inv: "blocks_ok (mq_blocks bq)" "book_ok f bq" and np: "\<not> pa_memblockq_prebuf_active bq"
    and dr: "drop_round bq len = (bq', r)" and len: "0 < len"
  shows "mq_blocks bq' = mq_blocks bq \<and> book_ok f bq' \<and> r < len \<and>
    mq_params bq' = mq_params (bq\<lparr>mq_read_index := mq_read_index bq + int (len - r),
      mq_in_prebuf := False\<rparr>)"
proof -
  let ?b = "bq\<lparr>mq_in_prebuf := False\<rparr>"
  let ?ri = "mq_read_index bq" and ?xs = "mq_blocks bq"
  have cu: "cursors_ok bq" using inv(2) by (simp add: book_ok_def)
  have fx: "fix_current_read ?b = ?b\<lparr>mq_current_read := read_item ?xs ?ri\<rparr>"
    using fix_current_read_canonical [of ?b] inv(1) cu by (simp add: cursors_ok_def)
  have bk: "book_ok f (?b\<lparr>mq_current_read := read_item ?xs ?ri\<rparr>)"
    using inv(2) read_item_SomeD(1) [of ?xs ?ri]
    by (auto simp: book_ok_def cursors_ok_def foreign_refs_def fun_eq_iff)
  show ?thesis
  proof (cases "read_item ?xs ?ri")
    case None
    then show ?thesis using dr len np bk
      by (auto simp: drop_round_def update_prebuf_eq fx mq_params_def)
  next
    case (Some i)
    let ?d = "min (li_end (?xs ! i) - ?ri) (int len)"
    have "0 < ?d" using read_item_SomeD(2) [OF Some] len by simp
    moreover have "bq' = ?b\<lparr>mq_current_read := read_item ?xs ?ri, mq_read_index := ?ri + ?d\<rparr>"
      "r = len - nat ?d"
      using dr np Some by (auto simp: drop_round_def update_prebuf_eq fx Let_def)
    ultimately show ?thesis using bk len by (auto simp: mq_params_def)
  qed
qed

lemma drop_loop_spec:
  assumes "blocks_ok (mq_blocks bq)" "book_ok f bq" "\<not> pa_memblockq_prebuf_active bq" "0 < len"
    "int len \<le> mq_write_index bq - mq_read_index bq"
  shows "mq_blocks (drop_loop bq len) = mq_blocks bq \<and> book_ok f (drop_loop bq len) \<and>
    mq_params (drop_loop bq len) =
      mq_params (bq\<lparr>mq_read_index := mq_read_index bq + int len, mq_in_prebuf := False\<rparr>)"
  using assms
proof (induction bq len rule: drop_loop.induct)
  case (1 bq len)
  obtain bq' r where dr: "drop_round bq len = (bq', r)" by fastforce
  note s = drop_round_spec [OF 1(2,3,4) dr 1(5)]
  then have p: "mq_params bq' = mq_params (bq\<lparr>mq_read_index := mq_read_index bq + int (len - r),
      mq_in_prebuf := False\<rparr>)" by blast
  note pd = mq_paramsD [OF p, simplified]
  have eq: "drop_loop bq len = drop_loop bq' r"
    using 1(5) dr by (simp add: drop_loop.simps [of bq])
  show ?case
  proof (cases "r = 0")
    case True
    then have "drop_loop bq' r = bq'" by (simp add: drop_loop.simps [of bq'])
    then show ?thesis using eq s True by simp
  next
    case False
    have r: "r < len" using s by blast
    have "\<not> pa_memblockq_prebuf_active bq'" "int r \<le> mq_write_index bq' - mq_read_index bq'"
      unfolding pa_memblockq_prebuf_active_def pd(7,8) using pd(9) r 1(6) False by auto
    moreover have "blocks_ok (mq_blocks bq')" "book_ok f bq'" using s 1(2) by simp_all
    ultimately have "mq_blocks (drop_loop bq' r) = mq_blocks bq' \<and> book_ok f (drop_loop bq' r) \<and>
        mq_params (drop_loop bq' r) =
          mq_params (bq'\<lparr>mq_read_index := mq_read_index bq' + int r, mq_in_prebuf := False\<rparr>)"
      using 1(1) [OF 1(5), unfolded dr fst_conv snd_conv] False by blast
    moreover have "mq_params (bq'\<lparr>mq_read_index := mq_read_index bq' + int r, mq_in_prebuf := False\<rparr>) =
        mq_params (bq\<lparr>mq_read_index := mq_read_index bq + int len, mq_in_prebuf := False\<rparr>)"
      using pd r by (simp add: mq_params_def)
    ultimately show ?thesis using eq s by metis
  qed
qed

lemma drop_spec:
  assumes inv: "mq_inv bq" and np: "\<not> pa_memblockq_prebuf_active bq"
    and len: "mq_base bq dvd len" "0 < len" "len \<le> pa_memblockq_get_length bq"
  defines "ri \<equiv> mq_read_index bq + int len"
  shows "\<exists>bq'. pa_memblockq_drop bq len = Some bq' \<and> mq_inv bq' \<and>
    foreign_refs bq' = foreign_refs bq \<and>
    mq_blocks bq' = dropWhile (\<lambda>q. li_end q \<le> ri - int (mq_maxrewind bq)) (mq_blocks bq) \<and>
    mq_params bq' = mq_params (bq\<lparr>mq_read_index := ri, mq_in_prebuf := False,
      mq_missing := mq_missing bq + int len\<rparr>)"
proof -
  have ok: "blocks_ok (mq_blocks bq)" "blocks_backed bq" using inv by (simp_all add: mq_inv_def)
  have "int len \<le> mq_write_index bq - mq_read_index bq"
    using len by (auto simp: pa_memblockq_get_length_def split: if_splits)
  note l = drop_loop_spec [OF ok(1) mq_inv_book [OF inv] np len(2) this]
  let ?l = "drop_loop bq len" and ?b = "ri - int (mq_maxrewind bq)"
  have "mq_params ?l = mq_params (bq\<lparr>mq_read_index := ri, mq_in_prebuf := False\<rparr>)"
    using l by (simp add: ri_def)
  note pl = mq_paramsD [OF this, simplified]
  let ?d = "drop_backlog_to ?l ?b"
  have d: "mq_blocks ?d = dropWhile (\<lambda>q. li_end q \<le> ?b) (mq_blocks bq)"
    "book_ok (foreign_refs bq) ?d" "mq_params ?d = mq_params ?l"
    using drop_backlog_to_spec [of "foreign_refs bq" ?l ?b] l by simp_all
  note pd = mq_paramsD [OF d(3)]
  let ?r = "?d\<lparr>mq_missing := mq_missing bq + int len\<rparr>"
  have "pa_memblockq_drop bq len = Some ?r"
    using len(1) pl pd by (simp add: pa_memblockq_drop_def drop_backlog_def read_index_changed_def
        ri_def dvd_eq_mod_eq_0)
  moreover have "mq_params ?r = mq_params (bq\<lparr>mq_read_index := ri, mq_in_prebuf := False,
      mq_missing := mq_missing bq + int len\<rparr>)"
    using pl pd by (simp add: mq_params_def)
  moreover have "mq_inv ?r"
  proof (rule mq_inv_intro)
    show "book_ok (foreign_refs bq) ?r" using d(2) by simp
    show "blocks_ok (mq_blocks ?r)"
      using blocks_ok_dropWhile [OF ok(1)] d(1) by simp
    show "blocks_backed ?r"
      using ok(2) d(1) pl pd
      by (auto simp: blocks_backed_def chunk_ok_cong [of "mq_pool ?d" "mq_pool bq"] dest: set_dropWhileD)
    show "0 < mq_base ?r" using inv pl pd by (simp add: mq_inv_def)
  qed
  moreover have "foreign_refs ?r = foreign_refs bq"
    using d(2) by (metis book_ok_def book_ok_frame(4))
  moreover have "mq_blocks ?r = dropWhile (\<lambda>q. li_end q \<le> ?b) (mq_blocks bq)" using d(1) by simp
  ultimately show ?thesis by blast
qed

subsection \<open>The queue as a stream of bytes\<close>

definition on_frames :: "pa_memblockq \<Rightarrow> bool" where
  "on_frames bq \<longleftrightarrow> int (mq_base bq) dvd mq_write_index bq - mq_read_index bq \<and>
     (\<forall>q \<in> set (mq_blocks bq). int (mq_base bq) dvd li_index q - mq_read_index bq \<and>
        mq_base bq dvd ch_length (li_chunk q))"

definition fifo_ok :: "pa_memblockq \<Rightarrow> bool" where
  "fifo_ok bq \<longleftrightarrow> mq_inv bq \<and> on_frames bq \<and> mq_read_index bq \<le> mq_write_index bq \<and>
     (\<forall>q \<in> set (mq_blocks bq). li_end q \<le> mq_write_index bq) \<and>
     (\<forall>pos. mq_read_index bq \<le> pos \<longrightarrow> pos < mq_write_index bq \<longrightarrow>
        content (mq_pool bq) (mq_blocks bq) pos \<noteq> None)"

definition fifo :: "pa_memblockq \<Rightarrow> bytes" where
  "fifo bq = map (\<lambda>k. the (content (mq_pool bq) (mq_blocks bq) (mq_read_index bq + int k)))
     [0..<pa_memblockq_get_length bq]"

lemma get_length_nat: "pa_memblockq_get_length bq = nat (mq_write_index bq - mq_read_index bq)"
  by (simp add: pa_memblockq_get_length_def)

lemma length_fifo [simp]: "length (fifo bq) = pa_memblockq_get_length bq"
  by (simp add: fifo_def)

definition pushable :: "pa_memblockq \<Rightarrow> pa_memchunk \<Rightarrow> bool" where
  "pushable bq c \<longleftrightarrow> chunk_ok (mq_pool bq) c \<and> 0 < ch_length c \<and>
     mq_base bq dvd ch_length c \<and> mq_base bq dvd ch_index c"

lemma pushed_at_end:
  assumes "blocks_ok xs" "\<forall>q \<in> set xs. li_end q \<le> wi" "0 < ch_length c"
  shows "pushed wi c xs = (if xs \<noteq> [] \<and> merges wi c (last xs) then butlast xs @ [grow c (last xs)]
     else xs @ [\<lparr>li_index = wi, li_chunk = c\<rparr>])"
proof -
  have "kept_before wi xs = xs"
    using assms(2) unfolding kept_before_def
    by (induction xs) (simp_all add: before_item_def)
  moreover have "kept_after wi (wi + int (ch_length c)) xs = []"
    using assms unfolding kept_after_def by (force simp: after_item_def blocks_ok_def)
  ultimately show ?thesis by (simp add: pushed_def)
qed

lemma fifo_room:
  assumes "fifo_ok bq" "0 < l"
  shows "can_push bq l \<longleftrightarrow> pa_memblockq_get_length bq + l \<le> mq_maxlength bq"
proof -
  have *: "mq_read_index bq \<le> mq_write_index bq"
    "mq_blocks bq \<noteq> [] \<Longrightarrow> li_end (last (mq_blocks bq)) \<le> mq_write_index bq"
    using assms(1) by (simp_all add: fifo_ok_def)
  show ?thesis
  proof (cases "mq_blocks bq = []")
    case True
    then show ?thesis using *(1) assms(2) by (auto simp: can_push_def pa_memblockq_get_length_def)
  next
    case False
    then show ?thesis using * assms(2)
      by (auto simp: can_push_def pa_memblockq_get_length_def)
  qed
qed

lemma push_fifo:
  assumes ok: "fifo_ok bq" and c: "pushable bq c"
    and room: "pa_memblockq_get_length bq + ch_length c \<le> mq_maxlength bq"
  shows "\<exists>bq'. pa_memblockq_push bq c = Some (bq', 0) \<and> fifo_ok bq' \<and>
    fifo bq' = fifo bq @ chunk_bytes (mq_pool bq) c \<and> foreign_refs bq' = foreign_refs bq \<and>
    mq_params bq' = mq_params (bq\<lparr>mq_write_index := mq_write_index bq + int (ch_length c),
      mq_requested := mq_requested bq - int (ch_length c)\<rparr>)"
proof -
  let ?wi = "mq_write_index bq" and ?xs = "mq_blocks bq" and ?p = "mq_pool bq"
  let ?m = "content ?p ?xs"
  have inv: "mq_inv bq" and ends: "\<forall>q \<in> set ?xs. li_end q \<le> ?wi"
    and ri: "mq_read_index bq \<le> ?wi"
    using ok by (simp_all add: fifo_ok_def)
  have c': "chunk_ok ?p c" "0 < ch_length c" "mq_base bq dvd ch_length c" "mq_base bq dvd ch_index c"
    using c by (simp_all add: pushable_def)
  have bok: "blocks_ok ?xs" using inv by (simp add: mq_inv_def)
  have "can_push bq (ch_length c)" using fifo_room [OF ok c'(2)] room by simp
  from push_inv [OF inv c' this] obtain bq' where p: "pa_memblockq_push bq c = Some (bq', 0)"
    "mq_inv bq'" "foreign_refs bq' = foreign_refs bq" "mq_blocks bq' = pushed ?wi c ?xs"
    "mq_params bq' = mq_params (bq\<lparr>mq_write_index := ?wi + int (ch_length c),
      mq_requested := mq_requested bq - int (ch_length c)\<rparr>)" by blast
  note pd = mq_paramsD [OF p(5), simplified]
  have "content ?p (pushed ?wi c ?xs) = overwrite ?m ?wi (chunk_bytes ?p c)"
    using ends c'(2) by (intro content_pushed bok c'(1)) force+
  then have m': "content (mq_pool bq') (mq_blocks bq') = overwrite ?m ?wi (chunk_bytes ?p c)"
    using content_cong [OF pd(14)] p(4) by simp
  have L: "length (chunk_bytes ?p c) = ch_length c" by (rule length_chunk_bytes [OF c'(1)])
  have blk: "li_end q \<le> ?wi + int (ch_length c) \<and> int (mq_base bq) dvd li_index q - mq_read_index bq \<and>
      mq_base bq dvd ch_length (li_chunk q)" if "q \<in> set (mq_blocks bq')" for q
  proof -
    have fr: "on_frames bq" using ok by (simp add: fifo_ok_def)
    have "q \<in> set ?xs \<or> q = \<lparr>li_index = ?wi, li_chunk = c\<rparr> \<or>
        ?xs \<noteq> [] \<and> merges ?wi c (last ?xs) \<and> q = grow c (last ?xs)"
      using that unfolding p(4) pushed_at_end [OF bok ends c'(2)]
      by (auto split: if_splits dest: in_set_butlastD)
    then show ?thesis
      using ends fr c'(3) last_in_set [of ?xs]
      by (auto simp: on_frames_def grow_def merges_def li_end_def)
  qed
  have "int (mq_base bq) dvd (?wi - mq_read_index bq) + int (ch_length c)"
    using ok c'(3) by (intro dvd_add) (simp_all add: fifo_ok_def on_frames_def)
  then have "on_frames bq'"
    using blk pd by (simp add: on_frames_def diff_add_eq)
  then have "fifo_ok bq'"
    using ok p(2) blk pd L by (auto simp: fifo_ok_def m' overwrite_def)
  moreover have "fifo bq' = fifo bq @ chunk_bytes ?p c"
  proof (rule nth_equalityI)
    show len: "length (fifo bq') = length (fifo bq @ chunk_bytes ?p c)"
      using pd(7,8) ri L by (auto simp: get_length_nat)
    show "fifo bq' ! k = (fifo bq @ chunk_bytes ?p c) ! k" if "k < length (fifo bq')" for k
      using that len pd(7,8) ri L
      by (auto simp: fifo_def nth_append m' overwrite_def get_length_nat
          intro!: arg_cong [where f = "\<lambda>k. _ ! k"])
  qed
  ultimately show ?thesis using p by blast
qed

lemma content_dropWhile:
  "b \<le> pos \<Longrightarrow> content p (dropWhile (\<lambda>q. li_end q \<le> b) xs) pos = content p xs pos"
  by (induction xs) (auto simp: item_map_def map_add_def split: option.split)

lemma drop_fifo:
  assumes ok: "fifo_ok bq" and np: "\<not> pa_memblockq_prebuf_active bq"
    and n: "mq_base bq dvd n" "0 < n" "n \<le> pa_memblockq_get_length bq"
  shows "\<exists>bq'. pa_memblockq_drop bq n = Some bq' \<and> fifo_ok bq' \<and> fifo bq' = drop n (fifo bq) \<and>
    foreign_refs bq' = foreign_refs bq \<and>
    (n < pa_memblockq_get_length bq \<longrightarrow> \<not> pa_memblockq_prebuf_active bq') \<and>
    mq_params bq' = mq_params (bq\<lparr>mq_read_index := mq_read_index bq + int n, mq_in_prebuf := False,
      mq_missing := mq_missing bq + int n\<rparr>)"
proof -
  let ?ri = "mq_read_index bq + int n" and ?xs = "mq_blocks bq"
  have inv: "mq_inv bq" using ok by (simp add: fifo_ok_def)
  from drop_spec [OF inv np n] obtain bq' where d: "pa_memblockq_drop bq n = Some bq'" "mq_inv bq'"
    "foreign_refs bq' = foreign_refs bq"
    "mq_blocks bq' = dropWhile (\<lambda>q. li_end q \<le> ?ri - int (mq_maxrewind bq)) ?xs"
    "mq_params bq' = mq_params (bq\<lparr>mq_read_index := ?ri, mq_in_prebuf := False,
      mq_missing := mq_missing bq + int n\<rparr>)" by blast
  note pd = mq_paramsD [OF d(5), simplified]
  have m: "content (mq_pool bq') (mq_blocks bq') pos = content (mq_pool bq) ?xs pos" if "?ri \<le> pos" for pos
    unfolding d(4) content_cong [OF pd(14)] using that by (intro content_dropWhile) simp
  have wi: "?ri \<le> mq_write_index bq"
    using n by (auto simp: pa_memblockq_get_length_def split: if_splits)
  have sub: "q \<in> set ?xs" if "q \<in> set (mq_blocks bq')" for q
    using that d(4) by (auto dest: set_dropWhileD)
  have dv: "int (mq_base bq) dvd x - ?ri" if "int (mq_base bq) dvd x - mq_read_index bq" for x
    using dvd_diff [OF that, of "int n"] n(1) by (simp add: diff_diff_add)
  have "on_frames bq'"
    using ok sub dv pd unfolding fifo_ok_def on_frames_def by simp
  then have "fifo_ok bq'" using ok d(2) wi sub pd m by (auto simp: fifo_ok_def)
  moreover have "fifo bq' = drop n (fifo bq)"
  proof (rule nth_equalityI)
    show "length (fifo bq') = length (drop n (fifo bq))"
      using pd(7,8) wi by (auto simp: get_length_nat)
    show "fifo bq' ! k = drop n (fifo bq) ! k" if "k < length (fifo bq')" for k
      using that pd(7,8) wi m by (auto simp: fifo_def get_length_nat add.assoc)
  qed
  moreover have "\<not> pa_memblockq_prebuf_active bq'" if "n < pa_memblockq_get_length bq"
    using that pd by (auto simp: pa_memblockq_prebuf_active_def pa_memblockq_get_length_def split: if_splits)
  ultimately show ?thesis using d by blast
qed

lemma peek_present:
  assumes inv: "mq_inv bq" and np: "\<not> pa_memblockq_prebuf_active bq"
    and pr: "content (mq_pool bq) (mq_blocks bq) (mq_read_index bq) \<noteq> None"
  shows "\<exists>i c. i < length (mq_blocks bq) \<and> peek_ok bq c \<and>
    ch_length c = nat (li_end (mq_blocks bq ! i) - mq_read_index bq) \<and>
    pa_memblockq_peek bq = (bq\<lparr>mq_in_prebuf := False, mq_current_read := Some i,
      mq_pool := ref_chunk (mq_pool bq) c\<rparr>, Some c)"
proof -
  let ?xs = "mq_blocks bq" and ?ri = "mq_read_index bq" and ?b = "bq\<lparr>mq_in_prebuf := False\<rparr>"
  have ok: "blocks_ok ?xs" "cursors_ok bq" "blocks_backed bq" using inv by (simp_all add: mq_inv_def)
  have fx: "fix_current_read ?b = ?b\<lparr>mq_current_read := read_item ?xs ?ri\<rparr>"
    using fix_current_read_canonical [of ?b] ok by (simp add: cursors_ok_def)
  obtain i where i: "read_item ?xs ?ri = Some i"
    using pr content_None [of ?xs ?ri] read_item_NoneD by fastforce
  have at: "\<not> li_index (?xs ! i) > ?ri"
    using pr content_gap [OF ok(1) i, of ?ri "mq_pool bq"] by auto
  let ?c = "li_chunk (?xs ! i)" and ?d = "nat (?ri - li_index (?xs ! i))"
  let ?r = "?c\<lparr>ch_index := ch_index ?c + ?d, ch_length := ch_length ?c - ?d\<rparr>"
  have "pa_memblockq_peek bq = (bq\<lparr>mq_in_prebuf := False, mq_current_read := Some i,
      mq_pool := ref_chunk (mq_pool bq) ?r\<rparr>, Some ?r)"
    using np i at by (simp add: pa_memblockq_peek_def update_prebuf_eq fx Let_def ref_chunk_def)
  moreover have "ch_length ?r = nat (li_end (?xs ! i) - ?ri)" using at by (simp add: li_end_def)
  ultimately show ?thesis using peek_item [OF ok(1,3) i at] read_item_SomeD(1) [OF i] by blast
qed

lemma fifo_ok_frame:
  assumes "mq_blocks bq' = mq_blocks bq" "mq_n_blocks bq' = mq_n_blocks bq" "cursors_ok bq'"
    "mq_base bq' = mq_base bq" "mq_read_index bq' = mq_read_index bq"
    "mq_write_index bq' = mq_write_index bq" "mp_data (mq_pool bq') = mp_data (mq_pool bq)"
    "mp_next (mq_pool bq') = mp_next (mq_pool bq)"
  shows "fifo_ok bq \<Longrightarrow> fifo_ok bq'" "fifo bq' = fifo bq"
proof -
  have c: "content (mq_pool bq') = content (mq_pool bq)"
    using content_cong [OF assms(7)] by (simp add: fun_eq_iff)
  have "blocks_backed bq' = blocks_backed bq"
    using chunk_ok_cong [OF assms(7,8)] assms(1) by (simp add: blocks_backed_def)
  then show "fifo_ok bq \<Longrightarrow> fifo_ok bq'"
    using assms c by (simp add: fifo_ok_def mq_inv_def on_frames_def)
  show "fifo bq' = fifo bq" using assms c by (simp add: fifo_def get_length_nat)
qed

lemma peek_fifo:
  assumes ok: "fifo_ok bq" and np: "\<not> pa_memblockq_prebuf_active bq" and ne: "fifo bq \<noteq> []"
  shows "\<exists>i c rest. pa_memblockq_peek bq = (bq\<lparr>mq_in_prebuf := False, mq_current_read := Some i,
      mq_pool := ref_chunk (mq_pool bq) c\<rparr>, Some c) \<and> i < length (mq_blocks bq) \<and>
    chunk_ok (mq_pool bq) c \<and> 0 < ch_length c \<and> mq_base bq dvd ch_length c \<and>
    fifo bq = chunk_bytes (mq_pool bq) c @ rest"
proof -
  let ?p = "mq_pool bq" and ?xs = "mq_blocks bq" and ?ri = "mq_read_index bq"
  have lt: "?ri < mq_write_index bq" using ne by (auto simp: fifo_def get_length_nat)
  then have "content ?p ?xs ?ri \<noteq> None" using ok unfolding fifo_ok_def by blast
  moreover have "mq_inv bq" using ok by (simp add: fifo_ok_def)
  ultimately obtain i c where pk: "i < length ?xs" "peek_ok bq c"
    "ch_length c = nat (li_end (?xs ! i) - ?ri)"
    "pa_memblockq_peek bq = (bq\<lparr>mq_in_prebuf := False, mq_current_read := Some i,
      mq_pool := ref_chunk ?p c\<rparr>, Some c)"
    using peek_present [OF _ np] by blast
  have c: "chunk_ok ?p c" "0 < ch_length c"
    "\<And>k. k < ch_length c \<Longrightarrow> content ?p ?xs (?ri + int k) = Some (chunk_bytes ?p c ! k)"
    using pk(2) by (simp_all add: peek_ok_def Let_def)
  have fr: "li_end (?xs ! i) \<le> mq_write_index bq" "int (mq_base bq) dvd li_index (?xs ! i) - ?ri"
    "mq_base bq dvd ch_length (li_chunk (?xs ! i))"
    using ok pk(1) by (auto simp: fifo_ok_def on_frames_def)
  have "int (mq_base bq) dvd (li_index (?xs ! i) - ?ri) + int (ch_length (li_chunk (?xs ! i)))"
    using fr by (intro dvd_add) simp_all
  then have dv: "mq_base bq dvd ch_length c"
    using pk(3) c(2) by (simp add: li_end_def nat_dvd_iff diff_add_eq)
      (metis int_dvd_int_iff int_nat_eq dvd_0_right)
  have "take (ch_length c) (fifo bq) = chunk_bytes ?p c"
    using c fr(1) pk(3) length_chunk_bytes [OF c(1)]
    by (intro nth_equalityI) (auto simp: fifo_def get_length_nat)
  then have "fifo bq = chunk_bytes ?p c @ drop (ch_length c) (fifo bq)"
    by (metis append_take_drop_id)
  then show ?thesis using pk c dv by blast
qed

interpretation memblockq: byte_queue fifo_ok fifo mq_maxlength
  "\<lambda>bq. \<not> pa_memblockq_prebuf_active bq" mq_base pushable "\<lambda>bq. chunk_bytes (mq_pool bq)"
  pa_memblockq_push pa_memblockq_peek pa_memblockq_drop
proof
  fix q c
  assume q: "fifo_ok q" and c: "pushable q c"
  have L: "length (chunk_bytes (mq_pool q) c) = ch_length c"
    using c length_chunk_bytes by (simp add: pushable_def)
  show "\<exists>q'. pa_memblockq_push q c = Some (q', 0) \<and> fifo_ok q' \<and>
      fifo q' = fifo q @ chunk_bytes (mq_pool q) c \<and> mq_maxlength q' = mq_maxlength q \<and>
      pushable q' = pushable q \<and> chunk_bytes (mq_pool q') = chunk_bytes (mq_pool q)"
    if room: "length (fifo q) + length (chunk_bytes (mq_pool q) c) \<le> mq_maxlength q"
  proof -
    obtain q' where q': "pa_memblockq_push q c = Some (q', 0)" "fifo_ok q'"
      "fifo q' = fifo q @ chunk_bytes (mq_pool q) c"
      "mq_params q' = mq_params (q\<lparr>mq_write_index := mq_write_index q + int (ch_length c),
        mq_requested := mq_requested q - int (ch_length c)\<rparr>)"
      using push_fifo [OF q c] room L by auto
    note pd = mq_paramsD [OF q'(4), simplified]
    have "pushable q' = pushable q" "chunk_bytes (mq_pool q') = chunk_bytes (mq_pool q)"
      using pd chunk_ok_cong [OF pd(14,15)] chunk_bytes_cong [of _ "mq_pool q'" "mq_pool q"]
      by (auto simp: fun_eq_iff pushable_def)
    then show ?thesis using q' pd by blast
  qed
  show "pa_memblockq_push q c = Some (q, - 1)"
    if "mq_maxlength q < length (fifo q) + length (chunk_bytes (mq_pool q) c)"
  proof -
    have "\<not> can_push q (ch_length c)"
      using fifo_room [OF q, of "ch_length c"] that L c by (simp add: pushable_def)
    then show ?thesis using c
      by (auto simp: pa_memblockq_push_def pushable_def chunk_ok_def pa_memblock_get_length_def
          dvd_eq_mod_eq_0 split: option.splits)
  qed
next
  fix q
  assume q: "fifo_ok q" "\<not> pa_memblockq_prebuf_active q" "fifo q \<noteq> []"
  obtain i c rest where p: "pa_memblockq_peek q = (q\<lparr>mq_in_prebuf := False, mq_current_read := Some i,
      mq_pool := ref_chunk (mq_pool q) c\<rparr>, Some c)" "i < length (mq_blocks q)"
    "chunk_ok (mq_pool q) c" "0 < ch_length c" "mq_base q dvd ch_length c"
    "fifo q = chunk_bytes (mq_pool q) c @ rest"
    using peek_fifo [OF q] by blast
  let ?q = "q\<lparr>mq_in_prebuf := False, mq_current_read := Some i, mq_pool := ref_chunk (mq_pool q) c\<rparr>"
  have "cursors_ok ?q" using q(1) p(2) by (simp add: fifo_ok_def mq_inv_def cursors_ok_def)
  then have "fifo_ok ?q" "fifo ?q = fifo q"
    using fifo_ok_frame [of ?q q] q(1) by simp_all
  moreover have "\<not> pa_memblockq_prebuf_active ?q"
    using q(3) by (auto simp: pa_memblockq_prebuf_active_def fifo_def get_length_nat)
  moreover have "length (chunk_bytes (mq_pool q) c) = ch_length c"
    by (rule length_chunk_bytes [OF p(3)])
  moreover have "chunk_bytes (mq_pool ?q) = chunk_bytes (mq_pool q)" by (simp add: fun_eq_iff)
  ultimately show "\<exists>q' c. pa_memblockq_peek q = (q', Some c) \<and> fifo_ok q' \<and>
      \<not> pa_memblockq_prebuf_active q' \<and> fifo q' = fifo q \<and>
      mq_base q' dvd length (chunk_bytes (mq_pool q') c) \<and> chunk_bytes (mq_pool q') c \<noteq> [] \<and>
      (\<exists>rest. fifo q = chunk_bytes (mq_pool q') c @ rest) \<and>
      chunk_bytes (mq_pool q') = chunk_bytes (mq_pool q)"
    using p by (intro exI [of _ ?q] exI [of _ c]) auto
next
  fix q n
  assume q: "fifo_ok q" "\<not> pa_memblockq_prebuf_active q" "mq_base q dvd n" "0 < n" "n \<le> length (fifo q)"
  then obtain q' where q': "pa_memblockq_drop q n = Some q'" "fifo_ok q'" "fifo q' = drop n (fifo q)"
    "n < pa_memblockq_get_length q \<longrightarrow> \<not> pa_memblockq_prebuf_active q'"
    "mq_params q' = mq_params (q\<lparr>mq_read_index := mq_read_index q + int n, mq_in_prebuf := False,
      mq_missing := mq_missing q + int n\<rparr>)"
    using drop_fifo [of q n] by auto
  note pd = mq_paramsD [OF q'(5), simplified]
  have "chunk_bytes (mq_pool q') = chunk_bytes (mq_pool q)"
    using chunk_bytes_cong [of _ "mq_pool q'" "mq_pool q"] pd by (auto simp: fun_eq_iff)
  then show "\<exists>q'. pa_memblockq_drop q n = Some q' \<and> fifo_ok q' \<and> fifo q' = drop n (fifo q) \<and>
      (n < length (fifo q) \<longrightarrow> \<not> pa_memblockq_prebuf_active q') \<and>
      chunk_bytes (mq_pool q') = chunk_bytes (mq_pool q)"
    using q' by auto
qed

end
