(* ===== verification/Memblockq_Control.thy ===== *)
theory Memblockq_Control
  imports Memblockq_Stream
begin

text \<open>
  Buffer attributes and flow control of a queue: the setters keep the attributes consistent,
  every operation keeps the invariant and the equation between fill level, requested and
  missing bytes, and so every reachable state satisfies them.
\<close>

subsection \<open>Buffer attributes\<close>

definition attr_len :: "pa_memblockq \<Rightarrow> bool" where
  "attr_len bq \<longleftrightarrow> 0 < mq_base bq \<and> mq_base bq \<le> mq_maxlength bq \<and> mq_base bq dvd mq_maxlength bq \<and>
     mq_maxlength bq + mq_base bq < 2 ^ 64 \<and> mq_base bq dvd mq_minreq bq \<and> mq_base bq dvd mq_prebuf bq"

definition attr_ok :: "pa_memblockq \<Rightarrow> bool" where
  "attr_ok bq \<longleftrightarrow> attr_len bq \<and> mq_base bq \<le> mq_tlength bq \<and> mq_tlength bq \<le> mq_maxlength bq \<and>
     mq_base bq dvd mq_tlength bq \<and> mq_minreq bq \<le> mq_tlength bq \<and>
     mq_prebuf bq \<le> mq_tlength bq + mq_base bq - mq_minreq bq"

lemma round_up_base_eq: "x + b < 2 ^ 64 \<Longrightarrow> 0 < b \<Longrightarrow> round_up_base x b = (x + b - 1) div b * b"
  by (simp add: round_up_base_def size_add_id size_sub_id)

lemma round_up_base_props:
  assumes "x + b < 2 ^ 64" "0 < b"
  shows "b dvd round_up_base x b" "x \<le> round_up_base x b" "round_up_base x b < x + b"
    "0 < x \<Longrightarrow> b \<le> round_up_base x b" "b dvd x \<Longrightarrow> round_up_base x b = x"
proof -
  have e: "round_up_base x b = (x + b - 1) div b * b" using assms by (rule round_up_base_eq)
  have d: "(x + b - 1) div b * b + (x + b - 1) mod b = x + b - 1" by simp
  have m: "(x + b - 1) mod b < b" using assms(2) by simp
  show dv: "b dvd round_up_base x b" by (simp add: e)
  show le: "x \<le> round_up_base x b" using d m assms(2) unfolding e by linarith
  show lt: "round_up_base x b < x + b" using d assms(2) unfolding e by linarith
  show "b \<le> round_up_base x b" if "0 < x" using dv le that by (intro dvd_imp_le) simp_all
  show "round_up_base x b = x" if "b dvd x"
  proof -
    have "b dvd round_up_base x b - x" using dv that by (simp add: dvd_diff_nat)
    moreover have "round_up_base x b - x < b" using lt le by simp
    ultimately show ?thesis using le by (metis dvd_imp_le le_antisym diff_is_0_eq linorder_not_le neq0_conv)
  qed
qed

lemma round_down_base_props: "b dvd round_down_base x b" "round_down_base x b \<le> x"
  by (simp_all add: round_down_base_def)

lemma prebuf_limit_eq:
  "mq_tlength bq + mq_base bq < 2 ^ 64 \<Longrightarrow> mq_minreq bq \<le> mq_tlength bq \<Longrightarrow>
     prebuf_limit bq = mq_tlength bq + mq_base bq - mq_minreq bq"
  by (simp add: prebuf_limit_def size_add_id size_sub_id)

definition mq_store :: "pa_memblockq \<Rightarrow> list_item list \<times> (nat option \<times> nat option) \<times> nat \<times> nat \<times>
    pa_memchunk \<times> pa_mcalign \<times> (int \<times> int) \<times> int \<times> pa_mempool" where
  "mq_store bq = (mq_blocks bq, (mq_current_read bq, mq_current_write bq), mq_n_blocks bq, mq_base bq,
     mq_silence bq, mq_mcalign bq, (mq_read_index bq, mq_write_index bq), mq_requested bq, mq_pool bq)"

lemma mq_storeD:
  assumes "mq_store a = mq_store b"
  shows "mq_blocks a = mq_blocks b" "mq_current_read a = mq_current_read b"
    "mq_current_write a = mq_current_write b" "mq_n_blocks a = mq_n_blocks b" "mq_base a = mq_base b"
    "mq_silence a = mq_silence b" "mq_mcalign a = mq_mcalign b" "mq_read_index a = mq_read_index b"
    "mq_write_index a = mq_write_index b" "mq_requested a = mq_requested b" "mq_pool a = mq_pool b"
  using assms by (simp_all add: mq_store_def)

lemma mq_inv_store:
  assumes "mq_store a = mq_store b"
  shows "mq_inv a = mq_inv b"
  using mq_storeD [OF assms] by (simp add: mq_inv_def cursors_ok_def blocks_backed_def)

lemma set_prebuf_frame:
  "mq_store (pa_memblockq_set_prebuf bq n) = mq_store bq"
  "mq_tlength (pa_memblockq_set_prebuf bq n) = mq_tlength bq"
  "mq_maxlength (pa_memblockq_set_prebuf bq n) = mq_maxlength bq"
  "mq_minreq (pa_memblockq_set_prebuf bq n) = mq_minreq bq"
  "mq_missing (pa_memblockq_set_prebuf bq n) = mq_missing bq"
  "mq_base (pa_memblockq_set_prebuf bq n) = mq_base bq"
  by (simp_all add: pa_memblockq_set_prebuf_def Let_def mq_store_def)

lemma set_minreq_frame:
  "mq_store (pa_memblockq_set_minreq bq n) = mq_store bq"
  "mq_tlength (pa_memblockq_set_minreq bq n) = mq_tlength bq"
  "mq_maxlength (pa_memblockq_set_minreq bq n) = mq_maxlength bq"
  "mq_missing (pa_memblockq_set_minreq bq n) = mq_missing bq"
  "mq_base (pa_memblockq_set_minreq bq n) = mq_base bq"
  by (simp_all add: pa_memblockq_set_minreq_def Let_def set_prebuf_frame)
     (simp add: mq_store_def)

lemma prebuf_arg_ok:
  fixes n :: nat
  assumes "attr_len bq" "mq_tlength bq \<le> mq_maxlength bq" "mq_minreq bq \<le> mq_tlength bq"
    "mq_base bq dvd mq_tlength bq"
  shows "prebuf_limit bq = mq_tlength bq + mq_base bq - mq_minreq bq"
    "mq_base bq dvd prebuf_limit bq" "prebuf_limit bq + mq_minreq bq = mq_tlength bq + mq_base bq"
proof -
  have "mq_tlength bq + mq_base bq < 2 ^ 64" using assms(1,2) by (simp add: attr_len_def)
  then show e: "prebuf_limit bq = mq_tlength bq + mq_base bq - mq_minreq bq"
    using assms(3) by (rule prebuf_limit_eq)
  show "mq_base bq dvd prebuf_limit bq"
    using assms unfolding e by (simp add: attr_len_def dvd_diff_nat)
  show "prebuf_limit bq + mq_minreq bq = mq_tlength bq + mq_base bq" using assms(3) e by simp
qed

lemma set_prebuf_ok:
  assumes len: "attr_len bq" and t: "mq_tlength bq \<le> mq_maxlength bq" "mq_minreq bq \<le> mq_tlength bq"
    "mq_base bq dvd mq_tlength bq" "mq_base bq \<le> mq_tlength bq"
  shows "attr_ok (pa_memblockq_set_prebuf bq n)"
proof -
  let ?b = "pa_memblockq_set_prebuf bq n"
  note l = prebuf_arg_ok [OF len t(1,2,3)]
  have lim: "prebuf_limit (bq\<lparr>mq_prebuf := v\<rparr>) = prebuf_limit bq" for v by (simp add: prebuf_limit_def)
  have "mq_prebuf ?b \<le> prebuf_limit bq \<and> (mq_base bq dvd mq_prebuf ?b)"
    using l(2) by (auto simp: pa_memblockq_set_prebuf_def Let_def lim round_up_base_def)
  then show ?thesis
    using len t l(1) by (simp add: attr_ok_def attr_len_def set_prebuf_frame)
qed

lemma set_minreq_ok:
  assumes len: "attr_len bq" and t: "mq_tlength bq \<le> mq_maxlength bq" "mq_base bq \<le> mq_tlength bq"
    "mq_base bq dvd mq_tlength bq"
  shows "attr_ok (pa_memblockq_set_minreq bq n)"
    and "mq_base bq \<le> mq_minreq (pa_memblockq_set_minreq bq n)"
proof -
  define m where "m = (let m = round_down_base n (mq_base bq);
    m = (if m > mq_tlength bq then mq_tlength bq else m) in if m < mq_base bq then mq_base bq else m)"
  let ?b = "bq\<lparr>mq_minreq := m\<rparr>"
  have m: "mq_base bq dvd m" "m \<le> mq_tlength bq" "mq_base bq \<le> m"
    using t by (auto simp: m_def Let_def round_down_base_def)
  have e: "pa_memblockq_set_minreq bq n = (if mq_prebuf bq > prebuf_limit ?b
      then pa_memblockq_set_prebuf ?b (prebuf_limit ?b) else ?b)"
    by (simp add: pa_memblockq_set_minreq_def m_def Let_def)
  have len': "attr_len ?b" using len m(1) by (simp add: attr_len_def)
  have "attr_ok (pa_memblockq_set_prebuf ?b k)" for k
    using set_prebuf_ok [OF len'] t m by simp
  moreover have "attr_ok ?b" if "mq_prebuf bq \<le> prebuf_limit ?b"
    using that prebuf_arg_ok(1) [OF len'] len' t m by (simp add: attr_ok_def)
  ultimately show "attr_ok (pa_memblockq_set_minreq bq n)" by (simp add: e)
  show "mq_base bq \<le> mq_minreq (pa_memblockq_set_minreq bq n)"
    using m(3) by (simp add: e set_prebuf_frame)
qed

definition length_arg :: "pa_memblockq \<Rightarrow> nat \<Rightarrow> bool" where
  "length_arg bq n \<longleftrightarrow> n + mq_base bq < 2 ^ 64"

lemma set_tlength_ok:
  assumes len: "attr_len bq" and n: "n = SIZE_MAX \<or> length_arg bq n"
  shows "attr_ok (pa_memblockq_set_tlength bq n)"
    and "mq_base bq \<le> mq_minreq bq \<Longrightarrow> mq_base bq \<le> mq_minreq (pa_memblockq_set_tlength bq n)"
    and "mq_store (pa_memblockq_set_tlength bq n) = mq_store bq"
    and "mq_missing (pa_memblockq_set_tlength bq n) =
      mq_missing bq + (int (mq_tlength (pa_memblockq_set_tlength bq n)) - int (mq_tlength bq))"
    and "mq_maxlength (pa_memblockq_set_tlength bq n) = mq_maxlength bq"
proof -
  define n' where "n' = (if n \<le> 0 \<or> n = SIZE_MAX then mq_maxlength bq else n)"
  define t where "t = (if round_up_base n' (mq_base bq) > mq_maxlength bq then mq_maxlength bq
    else round_up_base n' (mq_base bq))"
  let ?a = "bq\<lparr>mq_tlength := t\<rparr>"
  define b where "b = (if mq_minreq bq > t then pa_memblockq_set_minreq ?a t else ?a)"
  define c where "c = (if mq_prebuf b > prebuf_limit b
    then pa_memblockq_set_prebuf b (prebuf_limit b) else b)"
  have n'0: "0 < n'" "n' + mq_base bq < 2 ^ 64"
    using len n by (auto simp: n'_def attr_len_def length_arg_def)
  have t: "mq_base bq dvd t" "t \<le> mq_maxlength bq" "mq_base bq \<le> t"
    using round_up_base_props [OF n'0(2)] n'0(1) len by (auto simp: t_def attr_len_def)
  have len': "attr_len ?a" using len by (simp add: attr_len_def)
  have sa: "mq_store ?a = mq_store bq" by (simp add: mq_store_def)
  note sm = set_minreq_ok [OF len', simplified, OF t(2,3,1)]
  have b: "attr_len b" "mq_minreq b \<le> t" "mq_base bq \<le> mq_minreq bq \<Longrightarrow> mq_base bq \<le> mq_minreq b"
    "mq_store b = mq_store bq" "mq_tlength b = t" "mq_maxlength b = mq_maxlength bq" "mq_base b = mq_base bq"
    "mq_missing b = mq_missing bq"
    using sm len' by (simp_all add: b_def set_minreq_frame attr_ok_def sa)
  have c: "attr_ok c" "mq_minreq c = mq_minreq b" "mq_store c = mq_store bq" "mq_tlength c = t"
    "mq_maxlength c = mq_maxlength bq" "mq_missing c = mq_missing bq"
    using set_prebuf_ok [OF b(1)] prebuf_arg_ok(1) [OF b(1)] b t
    by (auto simp: c_def set_prebuf_frame attr_ok_def)
  have "pa_memblockq_set_tlength bq n =
      c\<lparr>mq_missing := mq_missing c + (int (mq_tlength c) - int (mq_tlength bq))\<rparr>"
    unfolding pa_memblockq_set_tlength_def n'_def [symmetric] Let_def
    by (cases "round_up_base n' (mq_base bq) > mq_maxlength bq") (simp_all add: t_def b_def c_def)
  then have e: "pa_memblockq_set_tlength bq n =
      c\<lparr>mq_missing := mq_missing bq + (int t - int (mq_tlength bq))\<rparr>"
    using c(4,6) by simp
  show "attr_ok (pa_memblockq_set_tlength bq n)"
    using c(1) by (simp add: e attr_ok_def attr_len_def)
  show "mq_base bq \<le> mq_minreq bq \<Longrightarrow> mq_base bq \<le> mq_minreq (pa_memblockq_set_tlength bq n)"
    using b(3) c(2) by (simp add: e)
  show "mq_store (pa_memblockq_set_tlength bq n) = mq_store bq"
    using c(3) by (simp add: e mq_store_def)
  show "mq_missing (pa_memblockq_set_tlength bq n) =
      mq_missing bq + (int (mq_tlength (pa_memblockq_set_tlength bq n)) - int (mq_tlength bq))"
    using c(4) by (simp add: e)
  show "mq_maxlength (pa_memblockq_set_tlength bq n) = mq_maxlength bq" using c(5) by (simp add: e)
qed

lemma set_maxlength_ok:
  assumes ok: "attr_ok bq" "mq_base bq \<le> mq_minreq bq" and n: "n + 2 * mq_base bq < 2 ^ 64"
  shows "attr_ok (pa_memblockq_set_maxlength bq n)"
    and "mq_base bq \<le> mq_minreq (pa_memblockq_set_maxlength bq n)"
    and "mq_store (pa_memblockq_set_maxlength bq n) = mq_store bq"
    and "mq_missing (pa_memblockq_set_maxlength bq n) =
      mq_missing bq + (int (mq_tlength (pa_memblockq_set_maxlength bq n)) - int (mq_tlength bq))"
proof -
  define m where "m = (if round_up_base n (mq_base bq) < mq_base bq then mq_base bq
    else round_up_base n (mq_base bq))"
  let ?a = "bq\<lparr>mq_maxlength := m\<rparr>"
  have b0: "0 < mq_base bq" using ok(1) by (simp add: attr_ok_def attr_len_def)
  have "round_up_base n (mq_base bq) < n + mq_base bq" "mq_base bq dvd round_up_base n (mq_base bq)"
    using round_up_base_props(1,3) [of n "mq_base bq"] b0 n by simp_all
  then have m: "mq_base bq dvd m" "mq_base bq \<le> m" "m + mq_base bq < 2 ^ 64"
    using n by (auto simp: m_def)
  have len: "attr_len ?a" using ok m by (simp add: attr_ok_def attr_len_def)
  have sa: "mq_store ?a = mq_store bq" by (simp add: mq_store_def)
  have e: "pa_memblockq_set_maxlength bq n =
      (if mq_tlength bq > m then pa_memblockq_set_tlength ?a m else ?a)"
    unfolding pa_memblockq_set_maxlength_def Let_def
    by (cases "round_up_base n (mq_base bq) < mq_base bq") (simp_all add: m_def)
  have arg: "m = SIZE_MAX \<or> length_arg ?a m" using m(3) by (simp add: length_arg_def)
  note st = set_tlength_ok [OF len arg]
  have "attr_ok ?a" if "mq_tlength bq \<le> m" using ok(1) len that by (simp add: attr_ok_def)
  then show "attr_ok (pa_memblockq_set_maxlength bq n)" using st(1) by (simp add: e)
  show "mq_base bq \<le> mq_minreq (pa_memblockq_set_maxlength bq n)" using st(2) ok(2) by (simp add: e)
  show "mq_store (pa_memblockq_set_maxlength bq n) = mq_store bq" using st(3) sa by (simp add: e)
  show "mq_missing (pa_memblockq_set_maxlength bq n) =
      mq_missing bq + (int (mq_tlength (pa_memblockq_set_maxlength bq n)) - int (mq_tlength bq))"
    using st(4) by (simp add: e)
qed

subsection \<open>Flow control\<close>

text \<open>
  What the queue still wants from its client: the bytes requested and the bytes missing but not
  yet requested make up the difference between the target length and the fill level.
\<close>

definition balanced :: "pa_memblockq \<Rightarrow> bool" where
  "balanced bq \<longleftrightarrow> (mq_write_index bq - mq_read_index bq) + mq_requested bq + mq_missing bq =
     int (mq_tlength bq)"

definition settings_ok :: "pa_memblockq \<Rightarrow> bool" where
  "settings_ok bq \<longleftrightarrow> attr_ok bq \<and> mq_base bq \<le> mq_minreq bq \<and> balanced bq"

lemma balanced_retarget:
  assumes "mq_store bq' = mq_store bq"
    "mq_missing bq' = mq_missing bq + (int (mq_tlength bq') - int (mq_tlength bq))"
  shows "balanced bq' = balanced bq"
  using assms by (auto simp: balanced_def mq_store_def)

lemma setters_keep:
  assumes "settings_ok bq"
  shows "n + 2 * mq_base bq < 2 ^ 64 \<Longrightarrow> settings_ok (pa_memblockq_set_maxlength bq n)"
    and "n = SIZE_MAX \<or> length_arg bq n \<Longrightarrow> settings_ok (pa_memblockq_set_tlength bq n)"
    and "settings_ok (pa_memblockq_set_minreq bq n)"
    and "settings_ok (pa_memblockq_set_prebuf bq n)"
    and "settings_ok (pa_memblockq_set_maxrewind bq n)"
proof -
  have ok: "attr_ok bq" "mq_base bq \<le> mq_minreq bq" "balanced bq" "attr_len bq"
    using assms by (simp_all add: settings_ok_def attr_ok_def)
  have t: "mq_tlength bq \<le> mq_maxlength bq" "mq_base bq \<le> mq_tlength bq" "mq_base bq dvd mq_tlength bq"
    "mq_minreq bq \<le> mq_tlength bq"
    using ok(1) by (simp_all add: attr_ok_def)
  show "settings_ok (pa_memblockq_set_maxlength bq n)" if "n + 2 * mq_base bq < 2 ^ 64"
  proof -
    note s = set_maxlength_ok [OF ok(1,2) that]
    show ?thesis
      using s(1,2) mq_storeD(5) [OF s(3)] balanced_retarget [OF s(3,4)] ok(3) by (simp add: settings_ok_def)
  qed
  show "settings_ok (pa_memblockq_set_tlength bq n)" if "n = SIZE_MAX \<or> length_arg bq n"
  proof -
    note s = set_tlength_ok [OF ok(4) that]
    show ?thesis
      using s(1,2) ok(2) mq_storeD(5) [OF s(3)] balanced_retarget [OF s(3,4)] ok(3)
      by (simp add: settings_ok_def)
  qed
  show "settings_ok (pa_memblockq_set_minreq bq n)"
    using set_minreq_ok [OF ok(4) t(1,2,3)] balanced_retarget [of "pa_memblockq_set_minreq bq n" bq] ok(3)
    by (simp add: settings_ok_def set_minreq_frame)
  show "settings_ok (pa_memblockq_set_prebuf bq n)"
    using set_prebuf_ok [OF ok(4) t(1,4,3,2)] balanced_retarget [of "pa_memblockq_set_prebuf bq n" bq] ok
    by (simp add: settings_ok_def set_prebuf_frame)
  show "settings_ok (pa_memblockq_set_maxrewind bq n)"
    using assms by (simp add: settings_ok_def pa_memblockq_set_maxrewind_def attr_ok_def attr_len_def
        balanced_def)
qed

lemma setters_store:
  assumes "settings_ok bq"
  shows "n + 2 * mq_base bq < 2 ^ 64 \<Longrightarrow> mq_store (pa_memblockq_set_maxlength bq n) = mq_store bq"
    and "n = SIZE_MAX \<or> length_arg bq n \<Longrightarrow> mq_store (pa_memblockq_set_tlength bq n) = mq_store bq"
    and "mq_store (pa_memblockq_set_minreq bq n) = mq_store bq"
    and "mq_store (pa_memblockq_set_prebuf bq n) = mq_store bq"
    and "mq_store (pa_memblockq_set_maxrewind bq n) = mq_store bq"
  using assms set_maxlength_ok(3) set_tlength_ok(3)
  by (simp_all add: settings_ok_def attr_ok_def set_minreq_frame set_prebuf_frame)
     (simp add: mq_store_def pa_memblockq_set_maxrewind_def)

lemma apply_attr_ok:
  assumes ok: "settings_ok bq" and a: "ba_maxlength a + 2 * mq_base bq < 2 ^ 64"
    "ba_tlength a = SIZE_MAX \<or> length_arg bq (ba_tlength a)"
  shows "settings_ok (pa_memblockq_apply_attr bq a) \<and>
    mq_store (pa_memblockq_apply_attr bq a) = mq_store bq"
proof -
  let ?b = "pa_memblockq_set_maxlength bq (ba_maxlength a)"
  have b: "settings_ok ?b" "mq_store ?b = mq_store bq"
    using setters_keep(1) [OF ok a(1)] setters_store(1) [OF ok a(1)] by simp_all
  have "ba_tlength a = SIZE_MAX \<or> length_arg ?b (ba_tlength a)"
    using a(2) mq_storeD(5) [OF b(2)] by (simp add: length_arg_def)
  note t = setters_keep(2) [OF b(1) this] setters_store(2) [OF b(1) this]
  note m = setters_keep(3) [OF t(1), of "ba_minreq a"] setters_store(3) [OF t(1), of "ba_minreq a"]
  show ?thesis
    using setters_keep(4) [OF m(1)] setters_store(4) [OF m(1)] m(2) t(2) b(2)
    by (simp add: pa_memblockq_apply_attr_def)
qed

subsection \<open>Every operation keeps the invariant\<close>

definition queue_ok :: "pa_memblockq \<Rightarrow> bool" where
  "queue_ok bq \<longleftrightarrow> mq_inv bq \<and> settings_ok bq"

lemma settings_params:
  assumes "mq_params a = mq_params b"
  shows "settings_ok a = settings_ok b"
  using mq_paramsD [OF assms] by (simp add: settings_ok_def attr_ok_def attr_len_def balanced_def)

lemma chunk_ok_ref_chunk [simp]:
  "chunk_ok (ref_chunk p d) c = chunk_ok p c" "chunk_ok (unref_chunk p d) c = chunk_ok p c"
  by (rule chunk_ok_cong, simp, simp)+

lemma mq_inv_params:
  assumes "book_ok f bq'" "mq_params bq' = mq_params bq''" "mq_base bq'' = mq_base bq"
    "mq_pool bq'' = mq_pool bq" "set (mq_blocks bq') \<subseteq> set (mq_blocks bq)"
    "blocks_ok (mq_blocks bq')" "mq_inv bq"
  shows "mq_inv bq'"
proof -
  note pd = mq_paramsD [OF assms(2)]
  have "blocks_backed bq'"
    using assms(4,5,7) pd(14,15) chunk_ok_cong [of "mq_pool bq'" "mq_pool bq"]
    by (auto simp: mq_inv_def blocks_backed_def)
  then show ?thesis using mq_inv_intro [OF assms(6,1)] assms(3,7) pd(3) by (simp add: mq_inv_def)
qed

lemma push_keeps:
  assumes ok: "queue_ok bq" and c: "chunk_ok (mq_pool bq) c" and p: "pa_memblockq_push bq c = Some (bq', r)"
  shows "queue_ok bq'"
proof (cases "can_push bq (ch_length c)")
  case True
  have "0 < ch_length c" "mq_base bq dvd ch_length c" "mq_base bq dvd ch_index c"
    using p by (auto simp: pa_memblockq_push_def dvd_eq_mod_eq_0 split: option.splits bind_splits)
  then obtain bq'' where "pa_memblockq_push bq c = Some (bq'', 0)" "mq_inv bq''"
    "mq_params bq'' = mq_params (bq\<lparr>mq_write_index := mq_write_index bq + int (ch_length c),
      mq_requested := mq_requested bq - int (ch_length c)\<rparr>)"
    using push_inv [OF _ c _ _ _ True] ok by (auto simp: queue_ok_def)
  then show ?thesis using ok p settings_params [of bq'']
    by (auto simp: queue_ok_def settings_ok_def attr_ok_def attr_len_def balanced_def)
next
  case False
  then show ?thesis using ok p by (auto simp: pa_memblockq_push_def split: bind_splits)
qed

lemma fix_current_read_inv: "mq_inv bq \<Longrightarrow> mq_inv (fix_current_read bq)"
  using read_item_SomeD(1) by (fastforce simp: mq_inv_def fix_current_read_canonical cursors_ok_def
      blocks_backed_def)

lemma mq_inv_frame [simp]:
  "mq_inv (bq\<lparr>mq_in_prebuf := v\<rparr>) = mq_inv bq"
  "mq_inv (bq\<lparr>mq_read_index := ri\<rparr>) = mq_inv bq"
  "mq_inv (bq\<lparr>mq_write_index := wi\<rparr>) = mq_inv bq"
  "mq_inv (bq\<lparr>mq_missing := m\<rparr>) = mq_inv bq"
  "mq_inv (bq\<lparr>mq_requested := m\<rparr>) = mq_inv bq"
  "mq_inv (bq\<lparr>mq_silence := c\<rparr>) = mq_inv bq"
  "mq_inv (bq\<lparr>mq_pool := ref_chunk (mq_pool bq) d\<rparr>) = mq_inv bq"
  "mq_inv (bq\<lparr>mq_pool := unref_chunk (mq_pool bq) d\<rparr>) = mq_inv bq"
  by (simp_all add: mq_inv_def cursors_ok_def blocks_backed_def)

lemma settings_frame [simp]:
  "settings_ok (bq\<lparr>mq_in_prebuf := v\<rparr>) = settings_ok bq"
  "settings_ok (bq\<lparr>mq_silence := c\<rparr>) = settings_ok bq"
  "settings_ok (bq\<lparr>mq_pool := p\<rparr>) = settings_ok bq"
  "settings_ok (bq\<lparr>mq_current_read := i\<rparr>) = settings_ok bq"
  by (simp_all add: settings_ok_def attr_ok_def attr_len_def balanced_def)

lemma fix_current_read_settings [simp]: "settings_ok (fix_current_read bq) = settings_ok bq"
  by (simp add: fix_current_read_def Let_def)

lemma peek_keeps:
  assumes "queue_ok bq"
  shows "queue_ok (fst (pa_memblockq_peek bq))"
proof -
  let ?b = "fix_current_read (bq\<lparr>mq_in_prebuf := False\<rparr>)"
  have "queue_ok (fst (peek_silence ?b l))" for l
    using assms fix_current_read_inv [of "bq\<lparr>mq_in_prebuf := False\<rparr>"] mq_inv_frame(7) [of ?b]
    by (simp add: queue_ok_def peek_silence_def Let_def)
  moreover have "queue_ok (?b\<lparr>mq_pool := ref_chunk (mq_pool ?b) c\<rparr>)" for c
    using assms fix_current_read_inv [of "bq\<lparr>mq_in_prebuf := False\<rparr>"]
      mq_inv_frame(7) [of ?b] by (simp add: queue_ok_def)
  ultimately show ?thesis
    using assms
    by (auto simp: pa_memblockq_peek_def update_prebuf_eq Let_def queue_ok_def split: option.split)
qed

lemma drop_round_frame:
  assumes "blocks_ok (mq_blocks bq)" "book_ok f bq" "0 < len"
  shows "mq_blocks (fst (drop_round bq len)) = mq_blocks bq \<and> book_ok f (fst (drop_round bq len)) \<and>
    (\<exists>ri pb. mq_params (fst (drop_round bq len)) =
       mq_params (bq\<lparr>mq_read_index := ri, mq_in_prebuf := pb\<rparr>))"
proof (cases "pa_memblockq_prebuf_active bq")
  case True
  then have "fst (drop_round bq len) = bq\<lparr>mq_in_prebuf := True\<rparr>"
    by (simp add: drop_round_def update_prebuf_eq)
  then show ?thesis using assms(2)
    by (intro conjI exI [of _ "mq_read_index bq"] exI [of _ True]) (simp_all add: mq_params_def)
next
  case False
  obtain bq' r where "drop_round bq len = (bq', r)" by fastforce
  with drop_round_spec [OF assms(1,2) False this assms(3)] show ?thesis by auto
qed

lemma drop_loop_frame:
  assumes "blocks_ok (mq_blocks bq)" "book_ok f bq"
  shows "mq_blocks (drop_loop bq len) = mq_blocks bq \<and> book_ok f (drop_loop bq len) \<and>
    (\<exists>ri pb. mq_params (drop_loop bq len) = mq_params (bq\<lparr>mq_read_index := ri, mq_in_prebuf := pb\<rparr>))"
  using assms
proof (induction bq len rule: drop_loop.induct)
  case (1 bq len)
  show ?case
  proof (cases "0 < len")
    case True
    let ?b = "fst (drop_round bq len)" and ?l = "drop_loop bq len"
    note r = drop_round_frame [OF 1(2,3) True]
    then have "blocks_ok (mq_blocks ?b)" "book_ok f ?b" using 1(2) by simp_all
    from 1(1) [OF True this] have l: "mq_blocks ?l = mq_blocks ?b" "book_ok f ?l"
      "\<exists>ri pb. mq_params ?l = mq_params (?b\<lparr>mq_read_index := ri, mq_in_prebuf := pb\<rparr>)"
      using True by (simp_all add: drop_loop.simps [of bq])
    obtain ri' pb' where r': "mq_params ?b = mq_params (bq\<lparr>mq_read_index := ri', mq_in_prebuf := pb'\<rparr>)"
      using r by blast
    have "mq_params (?b\<lparr>mq_read_index := ri, mq_in_prebuf := pb\<rparr>) =
        mq_params (bq\<lparr>mq_read_index := ri, mq_in_prebuf := pb\<rparr>)" for ri pb
      using mq_paramsD [OF r'] by (simp add: mq_params_def)
    then show ?thesis using l r by metis
  next
    case False
    then have "drop_loop bq len = bq" by (simp add: drop_loop.simps [of bq])
    then show ?thesis using 1(3)
      by (intro conjI exI [of _ "mq_read_index bq"] exI [of _ "mq_in_prebuf bq"])
         (simp_all add: mq_params_def)
  qed
qed

lemma drop_backlog_keeps:
  assumes "mq_inv bq"
  shows "mq_inv (drop_backlog bq)" "mq_params (drop_backlog bq) = mq_params bq"
proof -
  let ?d = "drop_backlog bq"
  note d = drop_backlog_to_spec [OF mq_inv_book [OF assms],
      of "mq_read_index bq - int (mq_maxrewind bq)", folded drop_backlog_def]
  then show p: "mq_params ?d = mq_params bq" by blast
  have "blocks_ok (mq_blocks ?d)" "set (mq_blocks ?d) \<subseteq> set (mq_blocks bq)"
    using d assms by (auto simp: mq_inv_def blocks_ok_dropWhile dest: set_dropWhileD)
  then show "mq_inv ?d" using mq_inv_params [OF _ p] d assms by blast
qed

lemma drop_keeps:
  assumes ok: "queue_ok bq" and d: "pa_memblockq_drop bq n = Some bq'"
  shows "queue_ok bq'"
proof -
  let ?l = "drop_loop bq n"
  have inv: "mq_inv bq" "blocks_ok (mq_blocks bq)" using ok by (simp_all add: queue_ok_def mq_inv_def)
  note l = drop_loop_frame [OF inv(2) mq_inv_book [OF inv(1)], of n]
  then obtain ri pb where p: "mq_params ?l = mq_params (bq\<lparr>mq_read_index := ri, mq_in_prebuf := pb\<rparr>)"
    by blast
  have bk: "book_ok (foreign_refs bq) ?l" "mq_blocks ?l = mq_blocks bq" using l by blast+
  have il: "mq_inv ?l" using mq_inv_params [OF bk(1) p, of bq] bk(2) inv by simp
  note b = drop_backlog_keeps [OF il]
  have bq': "bq' = read_index_changed (drop_backlog ?l) (mq_read_index bq)"
    using d by (simp add: pa_memblockq_drop_def Let_def split: bind_splits)
  have "mq_inv bq'" using b(1) by (simp add: bq' read_index_changed_def Let_def)
  moreover have "settings_ok bq'"
    using ok mq_paramsD [OF b(2)] mq_paramsD [OF p]
    by (simp add: bq' read_index_changed_def Let_def queue_ok_def settings_ok_def attr_ok_def
        attr_len_def balanced_def)
  ultimately show ?thesis by (simp add: queue_ok_def)
qed

lemma silence_keeps:
  assumes "mq_inv bq"
  shows "mq_inv (pa_memblockq_silence bq)" "mq_params (pa_memblockq_silence bq) = mq_params bq"
proof -
  note s = silence_spec [OF mq_inv_book [OF assms]]
  then show p: "mq_params (pa_memblockq_silence bq) = mq_params bq" by blast
  show "mq_inv (pa_memblockq_silence bq)"
    using mq_inv_params [OF _ p, of "foreign_refs bq" bq] s assms by simp
qed

lemma seek_keeps:
  assumes "queue_ok bq"
  shows "queue_ok (pa_memblockq_seek bq off mode account)"
proof -
  define wi where "wi = (case mode of PA_SEEK_RELATIVE \<Rightarrow> mq_write_index bq + off
    | PA_SEEK_ABSOLUTE \<Rightarrow> off | PA_SEEK_RELATIVE_ON_READ \<Rightarrow> mq_read_index bq + off
    | PA_SEEK_RELATIVE_END \<Rightarrow> (if mq_blocks bq \<noteq> [] then li_end (last (mq_blocks bq))
        else mq_read_index bq) + off)"
  let ?d = "drop_backlog (bq\<lparr>mq_write_index := wi\<rparr>)"
  have "pa_memblockq_seek bq off mode account = write_index_changed ?d (mq_write_index bq) account"
    by (cases mode) (simp_all add: pa_memblockq_seek_def wi_def Let_def)
  moreover have "mq_inv ?d" "mq_params ?d = mq_params (bq\<lparr>mq_write_index := wi\<rparr>)"
    using drop_backlog_keeps [of "bq\<lparr>mq_write_index := wi\<rparr>"] assms by (simp_all add: queue_ok_def)
  ultimately show ?thesis
    using assms mq_paramsD [of ?d "bq\<lparr>mq_write_index := wi\<rparr>"]
    by (simp add: write_index_changed_def Let_def queue_ok_def settings_ok_def attr_ok_def
        attr_len_def balanced_def)
qed

lemma flush_keeps:
  assumes "queue_ok bq"
  shows "queue_ok (pa_memblockq_flush_write bq account)" "queue_ok (pa_memblockq_flush_read bq)"
proof -
  let ?s = "pa_memblockq_silence bq"
  have s: "mq_inv ?s" "mq_params ?s = mq_params bq"
    using silence_keeps assms by (simp_all add: queue_ok_def)
  show "queue_ok (pa_memblockq_flush_write bq account)" "queue_ok (pa_memblockq_flush_read bq)"
    using assms s mq_paramsD [OF s(2)]
    by (simp_all add: pa_memblockq_flush_write_def pa_memblockq_flush_read_def Let_def
        pa_memblockq_prebuf_force_def write_index_changed_def read_index_changed_def queue_ok_def
        settings_ok_def attr_ok_def attr_len_def balanced_def)
qed

subsection \<open>Construction\<close>

lemma new_ok:
  assumes new: "pa_memblockq_new name idx maxlength tlength ss prebuf minreq maxrewind silence pool = Some bq"
    and b: "pa_frame_size ss = Some b" and m: "maxlength + 2 * b < 2 ^ 64"
    and t: "tlength = SIZE_MAX \<or> tlength + b < 2 ^ 64"
  shows "queue_ok bq" "mq_blocks bq = []" "mq_read_index bq = idx" "mq_write_index bq = idx"
    "mq_base bq = b" "mq_pool bq = (case silence of None \<Rightarrow> pool | Some c \<Rightarrow> ref_chunk pool c)"
proof -
  obtain mc where mc: "pa_mcalign_new b = Some mc"
    using new b by (auto split: bind_splits simp: pa_memblockq_new_def)
  have b0: "0 < b" using mc by (auto simp: pa_mcalign_new_def split: bind_splits)
  define z where "z = \<lparr>mq_blocks = [], mq_current_read = None, mq_current_write = None, mq_n_blocks = 0,
                mq_maxlength = 0, mq_tlength = 0, mq_base = b, mq_prebuf = 0, mq_minreq = 0,
                mq_maxrewind = 0, mq_read_index = idx, mq_write_index = idx, mq_in_prebuf = True,
                mq_silence = pa_memchunk_reset, mq_mcalign = mc, mq_missing = 0,
                mq_requested = 0, mq_name = name, mq_sample_spec = ss, mq_pool = pool\<rparr>"
  define b1 where "b1 = pa_memblockq_set_maxlength z maxlength"
  define b2 where "b2 = pa_memblockq_set_tlength b1 tlength"
  define b3 where "b3 = pa_memblockq_set_minreq b2 minreq"
  define b5 where "b5 = pa_memblockq_set_maxrewind (pa_memblockq_set_prebuf b3 prebuf) maxrewind"
  have r: "b dvd round_up_base maxlength b" "round_up_base maxlength b < maxlength + b"
    using round_up_base_props(1,3) [of maxlength b] b0 m by simp_all
  have b1: "attr_len b1" "mq_store b1 = mq_store z" "mq_tlength b1 = 0" "mq_missing b1 = 0"
    using r b0 m by (auto simp: b1_def z_def pa_memblockq_set_maxlength_def Let_def attr_len_def mq_store_def)
  have arg: "tlength = SIZE_MAX \<or> length_arg b1 tlength"
    using t mq_storeD(5) [OF b1(2)] by (simp add: length_arg_def z_def)
  note st = set_tlength_ok [OF b1(1) arg, folded b2_def]
  have a2: "attr_len b2" "mq_tlength b2 \<le> mq_maxlength b2" "mq_base b2 \<le> mq_tlength b2"
    "mq_base b2 dvd mq_tlength b2"
    using st(1) by (simp_all add: attr_ok_def)
  note s3 = set_minreq_ok [OF a2, of minreq, folded b3_def]
  have st3: "mq_store b3 = mq_store z" "mq_tlength b3 = mq_tlength b2" "mq_missing b3 = mq_missing b2"
    "mq_base b3 = mq_base b2"
    using st(3) b1(2) by (simp_all add: b3_def set_minreq_frame)
  have "balanced b3"
    using mq_storeD(8,9,10) [OF st3(1)] st(4) b1 st3(2,3) by (simp add: balanced_def z_def)
  then have s: "settings_ok b3" using s3 st3(4) by (simp add: settings_ok_def)
  note p = setters_keep(4) [OF s, of prebuf]
  have ok5: "settings_ok b5" "mq_store b5 = mq_store z"
    using setters_keep(5) [OF p] setters_store(5) [OF p] setters_store(4) [OF s] st3(1)
    by (simp_all add: b5_def)
  have bq: "bq = (case silence of None \<Rightarrow> b5
      | Some c \<Rightarrow> b5\<lparr>mq_silence := c, mq_pool := ref_chunk (mq_pool b5) c\<rparr>)"
    using new b mc unfolding b5_def b3_def b2_def b1_def z_def
    by (simp add: pa_memblockq_new_def Let_def)
  note sd = mq_storeD [OF ok5(2)]
  have "mq_inv z" using b0 by (simp add: z_def mq_inv_def cursors_ok_def blocks_backed_def)
  then have "mq_inv b5" using mq_inv_store [OF ok5(2)] by simp
  then show "queue_ok bq"
    using ok5(1) mq_inv_frame(7) [of "b5\<lparr>mq_silence := _\<rparr>"]
    by (auto simp: bq queue_ok_def split: option.split)
  show "mq_blocks bq = []" "mq_read_index bq = idx" "mq_write_index bq = idx" "mq_base bq = b"
    "mq_pool bq = (case silence of None \<Rightarrow> pool | Some c \<Rightarrow> ref_chunk pool c)"
    using sd by (simp_all add: bq z_def split: option.split)
qed

text \<open>What the other users of the shared pool may do to it: allocate blocks, write into
  blocks and take or release references; no block changes its size.\<close>

definition pool_le :: "pa_mempool \<Rightarrow> pa_mempool \<Rightarrow> bool" where
  "pool_le p p' \<longleftrightarrow> mp_next p \<le> mp_next p' \<and>
     (\<forall>b < mp_next p. length (mp_data p' b) = length (mp_data p b))"

inductive mq_reachable :: "pa_memblockq \<Rightarrow> bool" where
  create: "pa_memblockq_new name idx maxlength tlength ss prebuf minreq maxrewind silence pool = Some bq \<Longrightarrow>
     pa_frame_size ss = Some b \<Longrightarrow> maxlength + 2 * b < 2 ^ 64 \<Longrightarrow>
     tlength = SIZE_MAX \<or> tlength + b < 2 ^ 64 \<Longrightarrow> mq_reachable bq"
| push: "mq_reachable bq \<Longrightarrow> chunk_ok (mq_pool bq) c \<Longrightarrow> pa_memblockq_push bq c = Some (bq', r) \<Longrightarrow>
     mq_reachable bq'"
| peek: "mq_reachable bq \<Longrightarrow> mq_reachable (fst (pa_memblockq_peek bq))"
| discard: "mq_reachable bq \<Longrightarrow> pa_memblockq_drop bq n = Some bq' \<Longrightarrow> mq_reachable bq'"
| rewind: "mq_reachable bq \<Longrightarrow> pa_memblockq_rewind bq n = Some bq' \<Longrightarrow> mq_reachable bq'"
| seek: "mq_reachable bq \<Longrightarrow> mq_reachable (pa_memblockq_seek bq off mode account)"
| silence: "mq_reachable bq \<Longrightarrow> mq_reachable (pa_memblockq_silence bq)"
| flush_write: "mq_reachable bq \<Longrightarrow> mq_reachable (pa_memblockq_flush_write bq account)"
| flush_read: "mq_reachable bq \<Longrightarrow> mq_reachable (pa_memblockq_flush_read bq)"
| prebuf_disable: "mq_reachable bq \<Longrightarrow> mq_reachable (pa_memblockq_prebuf_disable bq)"
| prebuf_force: "mq_reachable bq \<Longrightarrow> mq_reachable (pa_memblockq_prebuf_force bq)"
| pop_missing: "mq_reachable bq \<Longrightarrow> mq_reachable (fst (pa_memblockq_pop_missing bq))"
| set_maxlength: "mq_reachable bq \<Longrightarrow> n + 2 * mq_base bq < 2 ^ 64 \<Longrightarrow>
     mq_reachable (pa_memblockq_set_maxlength bq n)"
| set_tlength: "mq_reachable bq \<Longrightarrow> n = SIZE_MAX \<or> n + mq_base bq < 2 ^ 64 \<Longrightarrow>
     mq_reachable (pa_memblockq_set_tlength bq n)"
| set_minreq: "mq_reachable bq \<Longrightarrow> mq_reachable (pa_memblockq_set_minreq bq n)"
| set_prebuf: "mq_reachable bq \<Longrightarrow> mq_reachable (pa_memblockq_set_prebuf bq n)"
| set_maxrewind: "mq_reachable bq \<Longrightarrow> mq_reachable (pa_memblockq_set_maxrewind bq n)"
| set_silence: "mq_reachable bq \<Longrightarrow> mq_reachable (pa_memblockq_set_silence bq c)"
| willneed: "mq_reachable bq \<Longrightarrow> mq_reachable (pa_memblockq_willneed bq)"
| environment: "mq_reachable bq \<Longrightarrow> pool_le (mq_pool bq) p \<Longrightarrow> mq_reachable (bq\<lparr>mq_pool := p\<rparr>)"

lemma queue_ok_store:
  assumes "queue_ok bq" "settings_ok bq'" "mq_store bq' = mq_store bq"
  shows "queue_ok bq'"
  using assms(1,2) mq_inv_store [OF assms(3)] by (simp add: queue_ok_def)

lemma rewind_keeps: "queue_ok bq \<Longrightarrow> pa_memblockq_rewind bq n = Some bq' \<Longrightarrow> queue_ok bq'"
  by (auto simp: pa_memblockq_rewind_def read_index_changed_def queue_ok_def settings_ok_def attr_ok_def
      attr_len_def balanced_def split: bind_splits)

lemma pop_missing_keeps: "queue_ok bq \<Longrightarrow> queue_ok (fst (pa_memblockq_pop_missing bq))"
  by (simp add: pa_memblockq_pop_missing_def queue_ok_def settings_ok_def attr_ok_def attr_len_def
      balanced_def)

lemma environment_keeps:
  assumes "queue_ok bq" "pool_le (mq_pool bq) p"
  shows "queue_ok (bq\<lparr>mq_pool := p\<rparr>)"
proof -
  have "chunk_ok p c" if "chunk_ok (mq_pool bq) c" for c
    using that assms(2) by (auto simp: chunk_ok_def pool_le_def split: option.splits)
  then show ?thesis
    using assms(1) by (auto simp: queue_ok_def mq_inv_def cursors_ok_def blocks_backed_def)
qed

lemma set_silence_keeps: "queue_ok bq \<Longrightarrow> queue_ok (pa_memblockq_set_silence bq c)"
  by (auto simp: queue_ok_def pa_memblockq_set_silence_def Let_def mq_inv_def cursors_ok_def
      blocks_backed_def split: option.split)

lemma prebuf_keeps:
  "queue_ok bq \<Longrightarrow> queue_ok (pa_memblockq_prebuf_disable bq)"
  "queue_ok bq \<Longrightarrow> queue_ok (pa_memblockq_prebuf_force bq)"
  by (simp_all add: pa_memblockq_prebuf_disable_def pa_memblockq_prebuf_force_def queue_ok_def)

lemmas keeps = push_keeps peek_keeps drop_keeps rewind_keeps seek_keeps flush_keeps pop_missing_keeps
  environment_keeps set_silence_keeps prebuf_keeps

lemma reachable_ok: "mq_reachable bq \<Longrightarrow> queue_ok bq"
proof (induction rule: mq_reachable.induct)
  case (silence bq)
  then show ?case using silence_keeps [of bq] settings_params [OF silence_keeps(2) [of bq]]
    by (simp add: queue_ok_def)
next
  case (set_maxlength bq n)
  then show ?case
    by (intro queue_ok_store [OF set_maxlength.IH] setters_keep setters_store) (simp_all add: queue_ok_def)
next
  case (set_tlength bq n)
  then show ?case
    by (intro queue_ok_store [OF set_tlength.IH] setters_keep setters_store)
       (simp_all add: queue_ok_def length_arg_def)
next
  case (set_minreq bq n)
  then show ?case
    by (intro queue_ok_store [OF set_minreq.IH] setters_keep setters_store) (simp_all add: queue_ok_def)
next
  case (set_prebuf bq n)
  then show ?case
    by (intro queue_ok_store [OF set_prebuf.IH] setters_keep setters_store) (simp_all add: queue_ok_def)
next
  case (set_maxrewind bq n)
  then show ?case
    by (intro queue_ok_store [OF set_maxrewind.IH] setters_keep setters_store) (simp_all add: queue_ok_def)
next
  case (willneed bq)
  then show ?case using fix_current_read_inv by (simp add: queue_ok_def pa_memblockq_willneed_def)
qed (blast intro: new_ok(1) keeps)+

end
