(* ===== verification/Memblockq_Props.thy ===== *)
theory Memblockq_Props
  imports Memblockq_Control
begin

text \<open>
  The properties of \<open>src/pulsecore/memblockq.c\<close>, with the small queue their witnesses use.
\<close>

subsection \<open>Instances for the witnesses\<close>

definition demo_pool :: pa_mempool where
  "demo_pool = \<lparr>mp_data = (\<lambda>b. if b = 0 then [1, 2, 3, 4, 5, 6, 7, 8] else [11, 12, 13, 14]),
     mp_refs = (\<lambda>_. 1), mp_read_only = (\<lambda>_. False), mp_is_silence = (\<lambda>_. False), mp_next = 2, mp_stale = (\<lambda>_. 0)\<rparr>"

definition demo_queue :: "list_item list \<Rightarrow> int \<Rightarrow> int \<Rightarrow> pa_memblockq" where
  "demo_queue xs ri wi = \<lparr>mq_blocks = xs, mq_current_read = None, mq_current_write = None,
     mq_n_blocks = length xs, mq_maxlength = 16, mq_tlength = 8, mq_base = 2, mq_prebuf = 0,
     mq_minreq = 2, mq_maxrewind = 0, mq_read_index = ri, mq_write_index = wi,
     mq_in_prebuf = False, mq_silence = pa_memchunk_reset,
     mq_mcalign = \<lparr>mc_base = 2, mc_leftover = pa_memchunk_reset, mc_current = pa_memchunk_reset\<rparr>,
     mq_missing = 8 - (wi - ri), mq_requested = 0, mq_name = [],
     mq_sample_spec = \<lparr>ss_format = PA_SAMPLE_S16LE, ss_rate = 44100, ss_channels = 1\<rparr>,
     mq_pool = demo_pool\<rparr>"

definition demo_item :: "int \<Rightarrow> nat \<Rightarrow> nat \<Rightarrow> list_item" where
  "demo_item pos b len =
     \<lparr>li_index = pos, li_chunk = \<lparr>ch_memblock = Some b, ch_index = 0, ch_length = len\<rparr>\<rparr>"

text \<open>The references a chunk held outside the list of blocks stands for.\<close>

definition chunk_refs :: "nat \<Rightarrow> pa_memchunk \<Rightarrow> int" where
  "chunk_refs b c = (if ch_memblock c = Some b then 1 else 0)"

lemma mp_refs_unref_any: "mp_refs (unref_chunk p c) b = mp_refs p b - chunk_refs b c"
  by (auto simp: chunk_refs_def unref_chunk_def pa_memblock_unref_def split: option.splits)

lemmas demo_defs = demo_pool_def demo_queue_def demo_item_def

lemma demo_inv: "mq_inv (demo_queue [demo_item 0 0 8] 0 8)" "mq_inv (demo_queue [demo_item 0 0 8] 0 2)"
  by (simp_all add: demo_defs mq_inv_def blocks_ok_def li_end_def cursors_ok_def blocks_backed_def
      chunk_ok_def)

lemma demo_fifo_ok: "fifo_ok (demo_queue [demo_item 0 0 8] 0 8)"
proof -
  have "content demo_pool [demo_item 0 0 8] pos \<noteq> None" if "0 \<le> pos" "pos < 8" for pos
    using that by (simp add: demo_item_def item_map_def li_end_def)
  then show ?thesis
    using demo_inv(1) by (simp add: fifo_ok_def on_frames_def demo_queue_def li_end_def) 
      (simp add: demo_item_def)
qed

lemma demo_fifo: "fifo (demo_queue [demo_item 0 0 8] 0 8) = [1, 2, 3, 4, 5, 6, 7, 8]"
  by (simp add: fifo_def demo_defs get_length_nat item_map_def li_end_def chunk_byte_def upt_rec)

subsection \<open>Properties\<close>



text \<open>
  C21: when a chunk is pushed into the middle of a queued block, the part of the block after
  it replays the block from its start: the position keeps its place in the stream but not its
  byte.
\<close>

theorem push_split_replays:
  assumes "mq_inv bq" "chunk_ok (mq_pool bq) c" "0 < ch_length c" "mq_base bq dvd ch_length c"
    and "mq_base bq dvd ch_index c" "can_push bq (ch_length c)"
    and q: "q \<in> set (mq_blocks bq)" "li_index q \<le> mq_write_index bq"
    and pos: "mq_write_index bq + int (ch_length c) \<le> pos" "pos < li_end q"
  shows "\<exists>bq'. pa_memblockq_push bq c = Some (bq', 0) \<and>
    content (mq_pool bq') (mq_blocks bq') pos =
      Some (chunk_byte (mq_pool bq) (li_chunk q) (nat (pos - (mq_write_index bq + int (ch_length c)))))"
proof -
  let ?wi = "mq_write_index bq" and ?xs = "mq_blocks bq" and ?p = "mq_pool bq"
  let ?we = "?wi + int (ch_length c)"
  obtain bq' where p: "pa_memblockq_push bq c = Some (bq', 0)" "mq_blocks bq' = pushed ?wi c ?xs"
    "mq_params bq' = mq_params (bq\<lparr>mq_write_index := ?we,
      mq_requested := mq_requested bq - int (ch_length c)\<rparr>)"
    using push_inv [OF assms(1-6)] by blast
  note pd = mq_paramsD [OF p(3), simplified]
  have ok: "blocks_ok ?xs" using assms(1) by (simp add: mq_inv_def)
  let ?t = "q\<lparr>li_index := ?we, li_chunk := (li_chunk q)\<lparr>ch_length := ch_length (li_chunk q) -
    nat (?we - li_index q)\<rparr>\<rparr>"
  have "after_item ?wi ?we q = [?t]"
    using q(2) pos assms(3) by (simp add: after_item_def Let_def)
  then have "?t \<in> set (kept_after ?wi ?we ?xs)" using q(1) by (force simp: kept_after_def)
  then obtain i where i: "i < length (kept_after ?wi ?we ?xs)" "kept_after ?wi ?we ?xs ! i = ?t"
    by (metis in_set_conv_nth)
  have e: "li_end ?t = li_end q" using q(2) pos assms(3) by (simp add: li_end_def)
  have "content ?p (kept_after ?wi ?we ?xs) pos = item_map ?p ?t pos"
    using item_map_in_content [OF blocks_ok_kept(2) [OF ok] i(1)] i(2) pos e assms(3) by simp
  also have "\<dots> = Some (chunk_byte ?p (li_chunk q) (nat (pos - ?we)))"
    using pos e by (simp add: item_map_def chunk_byte_def)
  finally have "content ?p (pushed ?wi c ?xs) pos = Some (chunk_byte ?p (li_chunk q) (nat (pos - ?we)))"
    unfolding content_pushed_parts [OF ok assms(3)] by simp
  then show ?thesis using p content_cong [OF pd(14)] by auto
qed

theorem push_split_replays_witness:
  "\<exists>bq'. pa_memblockq_push (demo_queue [demo_item 0 0 8] 0 2)
       \<lparr>ch_memblock = Some 1, ch_index = 0, ch_length = 4\<rparr> = Some (bq', 0) \<and>
     content (mq_pool bq') (mq_blocks bq') 6 = Some 1 \<and>
     content demo_pool [demo_item 0 0 8] 6 = Some 7"
proof -
  let ?q = "demo_queue [demo_item 0 0 8] 0 2"
  let ?c = "\<lparr>ch_memblock = Some 1, ch_index = 0, ch_length = 4\<rparr>"
  have "chunk_ok (mq_pool ?q) ?c" "0 < ch_length ?c" "mq_base ?q dvd ch_length ?c" "mq_base ?q dvd ch_index ?c"
    "can_push ?q (ch_length ?c)" "demo_item 0 0 8 \<in> set (mq_blocks ?q)"
    "li_index (demo_item 0 0 8) \<le> mq_write_index ?q"
    "mq_write_index ?q + int (ch_length ?c) \<le> 6" "6 < li_end (demo_item 0 0 8)"
    by (simp_all add: demo_defs chunk_ok_def can_push_def li_end_def)
  from push_split_replays [OF demo_inv(2) this] show ?thesis
    by (auto simp: demo_defs chunk_byte_def item_map_def li_end_def)
qed

text \<open>
  C20: whatever chunk \<^const>\<open>pa_memblockq_peek\<close> returns, the queue was not prebuffering, and
  either the chunk lies in its block and carries exactly the bytes of the stream at the read
  index, or no byte of the stream lies under it and it is the queue's silence or a hole.
\<close>

theorem peek_shows_stream:
  assumes "mq_inv bq" "pa_memblockq_peek bq = (bq', Some c)"
  shows "\<not> pa_memblockq_prebuf_active bq \<and> (peek_ok bq c \<or> peek_hole bq c)"
  using peek_cases [OF _ _ _ assms(2)] assms(1) by (simp add: mq_inv_def)

theorem peek_shows_stream_witness:
  "\<exists>bq' c. pa_memblockq_peek (demo_queue [demo_item 0 0 8] 0 8) = (bq', Some c) \<and> ch_length c = 8 \<and>
     (peek_ok (demo_queue [demo_item 0 0 8] 0 8) c \<or> peek_hole (demo_queue [demo_item 0 0 8] 0 8) c)"
proof -
  have "\<exists>bq' c. pa_memblockq_peek (demo_queue [demo_item 0 0 8] 0 8) = (bq', Some c) \<and> ch_length c = 8"
    by (simp add: pa_memblockq_peek_def update_prebuf_def demo_defs fix_current_read_def
        scan_read_right.simps [of "[_]"] li_end_def Let_def)
  then show ?thesis using peek_shows_stream [OF demo_inv(1)] by blast
qed

text \<open>
  C5: on a gapless stream, a reader that peeks and then drops what it saw gets a non-empty
  prefix of the pending bytes, exactly those bytes leave the queue, and the queue stays ready
  while bytes are pending.
\<close>

theorem peek_drop_front:
  assumes "fifo_ok bq" "\<not> pa_memblockq_prebuf_active bq" "fifo bq \<noteq> []"
  shows "\<exists>bq' c bq''. pa_memblockq_peek bq = (bq', Some c) \<and>
    pa_memblockq_drop bq' (length (chunk_bytes (mq_pool bq') c)) = Some bq'' \<and> fifo_ok bq'' \<and>
    chunk_bytes (mq_pool bq') c \<noteq> [] \<and> fifo bq = chunk_bytes (mq_pool bq') c @ fifo bq'' \<and>
    (fifo bq'' \<noteq> [] \<longrightarrow> \<not> pa_memblockq_prebuf_active bq'')"
  using memblockq.pop_front [OF assms] by blast

theorem peek_drop_front_witness:
  "\<exists>bq' c bq''. pa_memblockq_peek (demo_queue [demo_item 0 0 8] 0 8) = (bq', Some c) \<and>
     pa_memblockq_drop bq' (length (chunk_bytes (mq_pool bq') c)) = Some bq'' \<and>
     [1, 2, 3, 4, 5, 6, 7, 8] = chunk_bytes (mq_pool bq') c @ fifo bq''"
proof -
  have "\<not> pa_memblockq_prebuf_active (demo_queue [demo_item 0 0 8] 0 8)"
    by (simp add: pa_memblockq_prebuf_active_def demo_defs)
  then show ?thesis
    using peek_drop_front [OF demo_fifo_ok] unfolding demo_fifo by (metis list.distinct(1))
qed

text \<open>
  C12: on a gapless stream a well-formed chunk is appended to the pending bytes, or refused with
  -1 and the queue unchanged when the maximum length would be exceeded; there is no third
  outcome.
\<close>

theorem push_appends_or_refuses:
  assumes "fifo_ok bq" "pushable bq c"
  shows "\<exists>bq' r. pa_memblockq_push bq c = Some (bq', r) \<and> fifo_ok bq' \<and>
    (if length (fifo bq) + ch_length c \<le> mq_maxlength bq
     then r = 0 \<and> fifo bq' = fifo bq @ chunk_bytes (mq_pool bq) c
     else r = - 1 \<and> bq' = bq)"
proof -
  have "length (chunk_bytes (mq_pool bq) c) = ch_length c"
    using assms(2) length_chunk_bytes by (simp add: pushable_def)
  from memblockq.push_total [OF assms, unfolded this] show ?thesis by blast
qed

theorem push_appends_or_refuses_witness:
  "\<exists>bq' r. pa_memblockq_push (demo_queue [demo_item 0 0 8] 0 8)
       \<lparr>ch_memblock = Some 1, ch_index = 2, ch_length = 2\<rparr> = Some (bq', r) \<and>
     r = 0 \<and> fifo bq' = [1, 2, 3, 4, 5, 6, 7, 8, 13, 14]"
proof -
  have "pushable (demo_queue [demo_item 0 0 8] 0 8) \<lparr>ch_memblock = Some 1, ch_index = 2, ch_length = 2\<rparr>"
    by (simp add: pushable_def demo_defs chunk_ok_def)
  from push_appends_or_refuses [OF demo_fifo_ok this] show ?thesis
    unfolding demo_fifo by (auto simp: demo_defs chunk_bytes_def)
qed





text \<open>
  C23: freeing a queue gives back exactly the references it holds: what remains of a block's
  reference count are the references held outside the queue's blocks, less those of its silence
  chunk and of its aligner.
\<close>

theorem free_releases:
  assumes "mq_inv bq"
  shows "mp_refs (pa_memblockq_free bq) b = foreign_refs bq b - chunk_refs b (mq_silence bq) -
    chunk_refs b (mc_leftover (mq_mcalign bq)) - chunk_refs b (mc_current (mq_mcalign bq))"
proof -
  let ?s = "pa_memblockq_silence bq"
  note s = silence_spec [OF mq_inv_book [OF assms]]
  then have p: "mq_params ?s = mq_params bq" by blast
  have "foreign_refs ?s b = foreign_refs bq b" using s by (simp add: book_ok_def)
  then have "mp_refs (mq_pool ?s) b = foreign_refs bq b" using s by (simp add: foreign_refs_def)
  then show ?thesis
    using mq_paramsD(10,11) [OF p]
    by (simp add: pa_memblockq_free_def Let_def pa_mcalign_free_def mp_refs_unref_any)
qed

theorem free_releases_witness:
  "mp_refs (pa_memblockq_free (demo_queue [demo_item 0 0 8] 0 8)) 0 = 0"
  using free_releases [OF demo_inv(1), of 0]
  by (simp add: foreign_refs_def demo_defs item_refs_def chunk_refs_def pa_memchunk_reset_def)

end
