(* ===== verification/Iwab_Headers.thy ===== *)
theory Iwab_Headers
  imports Prelude
begin

text \<open>
  The packed headers of \<open>src/modules/iwab/net.h\<close> as records with byte codecs. Integers are stored
  in the little-endian order of the host and bit-fields from the low bit upwards, as the
  compilers of that platform do. Each codec is an instance of the \<open>fixed_codec\<close> interface: a
  bijection between sized headers and byte strings of their width.
\<close>

subsection \<open>Headers\<close>

record radiotap_head =
  rth_version :: "16 word"
  rth_length :: "16 word"
  rth_bitmap :: "32 word"

record radiotap =
  rt_head :: radiotap_head
  rt_args :: bytes

record ieee80211_head =
  d11_version :: "2 word"
  d11_type :: "2 word"
  d11_subtype :: "4 word"
  d11_flags :: "8 word"
  d11_duration :: "16 word"
  d11_addr1 :: bytes
  d11_addr2 :: bytes
  d11_addr3 :: bytes
  d11_frag_nb :: "4 word"
  d11_seq_nb :: "12 word"

record l2_head =
  l2_src_mac :: bytes
  l2_dst_mac :: bytes
  l2_ethertype :: "16 word"

record iwab_head =
  iwh_version :: "8 word"
  iwh_channel :: "8 word"
  iwh_length :: "16 word"
  iwh_seq :: "32 word"
  iwh_timestamp :: "64 word"
  iwh_retry :: "8 word"
  iwh_pad :: bytes

record headers =
  hd_dot11 :: ieee80211_head
  hd_dot11qos :: "16 word"
  hd_l2 :: l2_head
  hd_iw_h :: iwab_head

definition radiotap_head_enc :: "radiotap_head \<Rightarrow> bytes" where
  "radiotap_head_enc h =
     le_enc 2 (unat (rth_version h)) @ le_enc 2 (unat (rth_length h)) @ le_enc 4 (unat (rth_bitmap h))"

definition radiotap_head_dec :: "bytes \<Rightarrow> radiotap_head" where
  "radiotap_head_dec bs =
     \<lparr>rth_version = of_nat (le_dec (take 2 bs)), rth_length = of_nat (le_dec (take 2 (drop 2 bs))),
      rth_bitmap = of_nat (le_dec (take 4 (drop 4 bs)))\<rparr>"

definition radiotap_enc :: "radiotap \<Rightarrow> bytes" where
  "radiotap_enc h = radiotap_head_enc (rt_head h) @ rt_args h"

definition radiotap_dec :: "bytes \<Rightarrow> radiotap" where
  "radiotap_dec bs = \<lparr>rt_head = radiotap_head_dec (take 8 bs), rt_args = drop 8 bs\<rparr>"

definition radiotap_sized :: "radiotap \<Rightarrow> bool" where
  "radiotap_sized h \<longleftrightarrow> length (rt_args h) = 5"

definition ieee80211_fc :: "ieee80211_head \<Rightarrow> nat" where
  "ieee80211_fc h = unat (d11_version h) + 4 * unat (d11_type h) + 16 * unat (d11_subtype h) +
     256 * unat (d11_flags h)"

definition ieee80211_head_enc :: "ieee80211_head \<Rightarrow> bytes" where
  "ieee80211_head_enc h =
     le_enc 2 (ieee80211_fc h) @ le_enc 2 (unat (d11_duration h)) @
     d11_addr1 h @ d11_addr2 h @ d11_addr3 h @
     le_enc 2 (unat (d11_frag_nb h) + 16 * unat (d11_seq_nb h))"

definition ieee80211_head_dec :: "bytes \<Rightarrow> ieee80211_head" where
  "ieee80211_head_dec bs =
     (let fc = le_dec (take 2 bs); sc = le_dec (take 2 (drop 22 bs))
      in \<lparr>d11_version = of_nat (fc mod 4), d11_type = of_nat (fc div 4 mod 4),
          d11_subtype = of_nat (fc div 16 mod 16), d11_flags = of_nat (fc div 256),
          d11_duration = of_nat (le_dec (take 2 (drop 2 bs))),
          d11_addr1 = take 6 (drop 4 bs), d11_addr2 = take 6 (drop 10 bs),
          d11_addr3 = take 6 (drop 16 bs),
          d11_frag_nb = of_nat (sc mod 16), d11_seq_nb = of_nat (sc div 16)\<rparr>)"

definition ieee80211_head_sized :: "ieee80211_head \<Rightarrow> bool" where
  "ieee80211_head_sized h \<longleftrightarrow>
     length (d11_addr1 h) = 6 \<and> length (d11_addr2 h) = 6 \<and> length (d11_addr3 h) = 6"

definition l2_head_enc :: "l2_head \<Rightarrow> bytes" where
  "l2_head_enc h = l2_src_mac h @ l2_dst_mac h @ le_enc 2 (unat (l2_ethertype h))"

definition l2_head_dec :: "bytes \<Rightarrow> l2_head" where
  "l2_head_dec bs =
     \<lparr>l2_src_mac = take 6 bs, l2_dst_mac = take 6 (drop 6 bs),
      l2_ethertype = of_nat (le_dec (take 2 (drop 12 bs)))\<rparr>"

definition l2_head_sized :: "l2_head \<Rightarrow> bool" where
  "l2_head_sized h \<longleftrightarrow> length (l2_src_mac h) = 6 \<and> length (l2_dst_mac h) = 6"

definition iwab_head_enc :: "iwab_head \<Rightarrow> bytes" where
  "iwab_head_enc h =
     le_enc 1 (unat (iwh_version h)) @ le_enc 1 (unat (iwh_channel h)) @
     le_enc 2 (unat (iwh_length h)) @ le_enc 4 (unat (iwh_seq h)) @
     le_enc 8 (unat (iwh_timestamp h)) @ le_enc 1 (unat (iwh_retry h)) @ iwh_pad h"

definition iwab_head_dec :: "bytes \<Rightarrow> iwab_head" where
  "iwab_head_dec bs =
     \<lparr>iwh_version = of_nat (le_dec (take 1 bs)), iwh_channel = of_nat (le_dec (take 1 (drop 1 bs))),
      iwh_length = of_nat (le_dec (take 2 (drop 2 bs))),
      iwh_seq = of_nat (le_dec (take 4 (drop 4 bs))),
      iwh_timestamp = of_nat (le_dec (take 8 (drop 8 bs))),
      iwh_retry = of_nat (le_dec (take 1 (drop 16 bs))), iwh_pad = take 7 (drop 17 bs)\<rparr>"

definition iwab_head_sized :: "iwab_head \<Rightarrow> bool" where
  "iwab_head_sized h \<longleftrightarrow> length (iwh_pad h) = 7"

definition headers_enc :: "headers \<Rightarrow> bytes" where
  "headers_enc h =
     ieee80211_head_enc (hd_dot11 h) @ le_enc 2 (unat (hd_dot11qos h)) @ l2_head_enc (hd_l2 h) @
     iwab_head_enc (hd_iw_h h)"

definition headers_dec :: "bytes \<Rightarrow> headers" where
  "headers_dec bs =
     \<lparr>hd_dot11 = ieee80211_head_dec (take 24 bs),
      hd_dot11qos = of_nat (le_dec (take 2 (drop 24 bs))),
      hd_l2 = l2_head_dec (take 14 (drop 26 bs)), hd_iw_h = iwab_head_dec (take 24 (drop 40 bs))\<rparr>"

definition headers_sized :: "headers \<Rightarrow> bool" where
  "headers_sized h \<longleftrightarrow>
     ieee80211_head_sized (hd_dot11 h) \<and> l2_head_sized (hd_l2 h) \<and> iwab_head_sized (hd_iw_h h)"

text \<open>The codecs are bijections between sized headers and byte strings of their width.\<close>

lemma bytes_split:
  assumes "length bs = m + n"
  obtains xs ys where "bs = xs @ ys" "length xs = m" "length ys = n"
  using assms that [of "take m bs" "drop m bs"] by simp

lemma unat_word_less:
  "unat (a :: 2 word) < 4" "unat (b :: 4 word) < 16" "unat (c :: 8 word) < 256" "unat (d :: 12 word) < 4096"
  using unsigned_less [of a] unsigned_less [of b] unsigned_less [of c] unsigned_less [of d] by simp_all

interpretation radiotap_head: fixed_codec 8 "\<lambda>_. True" radiotap_head_enc radiotap_head_dec
proof
  fix bs :: bytes
  assume "length bs = 8"
  then obtain a r where r: "bs = a @ r" "length a = 2" "length r = 6"
    using bytes_split [of bs 2 6] by auto
  then obtain b c where "bs = a @ b @ c" "length a = 2" "length b = 2" "length c = 4"
    using bytes_split [of r 2 4] by auto
  then show "radiotap_head_enc (radiotap_head_dec bs) = bs"
    by (simp add: radiotap_head_enc_def radiotap_head_dec_def le_enc_of_nat_dec)
qed (simp_all add: radiotap_head_enc_def radiotap_head_dec_def)

interpretation radiotap: fixed_codec 13 radiotap_sized radiotap_enc radiotap_dec
  by standard (simp_all add: radiotap_sized_def radiotap_enc_def radiotap_dec_def
      radiotap_head.length_enc radiotap_head.dec_enc radiotap_head.enc_dec)

interpretation l2_head: fixed_codec 14 l2_head_sized l2_head_enc l2_head_dec
proof
  fix bs :: bytes
  assume "length bs = 14"
  then obtain a r where r: "bs = a @ r" "length a = 6" "length r = 8"
    using bytes_split [of bs 6 8] by auto
  then obtain b c where "bs = a @ b @ c" "length a = 6" "length b = 6" "length c = 2"
    using bytes_split [of r 6 2] by auto
  then show "l2_head_enc (l2_head_dec bs) = bs"
    by (simp add: l2_head_enc_def l2_head_dec_def le_enc_of_nat_dec)
qed (simp_all add: l2_head_enc_def l2_head_dec_def l2_head_sized_def)

lemma fc_split:
  fixes a b c d :: nat
  assumes "a < 4" "b < 4" "c < 16"
  defines "n \<equiv> a + 4 * b + 16 * c + 256 * d"
  shows "n mod 4 = a" "n div 4 mod 4 = b" "n div 16 mod 16 = c" "n div 256 = d"
proof -
  have n: "n = a + 4 * (b + 4 * (c + 16 * d))" by (simp add: n_def)
  have q: "n div 4 = b + 4 * (c + 16 * d)" using assms(1) unfolding n by simp
  have r: "n div 16 = c + 16 * d"
    using q assms(2) div_mult2_eq [of n 4 4] by simp
  show "n mod 4 = a" using assms(1) unfolding n by (simp only: mod_mult_self2 mod_less)
  show "n div 4 mod 4 = b" using assms(2) unfolding q by (simp only: mod_mult_self2 mod_less)
  show "n div 16 mod 16 = c" using assms(3) unfolding r by (simp only: mod_mult_self2 mod_less)
  show "n div 256 = d" using r assms(3) div_mult2_eq [of n 16 16] by simp
qed

lemma fc_join: "n mod 4 + 4 * (n div 4 mod 4) + 16 * (n div 16 mod 16) + 256 * (n div 256) = (n :: nat)"
proof -
  have "n mod 16 = 4 * (n div 4 mod 4) + n mod 4" using mod_mult2_eq [of n 4 4] by simp
  moreover have "n mod 256 = 16 * (n div 16 mod 16) + n mod 16" using mod_mult2_eq [of n 16 16] by simp
  moreover have "n = 256 * (n div 256) + n mod 256" by simp
  ultimately show ?thesis by linarith
qed

lemma fc_fields:
  "ieee80211_fc h mod 4 = unat (d11_version h)" "ieee80211_fc h div 4 mod 4 = unat (d11_type h)"
  "ieee80211_fc h div 16 mod 16 = unat (d11_subtype h)" "ieee80211_fc h div 256 = unat (d11_flags h)"
  "ieee80211_fc h < 65536"
  using unat_word_less(1) [of "d11_version h"] unat_word_less(1) [of "d11_type h"]
    unat_word_less(2) [of "d11_subtype h"] unat_word_less(3) [of "d11_flags h"] fc_split
  unfolding ieee80211_fc_def by (blast, blast, blast, blast, linarith)

lemma sc_fields:
  fixes f :: "4 word" and s :: "12 word"
  shows "(unat f + 16 * unat s) mod 16 = unat f" "(unat f + 16 * unat s) div 16 = unat s"
    "unat f + 16 * unat s < 65536"
  using unat_word_less(2) [of f] unat_word_less(4) [of s] by simp_all

lemma le_enc2_fields:
  assumes "length a = 2" "n = le_dec a"
  shows "le_enc 2 n = a"
  using assms le_enc_dec [of a] by simp

interpretation ieee80211_head: fixed_codec 24 ieee80211_head_sized ieee80211_head_enc ieee80211_head_dec
proof
  fix x :: ieee80211_head
  assume x: "ieee80211_head_sized x"
  show "length (ieee80211_head_enc x) = 24"
    using x by (simp add: ieee80211_head_enc_def ieee80211_head_sized_def)
  have "le_dec (le_enc 2 (ieee80211_fc x)) = ieee80211_fc x"
    "le_dec (le_enc 2 (unat (d11_frag_nb x) + 16 * unat (d11_seq_nb x))) =
       unat (d11_frag_nb x) + 16 * unat (d11_seq_nb x)"
    using fc_fields(5) sc_fields(3) by (simp_all add: le_dec_enc)
  then show "ieee80211_head_dec (ieee80211_head_enc x) = x"
    using x fc_fields [of x] sc_fields(1,2) [of "d11_frag_nb x" "d11_seq_nb x"]
    by (simp add: ieee80211_head_enc_def ieee80211_head_dec_def ieee80211_head_sized_def Let_def)
next
  fix bs :: bytes
  assume "length bs = 24"
  then show "ieee80211_head_sized (ieee80211_head_dec bs)"
    by (simp add: ieee80211_head_sized_def ieee80211_head_dec_def Let_def)
next
  fix bs :: bytes
  assume "length bs = 24"
  then obtain a r where "bs = a @ r" "length a = 2" "length r = 22"
    using bytes_split [of bs 2 22] by auto
  then obtain b r where "bs = a @ b @ r" "length a = 2" "length b = 2" "length r = 20"
    using bytes_split [of r 2 20] by auto
  then obtain c r where "bs = a @ b @ c @ r" "length a = 2" "length b = 2" "length c = 6" "length r = 14"
    using bytes_split [of r 6 14] by auto
  then obtain d r where "bs = a @ b @ c @ d @ r" "length a = 2" "length b = 2" "length c = 6" "length d = 6"
      "length r = 8"
    using bytes_split [of r 6 8] by auto
  then obtain e f where bs: "bs = a @ b @ c @ d @ e @ f" "length a = 2" "length b = 2" "length c = 6"
      "length d = 6" "length e = 6" "length f = 2"
    using bytes_split [of r 6 2] by auto
  have lt: "le_dec a < 65536" "le_dec f < 65536" using le_dec_less [of a] le_dec_less [of f] bs by simp_all
  have "unat (of_nat (le_dec a mod 4) :: 2 word) = le_dec a mod 4"
    "unat (of_nat (le_dec a div 4 mod 4) :: 2 word) = le_dec a div 4 mod 4"
    "unat (of_nat (le_dec a div 16 mod 16) :: 4 word) = le_dec a div 16 mod 16"
    "unat (of_nat (le_dec a div 256) :: 8 word) = le_dec a div 256"
    "unat (of_nat (le_dec f mod 16) :: 4 word) = le_dec f mod 16"
    "unat (of_nat (le_dec f div 16) :: 12 word) = le_dec f div 16"
    using lt by (simp_all add: unat_of_nat take_bit_eq_mod)
  then have "ieee80211_fc (ieee80211_head_dec bs) = le_dec a"
    "unat (d11_frag_nb (ieee80211_head_dec bs)) + 16 * unat (d11_seq_nb (ieee80211_head_dec bs)) = le_dec f"
    using bs fc_join by (simp_all add: ieee80211_fc_def ieee80211_head_dec_def Let_def)
  then have "le_enc 2 (ieee80211_fc (ieee80211_head_dec bs)) = a"
    "le_enc 2 (unat (d11_frag_nb (ieee80211_head_dec bs)) + 16 * unat (d11_seq_nb (ieee80211_head_dec bs))) = f"
    using bs by (simp_all only: le_enc2_fields)
  then show "ieee80211_head_enc (ieee80211_head_dec bs) = bs"
    using bs unfolding ieee80211_head_enc_def
    by (simp add: ieee80211_head_dec_def Let_def le_enc_of_nat_dec)
qed

interpretation iwab_head: fixed_codec 24 iwab_head_sized iwab_head_enc iwab_head_dec
proof
  fix x :: iwab_head
  assume x: "iwab_head_sized x"
  show "length (iwab_head_enc x) = 24" using x by (simp add: iwab_head_enc_def iwab_head_sized_def)
  show "iwab_head_dec (iwab_head_enc x) = x"
    using x by (simp add: iwab_head_enc_def iwab_head_dec_def iwab_head_sized_def del: le_enc.simps One_nat_def)
next
  fix bs :: bytes
  assume "length bs = 24"
  then show "iwab_head_sized (iwab_head_dec bs)" by (simp add: iwab_head_sized_def iwab_head_dec_def)
next
  fix bs :: bytes
  assume "length bs = 24"
  then obtain a r where "bs = a @ r" "length a = 1" "length r = 23"
    using bytes_split [of bs 1 23] by auto
  then obtain b r where "bs = a @ b @ r" "length a = 1" "length b = 1" "length r = 22"
    using bytes_split [of r 1 22] by auto
  then obtain c r where "bs = a @ b @ c @ r" "length a = 1" "length b = 1" "length c = 2" "length r = 20"
    using bytes_split [of r 2 20] by auto
  then obtain d r where "bs = a @ b @ c @ d @ r" "length a = 1" "length b = 1" "length c = 2" "length d = 4"
      "length r = 16"
    using bytes_split [of r 4 16] by auto
  then obtain e r where "bs = a @ b @ c @ d @ e @ r" "length a = 1" "length b = 1" "length c = 2"
      "length d = 4" "length e = 8" "length r = 8"
    using bytes_split [of r 8 8] by auto
  then obtain f g where "bs = a @ b @ c @ d @ e @ f @ g" "length a = 1" "length b = 1" "length c = 2"
      "length d = 4" "length e = 8" "length f = 1" "length g = 7"
    using bytes_split [of r 1 7] by auto
  then show "iwab_head_enc (iwab_head_dec bs) = bs"
    by (simp add: iwab_head_enc_def iwab_head_dec_def le_enc_of_nat_dec del: le_enc.simps One_nat_def)
qed

interpretation headers: fixed_codec 64 headers_sized headers_enc headers_dec
proof
  fix x :: headers
  assume x: "headers_sized x"
  show "length (headers_enc x) = 64"
    using x by (simp add: headers_enc_def headers_sized_def ieee80211_head.length_enc l2_head.length_enc
        iwab_head.length_enc)
  show "headers_dec (headers_enc x) = x"
    using x by (simp add: headers_enc_def headers_dec_def headers_sized_def ieee80211_head.length_enc
        l2_head.length_enc iwab_head.length_enc ieee80211_head.dec_enc l2_head.dec_enc iwab_head.dec_enc)
next
  fix bs :: bytes
  assume "length bs = 64"
  then show "headers_sized (headers_dec bs)"
    by (simp add: headers_sized_def headers_dec_def ieee80211_head.sized_dec l2_head.sized_dec
        iwab_head.sized_dec)
next
  fix bs :: bytes
  assume "length bs = 64"
  then obtain a r where "bs = a @ r" "length a = 24" "length r = 40"
    using bytes_split [of bs 24 40] by auto
  then obtain b r where "bs = a @ b @ r" "length a = 24" "length b = 2" "length r = 38"
    using bytes_split [of r 2 38] by auto
  then obtain c d where "bs = a @ b @ c @ d" "length a = 24" "length b = 2" "length c = 14" "length d = 24"
    using bytes_split [of r 14 24] by auto
  then show "headers_enc (headers_dec bs) = bs"
    by (simp add: headers_enc_def headers_dec_def ieee80211_head.enc_dec l2_head.enc_dec
        iwab_head.enc_dec le_enc_of_nat_dec)
qed

end
