(* ===== verification/Iwab_Net.thy ===== *)
theory Iwab_Net
  imports Iwab_Headers
begin

text \<open>
  The packet layer of the iwab modules, \<open>src/modules/iwab/net.c\<close>. The socket calls are
  parameters. A packet is read into a buffer of the caller; a pointer into it is an offset, and
  an access outside it makes the result \<^term>\<open>None\<close>.
\<close>

subsection \<open>State\<close>

datatype errno = EINVAL | EAGAIN | EINTR | EOTHER nat

datatype iov_base = IOV_NULL | IOV_RT_H_BUFF | IOV_WI_H_BUFF | IOV_USER bytes

record iovec =
  iov_base :: iov_base
  iov_len :: nat

record iwab =
  iw_fd :: int
  iw_rt_in :: "nat option"
  iw_dot11_in :: "nat option"
  iw_l2_in :: "nat option"
  iw_iw_in :: "nat option"
  iw_rt_h :: radiotap
  iw_wi_h :: headers
  iw_iov :: "iovec list"
  iw_addr_filter :: bytes

text \<open>
  The sending headers lie behind each other in the struct: \<open>rt_h\<close> and \<open>wi_h\<close> are packed, so no
  padding separates them. What a vector entry covers is read from there or from the caller's
  buffer.
\<close>

definition send_area :: "iwab \<Rightarrow> bytes" where
  "send_area iw = radiotap_enc (iw_rt_h iw) @ headers_enc (iw_wi_h iw)"

definition iov_read :: "iwab \<Rightarrow> iovec \<Rightarrow> bytes option" where
  "iov_read iw v =
     (case iov_base v of
        IOV_NULL \<Rightarrow> if iov_len v = 0 then Some [] else None
      | IOV_RT_H_BUFF \<Rightarrow> load_bytes (send_area iw) 0 (iov_len v)
      | IOV_WI_H_BUFF \<Rightarrow> load_bytes (send_area iw) 13 (iov_len v)
      | IOV_USER b \<Rightarrow> load_bytes b 0 (iov_len v))"

primrec iov_gather :: "iwab \<Rightarrow> iovec list \<Rightarrow> bytes option" where
  "iov_gather iw [] = Some []"
| "iov_gather iw (v # vs) = do { a \<leftarrow> iov_read iw v; b \<leftarrow> iov_gather iw vs; Some (a @ b) }"

subsection \<open>Receiving\<close>

datatype recv_result = Recv_error errno | Recv_data bytes

definition signed64 :: "nat \<Rightarrow> int" where
  "signed64 n = (if n < 2 ^ 63 then int n else int n - 2 ^ 64)"

text \<open>\<open>memcmp(addr, iw->addr_filter, sizeof(iw->addr_filter)) != 0\<close> for the address at \<open>off\<close>.\<close>

definition addr_differs :: "bytes \<Rightarrow> nat \<Rightarrow> bytes \<Rightarrow> bool option" where
  "addr_differs buf off filt = do { a \<leftarrow> load_bytes buf off 6; Some (a \<noteq> filt) }"

definition addrs_differ :: "bytes \<Rightarrow> nat \<Rightarrow> bytes \<Rightarrow> bool option" where
  "addrs_differ buf dot11 filt = do {
     d1 \<leftarrow> addr_differs buf (dot11 + 4) filt;
     (if d1 then Some True
      else do {
        d2 \<leftarrow> addr_differs buf (dot11 + 10) filt;
        (if d2 then Some True else addr_differs buf (dot11 + 16) filt) }) }"

text \<open>
  The dissection of a received packet: \<open>read_size\<close> bytes at the start of \<open>buf\<close>. The result is
  the error code of the function with the value of \<open>*data_offset\<close> at the return, or the offsets
  of the headers, the data offset and the payload length.
\<close>

datatype dissection =
    Rejected int nat
  | Accepted (acc_dot11: nat) (acc_l2: nat) (acc_iw: nat) (acc_data: nat) (acc_len: int)

definition dissect :: "bytes \<Rightarrow> bytes \<Rightarrow> nat \<Rightarrow> dissection option" where
  "dissect filt buf read_size =
     (if read_size \<le> 13 then Some (Rejected (-2) 0)
      else do {
        rtl \<leftarrow> load_bytes buf 2 2;
        (let dot11 = le_dec rtl
         in if size_sub read_size dot11 \<le> 24 then Some (Rejected (-3) dot11)
            else
              (let l2 = size_add dot11 26
               in if size_sub read_size l2 \<le> 14 then Some (Rejected (-4) l2)
                  else do {
                    fc \<leftarrow> load_bytes buf dot11 2;
                    (let t = le_dec fc div 4 mod 4; st = le_dec fc div 16 mod 16
                     in if t \<noteq> 2 \<or> st \<noteq> 8 then Some (Rejected (-4) l2)
                        else do {
                          foreign \<leftarrow> addrs_differ buf dot11 filt;
                          (if foreign then Some (Rejected (-5) l2)
                           else
                             (let iw = size_add l2 14
                              in if size_sub read_size iw \<le> 24 then Some (Rejected (-6) iw)
                                 else
                                   (let data = size_add iw 24
                                    in if size_sub read_size data \<le> 4 then Some (Rejected (-7) data)
                                       else Some (Accepted dot11 l2 iw data
                                              (signed64 (size_sub read_size (size_add data 4))))))) }) })) })"

text \<open>
  \<open>iwab_read\<close>: the result is the new state, the buffer, \<open>*data_offset\<close>, the return value and
  \<open>errno\<close>. \<open>recv\<close> overwrites the start of the buffer with what it received.
\<close>

definition iwab_read ::
    "(int \<Rightarrow> nat \<Rightarrow> recv_result) \<Rightarrow> iwab \<Rightarrow> bytes option \<Rightarrow> nat \<Rightarrow> errno \<Rightarrow>
       (iwab \<times> bytes option \<times> nat \<times> int \<times> errno) option" where
  "iwab_read recv iw buffer max_length err =
     (case buffer of
        None \<Rightarrow> Some (iw, None, 0, -1, EINVAL)
      | Some buf \<Rightarrow>
          (case recv (iw_fd iw) max_length of
             Recv_error e \<Rightarrow> Some (iw, Some buf, 0, -1, e)
           | Recv_data data \<Rightarrow>
               (let buf = data @ drop (length data) buf
                in case dissect (iw_addr_filter iw) buf (length data) of
                     None \<Rightarrow> None
                   | Some (Rejected r off) \<Rightarrow> Some (iw, Some buf, off, r, EAGAIN)
                   | Some (Accepted dot11 l2 iwh off len) \<Rightarrow>
                       Some (iw\<lparr>iw_rt_in := Some 0, iw_dot11_in := Some dot11, iw_l2_in := Some l2,
                                iw_iw_in := Some iwh\<rparr>,
                             Some buf, off, len, err))))"

subsection \<open>Sending\<close>

text \<open>
  \<open>iwab_send\<close>: the new state, the bytes handed to \<open>writev\<close> and the return value. The caller's
  buffer is \<^term>\<open>None\<close> for NULL.
\<close>

definition iwab_send ::
    "(int \<Rightarrow> bytes \<Rightarrow> int) \<Rightarrow> iwab \<Rightarrow> bytes option \<Rightarrow> nat \<Rightarrow> 64 word \<Rightarrow> 8 word \<Rightarrow>
       (iwab \<times> bytes \<times> int) option" where
  "iwab_send writev iw buffer len timestamp retried =
     (case buffer of
        None \<Rightarrow> Some (iw, [], -1)
      | Some b \<Rightarrow>
          (let h = hd_iw_h (iw_wi_h iw);
               h = h\<lparr>iwh_length := of_nat len\<rparr>;
               h = (if retried = 0 then h\<lparr>iwh_seq := iwh_seq h + 1\<rparr> else h);
               h = h\<lparr>iwh_timestamp := timestamp, iwh_retry := retried\<rparr>;
               iw = iw\<lparr>iw_wi_h := (iw_wi_h iw)\<lparr>hd_iw_h := h\<rparr>,
                       iw_iov := (iw_iov iw)[2 := \<lparr>iov_base = IOV_USER b, iov_len = len\<rparr>]\<rparr>
           in case iov_gather iw (iw_iov iw) of
                None \<Rightarrow> None
              | Some out \<Rightarrow> Some (iw, out, writev (iw_fd iw) out)))"

subsection \<open>Opening and closing\<close>

definition RADIOTAP_TX_FLAGS :: "32 word" where "RADIOTAP_TX_FLAGS = push_bit 15 1"
definition RADIOTAP_MCS :: "32 word" where "RADIOTAP_MCS = push_bit 19 1"

definition iwab_setup :: iwab where
  "iwab_setup =
     \<lparr>iw_fd = 0, iw_rt_in = None, iw_dot11_in = None, iw_l2_in = None, iw_iw_in = None,
      iw_rt_h =
        \<lparr>rt_head = \<lparr>rth_version = 0, rth_length = 13 + 5,
           rth_bitmap = or RADIOTAP_TX_FLAGS RADIOTAP_MCS\<rparr>,
         rt_args = [or 0x20 0x08, 0, or 0x2 0x10, 0x10, 0x1]\<rparr>,
      iw_wi_h =
        \<lparr>hd_dot11 = \<lparr>d11_version = 0, d11_type = 2, d11_subtype = 8, d11_flags = 0, d11_duration = 0,
           d11_addr1 = replicate 6 0, d11_addr2 = replicate 6 0, d11_addr3 = replicate 6 0,
           d11_frag_nb = 0, d11_seq_nb = 0\<rparr>,
         hd_dot11qos = 0,
         hd_l2 = \<lparr>l2_src_mac = replicate 6 0, l2_dst_mac = replicate 6 0, l2_ethertype = 0x8454\<rparr>,
         hd_iw_h = \<lparr>iwh_version = 0, iwh_channel = 0, iwh_length = 0, iwh_seq = 0,
           iwh_timestamp = 0, iwh_retry = 0, iwh_pad = replicate 7 0\<rparr>\<rparr>,
      iw_iov =
        [\<lparr>iov_base = IOV_RT_H_BUFF, iov_len = 18\<rparr>, \<lparr>iov_base = IOV_WI_H_BUFF, iov_len = 64\<rparr>,
         \<lparr>iov_base = IOV_NULL, iov_len = 0\<rparr>],
      iw_addr_filter = replicate 6 0\<rparr>"

text \<open>
  The calls \<open>iwab_open\<close> makes, in order. \<open>socket\<close> gives a descriptor, \<open>ioctl\<close> its result and the
  interface index.
\<close>

datatype net_call =
  Call_socket | Call_ioctl int string | Call_bind int int | Call_setsockopt int int

record net_env =
  ne_socket :: int
  ne_ioctl :: "int \<Rightarrow> string \<Rightarrow> int \<times> int"
  ne_bind :: "int \<Rightarrow> int \<Rightarrow> int"
  ne_setsockopt :: "int \<Rightarrow> int \<Rightarrow> int"

definition iwab_open ::
    "net_env \<Rightarrow> iwab option \<Rightarrow> string option \<Rightarrow> iwab option \<times> int \<times> net_call list" where
  "iwab_open env iw iface =
     (case (iw, iface) of
        (Some _, Some name) \<Rightarrow>
          (let fd = ne_socket env
           in if fd < 0 then (iw, -2, [Call_socket])
              else
                (let ifr_name = take 15 name;
                     (r, ifindex) = ne_ioctl env fd ifr_name;
                     calls = [Call_socket, Call_ioctl fd ifr_name]
                 in if r < 0 then (iw, -3, calls)
                    else if ne_bind env fd ifindex < 0 then (iw, -4, calls @ [Call_bind fd ifindex])
                    else
                      (Some (iwab_setup\<lparr>iw_fd := fd\<rparr>), 0,
                       calls @ [Call_bind fd ifindex, Call_setsockopt fd 1600])))
      | _ \<Rightarrow> (iw, -1, []))"

definition iwab_close :: "(int \<Rightarrow> int) \<Rightarrow> iwab \<Rightarrow> int" where
  "iwab_close close iw = close (iw_fd iw)"

subsection \<open>Dissection against its specification\<close>

text \<open>
  What a packet must look like: behind the radiotap header of the length it announces come 64
  bytes of headers of a QoS data frame whose three addresses are the filter, a non-empty
  payload and four bytes of checksum.
\<close>

definition rt_len :: "bytes \<Rightarrow> nat" where
  "rt_len data = le_dec (take 2 (drop 2 data))"

definition is_iwab_packet :: "bytes \<Rightarrow> bytes \<Rightarrow> bool" where
  "is_iwab_packet filt data \<longleftrightarrow>
     (let f = drop (rt_len data) data; fc = le_dec (take 2 f)
      in 13 < length data \<and> rt_len data + 68 < length data \<and>
         fc div 4 mod 4 = 2 \<and> fc div 16 mod 16 = 8 \<and>
         take 6 (drop 4 f) = filt \<and> take 6 (drop 10 f) = filt \<and> take 6 (drop 16 f) = filt)"

lemma load_bytes_prefix:
  "off + n \<le> length data \<Longrightarrow> load_bytes (data @ rest) off n = Some (take n (drop off data))"
  by (simp add: load_bytes_def)

lemma le_dec_bound: "length bs \<le> n \<Longrightarrow> le_dec bs < 256 ^ n"
  using le_dec_less [of bs] by (rule less_le_trans) (simp add: power_increasing)

lemma rt_len_less: "rt_len data < 65536"
  using le_dec_bound [of "take 2 (drop 2 data)" 2] by (simp add: rt_len_def)

lemma addrs_differ_eq:
  assumes "dot11 + 22 \<le> length data"
  shows "addrs_differ (data @ rest) dot11 filt =
    Some (\<not> (take 6 (drop (dot11 + 4) data) = filt \<and> take 6 (drop (dot11 + 10) data) = filt \<and>
      take 6 (drop (dot11 + 16) data) = filt))"
  using assms by (simp add: addrs_differ_def addr_differs_def load_bytes_prefix)

text \<open>
  On a packet whose announced radiotap length neither exceeds the packet nor leaves exactly 25
  bytes, no unsigned subtraction wraps, and the dissection agrees with the specification.
\<close>

definition no_wrap :: "bytes \<Rightarrow> bool" where
  "no_wrap data \<longleftrightarrow> rt_len data \<le> length data \<and> length data \<noteq> rt_len data + 25 \<and> length data < 2 ^ 63"

lemma dissect_spec:
  assumes nw: "no_wrap data"
  shows "dissect filt (data @ rest) (length data) \<noteq> None"
    and "is_iwab_packet filt data \<Longrightarrow> dissect filt (data @ rest) (length data) =
      Some (Accepted (rt_len data) (rt_len data + 26) (rt_len data + 40) (rt_len data + 64)
        (int (length data - (rt_len data + 68))))"
    and "\<not> is_iwab_packet filt data \<Longrightarrow>
      \<exists>r off. dissect filt (data @ rest) (length data) = Some (Rejected r off) \<and> -7 \<le> r \<and> r \<le> -2"
proof -
  let ?n = "length data" and ?rt = "rt_len data"
  have rt: "?rt < 65536" by (rule rt_len_less)
  have nw': "?rt \<le> ?n" "?n \<noteq> ?rt + 25" "?n < 2 ^ 63" using nw by (simp_all add: no_wrap_def)
  have ld: "load_bytes (data @ rest) 2 2 = Some (take 2 (drop 2 data))" if "13 < ?n"
    using that by (intro load_bytes_prefix) simp
  have s1: "size_sub ?n ?rt = ?n - ?rt" using nw' by (intro size_sub_id) simp_all
  have a: "size_add ?rt 26 = ?rt + 26" "size_add (?rt + 26) 14 = ?rt + 40"
    "size_add (?rt + 40) 24 = ?rt + 64" "size_add (?rt + 64) 4 = ?rt + 68"
    using rt by (simp_all add: size_add_id)
  have s: "size_sub ?n (?rt + k) = ?n - (?rt + k)" if "?rt + k \<le> ?n" for k
    using that nw' by (intro size_sub_id) simp_all
  have fc: "load_bytes (data @ rest) ?rt 2 = Some (take 2 (drop ?rt data))" if "?rt + 26 \<le> ?n"
    using that by (intro load_bytes_prefix) simp
  have ad: "addrs_differ (data @ rest) ?rt filt =
    Some (\<not> (take 6 (drop (?rt + 4) data) = filt \<and> take 6 (drop (?rt + 10) data) = filt \<and>
      take 6 (drop (?rt + 16) data) = filt))" if "?rt + 26 \<le> ?n"
    using that by (intro addrs_differ_eq) simp
  have sg: "signed64 (?n - (?rt + 68)) = int (?n - (?rt + 68))" using nw' by (simp add: signed64_def)
  define fcv where "fcv = le_dec (take 2 (drop ?rt data))"
  define ours where "ours = (take 6 (drop (?rt + 4) data) = filt \<and> take 6 (drop (?rt + 10) data) = filt \<and>
    take 6 (drop (?rt + 16) data) = filt)"
  define acc where "acc = Accepted ?rt (?rt + 26) (?rt + 40) (?rt + 64)"
  have pk: "is_iwab_packet filt data \<longleftrightarrow> 13 < ?n \<and> ?rt + 68 < ?n \<and> fcv div 4 mod 4 = 2 \<and>
      fcv div 16 mod 16 = 8 \<and> ours"
    by (simp add: is_iwab_packet_def Let_def fcv_def ours_def add.commute)
  consider "?n \<le> 13" | "13 < ?n" "?n \<le> ?rt + 24" | "13 < ?n" "?rt + 26 \<le> ?n" using nw'(2) by linarith
  then have "(if is_iwab_packet filt data
     then dissect filt (data @ rest) ?n = Some (acc (int (?n - (?rt + 68))))
     else \<exists>r off. dissect filt (data @ rest) ?n = Some (Rejected r off) \<and> -7 \<le> r \<and> r \<le> -2)"
  proof cases
    case 1
    then show ?thesis unfolding pk by (simp add: dissect_def)
  next
    case 2
    have "dissect filt (data @ rest) ?n = Some (Rejected (-3) ?rt)"
      using 2 diff_le_mono [OF 2(2), of ?rt] unfolding dissect_def
      by (simp only: ld [OF 2(1)] s1 Let_def rt_len_def [symmetric] bind.bind_lunit) simp
    then show ?thesis unfolding pk using 2 by simp
  next
    case 3
    have "dissect filt (data @ rest) ?n =
      (if ?n - (?rt + 26) \<le> 14 then Some (Rejected (-4) (?rt + 26))
       else if fcv div 4 mod 4 \<noteq> 2 \<or> fcv div 16 mod 16 \<noteq> 8 then Some (Rejected (-4) (?rt + 26))
       else if \<not> ours then Some (Rejected (-5) (?rt + 26))
       else if size_sub ?n (?rt + 40) \<le> 24 then Some (Rejected (-6) (?rt + 40))
       else if size_sub ?n (?rt + 64) \<le> 4 then Some (Rejected (-7) (?rt + 64))
       else Some (acc (signed64 (size_sub ?n (?rt + 68)))))"
      using 3 unfolding dissect_def
      by (simp only: ld [OF 3(1)] s1 a s [OF 3(2)] fc [OF 3(2)] ad [OF 3(2)] Let_def
          rt_len_def [symmetric] fcv_def [symmetric] ours_def [symmetric] acc_def [symmetric]
          bind.bind_lunit) simp
    then have d: "dissect filt (data @ rest) ?n =
      (if ?n \<le> ?rt + 40 then Some (Rejected (-4) (?rt + 26))
       else if fcv div 4 mod 4 \<noteq> 2 \<or> fcv div 16 mod 16 \<noteq> 8 then Some (Rejected (-4) (?rt + 26))
       else if \<not> ours then Some (Rejected (-5) (?rt + 26))
       else if ?n \<le> ?rt + 64 then Some (Rejected (-6) (?rt + 40))
       else if ?n \<le> ?rt + 68 then Some (Rejected (-7) (?rt + 64))
       else Some (acc (int (?n - (?rt + 68)))))"
      using s [of 40] s [of 64] s [of 68] sg by (simp add: le_diff_conv)
    show ?thesis
    proof (cases "?rt + 68 < ?n \<and> fcv div 4 mod 4 = 2 \<and> fcv div 16 mod 16 = 8 \<and> ours")
      case True
      then show ?thesis unfolding pk d using 3 by simp
    next
      case False
      then have "\<exists>r off. dissect filt (data @ rest) ?n = Some (Rejected r off) \<and> -7 \<le> r \<and> r \<le> -2"
        unfolding d by (simp only: split: if_split) fastforce
      moreover have "\<not> is_iwab_packet filt data" using False unfolding pk by blast
      ultimately show ?thesis by simp
    qed
  qed
  then show "dissect filt (data @ rest) (length data) \<noteq> None"
    "is_iwab_packet filt data \<Longrightarrow> dissect filt (data @ rest) (length data) =
      Some (Accepted ?rt (?rt + 26) (?rt + 40) (?rt + 64) (int (?n - (?rt + 68))))"
    "\<not> is_iwab_packet filt data \<Longrightarrow>
      \<exists>r off. dissect filt (data @ rest) (length data) = Some (Rejected r off) \<and> -7 \<le> r \<and> r \<le> -2"
    by (auto simp: acc_def split: if_splits)
qed


subsection \<open>Sending\<close>

text \<open>A stream whose sending side is as \<^const>\<open>iwab_setup\<close> leaves it, but for the packet fields.\<close>

definition iwab_ready :: "iwab \<Rightarrow> bool" where
  "iwab_ready iw \<longleftrightarrow>
     (\<exists>v. iw_iov iw = [\<lparr>iov_base = IOV_RT_H_BUFF, iov_len = 18\<rparr>, \<lparr>iov_base = IOV_WI_H_BUFF, iov_len = 64\<rparr>, v]) \<and>
     radiotap_sized (iw_rt_h iw) \<and> headers_sized (iw_wi_h iw) \<and>
     d11_type (hd_dot11 (iw_wi_h iw)) = 2 \<and> d11_subtype (hd_dot11 (iw_wi_h iw)) = 8 \<and>
     d11_addr1 (hd_dot11 (iw_wi_h iw)) = iw_addr_filter iw \<and>
     d11_addr2 (hd_dot11 (iw_wi_h iw)) = iw_addr_filter iw \<and>
     d11_addr3 (hd_dot11 (iw_wi_h iw)) = iw_addr_filter iw"

lemma iwab_setup_ready: "iwab_ready (iwab_setup\<lparr>iw_fd := fd\<rparr>)"
  by (simp add: iwab_ready_def iwab_setup_def radiotap_sized_def headers_sized_def
      ieee80211_head_sized_def l2_head_sized_def iwab_head_sized_def)

definition stamped :: "iwab_head \<Rightarrow> nat \<Rightarrow> 64 word \<Rightarrow> 8 word \<Rightarrow> iwab_head" where
  "stamped h len ts r =
     h\<lparr>iwh_length := of_nat len, iwh_seq := (if r = 0 then iwh_seq h + 1 else iwh_seq h),
       iwh_timestamp := ts, iwh_retry := r\<rparr>"

lemma iwab_send_spec:
  assumes rd: "iwab_ready iw" and len: "len \<le> length b"
  shows "\<exists>iw'. iwab_send writev iw (Some b) len ts r =
      Some (iw', take 18 (send_area iw') @ headers_enc (iw_wi_h iw') @ take len b,
        writev (iw_fd iw) (take 18 (send_area iw') @ headers_enc (iw_wi_h iw') @ take len b)) \<and>
    iwab_ready iw' \<and> iw_fd iw' = iw_fd iw \<and> iw_addr_filter iw' = iw_addr_filter iw \<and>
    iw_rt_h iw' = iw_rt_h iw \<and>
    iw_wi_h iw' = (iw_wi_h iw)\<lparr>hd_iw_h := stamped (hd_iw_h (iw_wi_h iw)) len ts r\<rparr> \<and>
    length (take 18 (send_area iw')) = 18"
proof -
  let ?h = "stamped (hd_iw_h (iw_wi_h iw)) len ts r"
  let ?iw = "iw\<lparr>iw_wi_h := (iw_wi_h iw)\<lparr>hd_iw_h := ?h\<rparr>,
    iw_iov := (iw_iov iw)[2 := \<lparr>iov_base = IOV_USER b, iov_len = len\<rparr>]\<rparr>"
  have rd': "iwab_ready ?iw" and iov: "iw_iov ?iw =
      [\<lparr>iov_base = IOV_RT_H_BUFF, iov_len = 18\<rparr>, \<lparr>iov_base = IOV_WI_H_BUFF, iov_len = 64\<rparr>,
       \<lparr>iov_base = IOV_USER b, iov_len = len\<rparr>]"
    using rd by (auto simp: iwab_ready_def headers_sized_def iwab_head_sized_def stamped_def numeral_2_eq_2)
  have "length (radiotap_enc (iw_rt_h ?iw)) = 13" "length (headers_enc (iw_wi_h ?iw)) = 64"
    using rd' radiotap.length_enc headers.length_enc unfolding iwab_ready_def by blast+
  then have rd1: "load_bytes (send_area ?iw) 0 18 = Some (take 18 (send_area ?iw))"
    and rd2: "load_bytes (send_area ?iw) 13 64 = Some (headers_enc (iw_wi_h ?iw))"
    and len': "length (take 18 (send_area ?iw)) = 18"
    by (simp_all add: load_bytes_def send_area_def)
  have g: "iov_gather ?iw (iw_iov ?iw) =
      Some (take 18 (send_area ?iw) @ headers_enc (iw_wi_h ?iw) @ take len b)"
    unfolding iov using rd1 rd2 len by (simp add: iov_read_def load_bytes_def [of b])
  have eq: "(let h = hd_iw_h (iw_wi_h iw); h = h\<lparr>iwh_length := of_nat len\<rparr>;
      h = (if r = 0 then h\<lparr>iwh_seq := iwh_seq h + 1\<rparr> else h)
      in h\<lparr>iwh_timestamp := ts, iwh_retry := r\<rparr>) = ?h"
    by (simp add: stamped_def Let_def)
  have "iwab_send writev iw (Some b) len ts r =
      Some (?iw, take 18 (send_area ?iw) @ headers_enc (iw_wi_h ?iw) @ take len b,
        writev (iw_fd iw) (take 18 (send_area ?iw) @ headers_enc (iw_wi_h ?iw) @ take len b))"
    unfolding iwab_send_def using g eq by (simp add: Let_def)
  then show ?thesis using rd' len' by (intro exI [of _ ?iw]) simp
qed

lemma headers_enc_fields:
  assumes "headers_sized h"
  shows "take 2 (headers_enc h @ rest) = le_enc 2 (ieee80211_fc (hd_dot11 h))"
    "take 6 (drop 4 (headers_enc h @ rest)) = d11_addr1 (hd_dot11 h)"
    "take 6 (drop 10 (headers_enc h @ rest)) = d11_addr2 (hd_dot11 h)"
    "take 6 (drop 16 (headers_enc h @ rest)) = d11_addr3 (hd_dot11 h)"
    "take 24 (drop 40 (headers_enc h @ rest)) = iwab_head_enc (hd_iw_h h)"
proof -
  have l: "length (d11_addr1 (hd_dot11 h)) = 6" "length (d11_addr2 (hd_dot11 h)) = 6"
    "length (d11_addr3 (hd_dot11 h)) = 6" "length (l2_head_enc (hd_l2 h)) = 14"
    "length (iwab_head_enc (hd_iw_h h)) = 24"
    using assms by (simp_all add: headers_sized_def ieee80211_head_sized_def l2_head.length_enc
        iwab_head.length_enc)
  show "take 2 (headers_enc h @ rest) = le_enc 2 (ieee80211_fc (hd_dot11 h))"
    "take 6 (drop 4 (headers_enc h @ rest)) = d11_addr1 (hd_dot11 h)"
    "take 6 (drop 10 (headers_enc h @ rest)) = d11_addr2 (hd_dot11 h)"
    "take 6 (drop 16 (headers_enc h @ rest)) = d11_addr3 (hd_dot11 h)"
    "take 24 (drop 40 (headers_enc h @ rest)) = iwab_head_enc (hd_iw_h h)"
    using l by (simp_all add: headers_enc_def ieee80211_head_enc_def)
qed

text \<open>
  What a monitor interface delivers for a frame it received: a radiotap header of its own, which
  announces its length, the frame, and the frame's checksum.
\<close>

definition captured :: "bytes \<Rightarrow> bytes \<Rightarrow> bytes \<Rightarrow> bytes" where
  "captured rt frame fcs = rt @ frame @ fcs"

definition radiotap_ok :: "bytes \<Rightarrow> bool" where
  "radiotap_ok rt \<longleftrightarrow> 8 \<le> length rt \<and> le_dec (take 2 (drop 2 rt)) = length rt"

lemma captured_packet:
  assumes h: "headers_sized h" "d11_type (hd_dot11 h) = 2" "d11_subtype (hd_dot11 h) = 8"
    "d11_addr1 (hd_dot11 h) = filt" "d11_addr2 (hd_dot11 h) = filt" "d11_addr3 (hd_dot11 h) = filt"
    and rt: "radiotap_ok rt" and b: "b \<noteq> []" "length fcs = 4" and len: "length b < 2 ^ 32"
  defines "data \<equiv> captured rt (headers_enc h @ b) fcs"
  shows "rt_len data = length rt" "is_iwab_packet filt data" "no_wrap data"
    "length data = length rt + 68 + length b"
proof -
  have l: "length (headers_enc h) = 64" using h(1) by (rule headers.length_enc)
  show e: "rt_len data = length rt"
    using rt by (simp add: data_def captured_def rt_len_def radiotap_ok_def)
  show n: "length data = length rt + 68 + length b" using b l by (simp add: data_def captured_def)
  have "length rt < 65536" using rt_len_less [of data] e by simp
  then show "no_wrap data" unfolding no_wrap_def e n using len by simp
  let ?f = "headers_enc h @ b @ fcs"
  have f: "drop (length rt) data = ?f" by (simp add: data_def captured_def)
  have "le_dec (take 2 ?f) = ieee80211_fc (hd_dot11 h)"
    unfolding headers_enc_fields(1) [OF h(1)] using fc_fields(5) by (simp add: le_dec_enc)
  then have fc: "le_dec (take 2 ?f) div 4 mod 4 = 2" "le_dec (take 2 ?f) div 16 mod 16 = 8"
    using h(2,3) fc_fields(2,3) [of "hd_dot11 h"] by simp_all
  show "is_iwab_packet filt data"
    unfolding is_iwab_packet_def Let_def e f
    using fc n b headers_enc_fields(2-4) [OF h(1), of "b @ fcs"] h(4-6) by (cases b) simp_all
qed

subsection \<open>Properties\<close>

text \<open>A receive buffer for the witnesses.\<close>

definition demo_buffer :: bytes where
  "demo_buffer = replicate 1600 0"

lemma length_demo_buffer: "length demo_buffer = 1600"
  by (simp only: demo_buffer_def length_replicate)

text \<open>
  C10: for every received packet whose announced radiotap length makes no subtraction wrap,
  \<^const>\<open>iwab_read\<close> stays inside the buffer; it accepts exactly the packets of the specification,
  with the payload between the 64 header bytes and the four checksum bytes, and refuses every
  other one with a negative code, \<open>EAGAIN\<close> and its state unchanged.
\<close>

theorem iwab_read_exact:
  assumes "recv (iw_fd iw) max_length = Recv_data data" "no_wrap data"
  shows "\<exists>iw' off r err'. iwab_read recv iw (Some buf) max_length err =
      Some (iw', Some (data @ drop (length data) buf), off, r, err') \<and>
    (if is_iwab_packet (iw_addr_filter iw) data
     then off = rt_len data + 64 \<and> r = int (length data - (rt_len data + 68)) \<and> 0 < r \<and> err' = err \<and>
       iw' = iw\<lparr>iw_rt_in := Some 0, iw_dot11_in := Some (rt_len data), iw_l2_in := Some (rt_len data + 26),
         iw_iw_in := Some (rt_len data + 40)\<rparr>
     else -7 \<le> r \<and> r \<le> -2 \<and> err' = EAGAIN \<and> iw' = iw)"
proof (cases "is_iwab_packet (iw_addr_filter iw) data")
  case True
  have "rt_len data + 68 < length data" using True by (simp add: is_iwab_packet_def Let_def)
  then show ?thesis
    using True assms(1) dissect_spec(2) [OF assms(2) True, of "drop (length data) buf"]
    by (simp add: iwab_read_def Let_def)
next
  case False
  then show ?thesis
    using assms(1) dissect_spec(3) [OF assms(2) False, of "drop (length data) buf"]
    by (auto simp: iwab_read_def Let_def)
qed

text \<open>
  C9: what one station sends, another with the same filter receives: whatever radiotap header
  its driver puts in front and whatever checksum follows, \<^const>\<open>iwab_read\<close> returns the length of
  the payload, its place in the buffer, and the header the sender stamped, with the sequence
  number advanced exactly when the packet is not a retry.
\<close>

theorem send_receive_roundtrip:
  assumes tx: "iwab_ready iw" and b: "b \<noteq> []" "length b < 2 ^ 16"
    and snd: "iwab_send writev iw (Some b) (length b) ts r = Some (iw', out, ret)"
    and air: "radiotap_ok rt" "length fcs = 4" "recv (iw_fd rx) max_length = Recv_data (captured rt (drop 18 out) fcs)"
    and rx: "iw_addr_filter rx = iw_addr_filter iw"
  shows "\<exists>rx' buf' off. iwab_read recv rx (Some buf) max_length err =
      Some (rx', Some buf', off, int (length b), err) \<and>
    take (length b) (drop off buf') = b \<and>
    (\<exists>p. iw_iw_in rx' = Some p \<and>
       iwab_head_dec (take 24 (drop p buf')) = stamped (hd_iw_h (iw_wi_h iw)) (length b) ts r)"
proof -
  from iwab_send_spec [OF tx order_refl, of writev b ts r] snd
  have out: "out = take 18 (send_area iw') @ headers_enc (iw_wi_h iw') @ b" "iwab_ready iw'"
    "iw_addr_filter iw' = iw_addr_filter iw" "length (take 18 (send_area iw')) = 18"
    "iw_wi_h iw' = (iw_wi_h iw)\<lparr>hd_iw_h := stamped (hd_iw_h (iw_wi_h iw)) (length b) ts r\<rparr>"
    by auto
  let ?h = "iw_wi_h iw'"
  define data where "data = captured rt (headers_enc ?h @ b) fcs"
  have h: "headers_sized ?h" "d11_type (hd_dot11 ?h) = 2" "d11_subtype (hd_dot11 ?h) = 8"
    "d11_addr1 (hd_dot11 ?h) = iw_addr_filter rx" "d11_addr2 (hd_dot11 ?h) = iw_addr_filter rx"
    "d11_addr3 (hd_dot11 ?h) = iw_addr_filter rx"
    using out(2,3) rx by (simp_all add: iwab_ready_def)
  have "length b < 2 ^ 32" using b(2) by simp
  note pk = captured_packet [OF h air(1) b(1) air(2) this, folded data_def]
  have "drop 18 out = headers_enc ?h @ b" unfolding out(1) using out(4) by simp
  then have rcv: "recv (iw_fd rx) max_length = Recv_data data" using air(3) by (simp add: data_def)
  have l: "length (headers_enc ?h) = 64" using h(1) by (rule headers.length_enc)
  let ?buf = "data @ drop (length data) buf"
  have pay: "take (length b) (drop (length rt + 64) ?buf) = b"
    using l by (simp add: data_def captured_def)
  have "drop (length rt + 40) ?buf = drop 40 (headers_enc ?h @ b @ fcs @ drop (length data) buf)"
    by (simp add: data_def captured_def)
  then have "take 24 (drop (length rt + 40) ?buf) = iwab_head_enc (hd_iw_h ?h)"
    by (simp only: headers_enc_fields(5) [OF h(1)])
  moreover have "iwab_head_sized (hd_iw_h ?h)" using h(1) by (simp add: headers_sized_def)
  ultimately have hdr: "iwab_head_dec (take 24 (drop (length rt + 40) ?buf)) =
      stamped (hd_iw_h (iw_wi_h iw)) (length b) ts r"
    using iwab_head.dec_enc out(5) by simp
  have "iwab_read recv rx (Some buf) max_length err =
      Some (rx\<lparr>iw_rt_in := Some 0, iw_dot11_in := Some (length rt), iw_l2_in := Some (length rt + 26),
          iw_iw_in := Some (length rt + 40)\<rparr>, Some ?buf, length rt + 64, int (length b), err)"
    using rcv dissect_spec(2) [OF pk(3,2), of "drop (length data) buf"] pk(1,4)
    by (simp add: iwab_read_def Let_def)
  then show ?thesis using pay hdr by simp
qed

theorem iwab_read_exact_witness:
  "\<exists>iw' off r err'. iwab_read (\<lambda>_ _. Recv_data (replicate 20 0)) iwab_setup (Some demo_buffer) 1600 EAGAIN =
     Some (iw', Some (replicate 20 0 @ drop (length (replicate 20 (0 :: byte))) demo_buffer), off, r, err') \<and>
     r \<le> -2"
proof -
  have "rt_len (replicate 20 0) = 0" by (simp add: rt_len_def numeral_2_eq_2)
  then have nw: "no_wrap (replicate 20 0)" by (simp add: no_wrap_def)
  have "\<not> is_iwab_packet (iw_addr_filter iwab_setup) (replicate 20 0)"
    by (simp add: is_iwab_packet_def Let_def)
  with iwab_read_exact [OF _ nw, of "\<lambda>_ _. Recv_data (replicate 20 0)" iwab_setup 1600
      demo_buffer EAGAIN]
  show ?thesis by auto
qed

theorem send_receive_roundtrip_witness:
  "\<exists>iw' out ret rx' buf' off.
     iwab_send (\<lambda>_ bs. int (length bs)) iwab_setup (Some [1, 2, 3, 4]) 4 1000 0 = Some (iw', out, ret) \<and>
     iwab_read (\<lambda>_ _. Recv_data (captured [0, 0, 8, 0, 0, 0, 0, 0] (drop 18 out) [9, 9, 9, 9])) iwab_setup
       (Some demo_buffer) 1600 EAGAIN = Some (rx', Some buf', off, 4, EAGAIN) \<and>
     take 4 (drop off buf') = [1, 2, 3, 4]"
proof -
  have rd: "iwab_ready iwab_setup" using iwab_setup_ready [of 0] by (simp add: iwab_setup_def)
  obtain iw' out ret where s:
    "iwab_send (\<lambda>_ bs. int (length bs)) iwab_setup (Some [1, 2, 3, 4]) 4 1000 0 = Some (iw', out, ret)"
    using iwab_send_spec [OF rd, of 4 "[1, 2, 3, 4]"] by fastforce
  have rt: "radiotap_ok [0, 0, 8, 0, 0, 0, 0, 0]" by (simp add: radiotap_ok_def)
  have four: "length [1, 2, 3, 4 :: byte] = 4" by simp
  note t = send_receive_roundtrip [where b = "[1, 2, 3, 4]", unfolded four, OF rd _ _ s rt, of "[9, 9, 9, 9]"
      "\<lambda>_ _. Recv_data (captured [0, 0, 8, 0, 0, 0, 0, 0] (drop 18 out) [9, 9, 9, 9])" iwab_setup 1600
      demo_buffer EAGAIN]
  have "\<exists>rx' buf' off. iwab_read (\<lambda>_ _. Recv_data (captured [0, 0, 8, 0, 0, 0, 0, 0] (drop 18 out) [9, 9, 9, 9]))
      iwab_setup (Some demo_buffer) 1600 EAGAIN = Some (rx', Some buf', off, 4, EAGAIN) \<and>
      take 4 (drop off buf') = [1, 2, 3, 4]"
    using t by auto
  then show ?thesis using s by blast
qed

text \<open>
  C31: a packet that announces a radiotap header reaching past the receive buffer passes the
  size guards, because the difference wraps to a huge number, and makes \<^const>\<open>iwab_read\<close> read
  outside the buffer.
\<close>

theorem oversized_radiotap_escapes:
  assumes "recv (iw_fd iw) max_length = Recv_data data" "13 < length data" "length data \<le> length buf"
    and "length data < rt_len data" "length buf < rt_len data + 2"
  shows "iwab_read recv iw (Some buf) max_length err = None"
proof -
  let ?b = "data @ drop (length data) buf" and ?n = "length data" and ?rt = "rt_len data"
  have rt: "?rt < 65536" by (rule rt_len_less)
  have "load_bytes ?b 2 2 = Some (take 2 (drop 2 data))" using assms(2) by (intro load_bytes_prefix) simp
  moreover have "size_sub ?n ?rt = 2 ^ 64 - (?rt - ?n)" using rt assms(4) by (intro size_sub_wraps) simp_all
  moreover have "size_add ?rt 26 = ?rt + 26" using rt by (intro size_add_id) simp
  moreover have "size_sub ?n (?rt + 26) = 2 ^ 64 - (?rt + 26 - ?n)"
    using rt assms(4) by (intro size_sub_wraps) simp_all
  moreover have "load_bytes ?b ?rt 2 = None" using assms(3,5) by (simp add: load_bytes_eq_None)
  moreover have "\<not> 2 ^ 64 - (?rt - ?n) \<le> 24" "\<not> 2 ^ 64 - (?rt + 26 - ?n) \<le> 14" using rt by simp_all
  ultimately have "dissect (iw_addr_filter iw) ?b ?n = None"
    using assms(2) unfolding dissect_def by (simp add: rt_len_def [symmetric] Let_def)
  then show ?thesis using assms(1) by (simp add: iwab_read_def Let_def)
qed

theorem oversized_radiotap_escapes_witness:
  "iwab_read (\<lambda>_ _. Recv_data ([0, 0, 255, 255] @ replicate 10 0)) iwab_setup (Some demo_buffer) 1600 EAGAIN
     = None"
  by (rule oversized_radiotap_escapes [where data = "[0, 0, 255, 255] @ replicate 10 0"])
     (simp_all add: rt_len_def length_demo_buffer)

text \<open>
  C32: a frame of exactly 25 bytes behind the radiotap header with the right type and addresses
  is taken for a packet: the remaining size wraps past every later guard and the function
  returns the payload length -43 with its pointers set past the frame and \<open>errno\<close> untouched.
\<close>

theorem truncated_frame_wraps:
  assumes "recv (iw_fd iw) max_length = Recv_data data" "length data = rt_len data + 25"
    and "le_dec (take 2 (drop (rt_len data) data)) div 4 mod 4 = 2"
    and "le_dec (take 2 (drop (rt_len data) data)) div 16 mod 16 = 8"
    and "take 6 (drop (rt_len data + 4) data) = iw_addr_filter iw"
    and "take 6 (drop (rt_len data + 10) data) = iw_addr_filter iw"
    and "take 6 (drop (rt_len data + 16) data) = iw_addr_filter iw"
  shows "\<exists>iw' buf'. iwab_read recv iw (Some buf) max_length err =
      Some (iw', Some buf', rt_len data + 64, -43, err) \<and> iw_iw_in iw' = Some (rt_len data + 40)"
proof -
  let ?b = "data @ drop (length data) buf" and ?n = "length data" and ?rt = "rt_len data"
  have rt: "?rt < 65536" by (rule rt_len_less)
  have ld: "load_bytes ?b 2 2 = Some (take 2 (drop 2 data))" "load_bytes ?b ?rt 2 = Some (take 2 (drop ?rt data))"
    using assms(2) by (simp_all add: load_bytes_prefix)
  have ad: "addrs_differ ?b ?rt (iw_addr_filter iw) = Some False"
    using assms(2,5-7) by (simp add: addrs_differ_eq)
  have s: "size_sub ?n ?rt = 25" "size_add ?rt 26 = ?rt + 26" "size_add (?rt + 26) 14 = ?rt + 40"
    "size_add (?rt + 40) 24 = ?rt + 64" "size_add (?rt + 64) 4 = ?rt + 68"
    using assms(2) rt by (simp_all add: size_sub_id size_add_id)
  have w: "size_sub ?n (?rt + k) = 2 ^ 64 - (k - 25)" if "25 < k" "k < 100" for k
    unfolding assms(2) using size_sub_wraps [of "?rt + 25" "?rt + k"] that rt by simp
  have w': "size_sub ?n (?rt + 26) = 2 ^ 64 - 1" "size_sub ?n (?rt + 40) = 2 ^ 64 - 15"
    "size_sub ?n (?rt + 64) = 2 ^ 64 - 39" "size_sub ?n (?rt + 68) = 2 ^ 64 - 43"
    using w [of 26] w [of 40] w [of 64] w [of 68] by simp_all
  have "13 < ?n" using assms(2) by simp
  then have "dissect (iw_addr_filter iw) ?b ?n =
      Some (Accepted ?rt (?rt + 26) (?rt + 40) (?rt + 64) (signed64 (2 ^ 64 - 43)))"
    unfolding dissect_def using assms(3,4)
    by (simp add: ld ad s w' rt_len_def [symmetric] Let_def)
  then show ?thesis using assms(1) by (simp add: iwab_read_def Let_def signed64_def)
qed

theorem truncated_frame_wraps_witness:
  "\<exists>iw' buf'. iwab_read (\<lambda>_ _. Recv_data [0, 0, 8, 0, 0, 0, 0, 0, 0x88, 0, 0, 0, 0, 0, 0, 0, 0, 0, 0, 0, 0, 0, 0, 0,
     0, 0, 0, 0, 0, 0, 0, 0, 0]) iwab_setup
     (Some demo_buffer) 1600 EINTR = Some (iw', Some buf', 72, -43, EINTR)"
proof -
  let ?d = "[0, 0, 8, 0, 0, 0, 0, 0, 0x88, 0, 0, 0, 0, 0, 0, 0, 0, 0, 0, 0, 0, 0, 0, 0, 0, 0, 0, 0, 0, 0, 0, 0,
    0 :: byte]"
  have rt: "rt_len ?d = 8" by (simp add: rt_len_def)
  have f: "iw_addr_filter iwab_setup = [0, 0, 0, 0, 0, 0]"
    by (simp add: iwab_setup_def numeral_eq_Suc)
  have d: "length ?d = rt_len ?d + 25" "take 2 (drop (rt_len ?d) ?d) = [0x88, 0]"
    "take 6 (drop (rt_len ?d + 4) ?d) = [0, 0, 0, 0, 0, 0]"
    "take 6 (drop (rt_len ?d + 10) ?d) = [0, 0, 0, 0, 0, 0]"
    "take 6 (drop (rt_len ?d + 16) ?d) = [0, 0, 0, 0, 0, 0]"
    unfolding rt by simp_all
  have "le_dec [0x88, 0] div 4 mod 4 = 2" "le_dec [0x88, 0] div 16 mod 16 = 8" by simp_all
  then show ?thesis
    using truncated_frame_wraps [of "\<lambda>_ _. Recv_data ?d" iwab_setup 1600 ?d demo_buffer EINTR]
    unfolding d f rt by auto
qed

end
