(* ===== verification/Iwab_Input.thy ===== *)
theory Iwab_Input
  imports Memblockq_Props Iwab_Net
begin

text \<open>
  The receiving module \<open>src/modules/iwab/iwab-input.c\<close>: packets read from the socket are checked
  for order, gaps are filled with copies of the packet that follows, and the payload is pushed
  into a memory block queue from which the sink input is fed.

  The pending results of \<open>recv\<close> on the non-blocking socket are a list; when it is used up the
  call fails with \<open>EAGAIN\<close>. The memory pool of the core is the pool in the queue's state.
\<close>

subsection \<open>State\<close>

datatype pa_sink_state_t =
    PA_SINK_INVALID_STATE | PA_SINK_RUNNING | PA_SINK_IDLE | PA_SINK_SUSPENDED | PA_SINK_INIT
  | PA_SINK_UNLINKED

definition PA_SINK_IS_OPENED :: "pa_sink_state_t \<Rightarrow> bool" where
  "PA_SINK_IS_OPENED x \<longleftrightarrow> x = PA_SINK_RUNNING \<or> x = PA_SINK_IDLE"

definition MAX_FRAME_SIZE_IN :: nat where "MAX_FRAME_SIZE_IN = 1600"

record pollfd =
  pf_fd :: int
  pf_events :: "16 word"
  pf_revents :: "16 word"

definition POLLIN :: "16 word" where "POLLIN = 0x001"
definition POLLOUT :: "16 word" where "POLLOUT = 0x004"
definition POLLERR :: "16 word" where "POLLERR = 0x008"
definition POLLHUP :: "16 word" where "POLLHUP = 0x010"
definition POLLNVAL :: "16 word" where "POLLNVAL = 0x020"

record input_userdata =
  ui_sink_input :: bool
  ui_queue :: pa_memblockq
  ui_rtpoll_item :: "pollfd option"
  ui_seqnb :: "32 word"
  ui_last_pb_ts :: "64 word"
  ui_istream :: iwab
  ui_ss :: pa_sample_spec
  ui_lost_pb :: "64 word"
  ui_lost_prop :: "64 word"
  ui_errno :: errno
  ui_unload_requested :: bool

definition ui_set_pool :: "input_userdata \<Rightarrow> pa_mempool \<Rightarrow> input_userdata" where
  "ui_set_pool u p = u\<lparr>ui_queue := (ui_queue u)\<lparr>mq_pool := p\<rparr>\<rparr>"

subsection \<open>Callbacks of the sink input\<close>

text \<open>
  \<open>sink_input_process_msg\<close> for \<open>PA_SINK_INPUT_MESSAGE_GET_LATENCY\<close>: the latency of the queue,
  to which the default handler adds its own share; other messages go to the default handler.
\<close>

definition sink_input_latency :: "input_userdata \<Rightarrow> nat option" where
  "sink_input_latency u = pa_bytes_to_usec (pa_memblockq_get_length (ui_queue u)) (ui_ss u)"

definition sink_input_process_rewind_cb :: "input_userdata \<Rightarrow> nat \<Rightarrow> input_userdata option" where
  "sink_input_process_rewind_cb u nbytes = do {
     q \<leftarrow> pa_memblockq_rewind (ui_queue u) nbytes;
     Some (u\<lparr>ui_queue := q\<rparr>) }"

definition sink_input_pop_cb ::
    "input_userdata \<Rightarrow> nat \<Rightarrow> (input_userdata \<times> int \<times> pa_memchunk option) option" where
  "sink_input_pop_cb u len =
     (case pa_memblockq_peek (ui_queue u) of
        (q, None) \<Rightarrow> Some (u\<lparr>ui_queue := q\<rparr>, -1, None)
      | (q, Some chunk) \<Rightarrow> do {
          q \<leftarrow> pa_memblockq_drop q (ch_length chunk);
          Some (u\<lparr>ui_queue := q\<rparr>, 0, Some chunk) })"

definition sink_input_kill_cb :: "input_userdata \<Rightarrow> input_userdata" where
  "sink_input_kill_cb u = u\<lparr>ui_sink_input := False, ui_unload_requested := True\<rparr>"

definition sink_input_attach :: "input_userdata \<Rightarrow> input_userdata option" where
  "sink_input_attach u = do {
     pa_assert (ui_rtpoll_item u = None);
     Some (u\<lparr>ui_rtpoll_item :=
       Some \<lparr>pf_fd = iw_fd (ui_istream u), pf_events = POLLIN, pf_revents = 0\<rparr>\<rparr>) }"

definition sink_input_detach :: "input_userdata \<Rightarrow> input_userdata option" where
  "sink_input_detach u = do {
     pa_assert (ui_rtpoll_item u \<noteq> None);
     Some (u\<lparr>ui_rtpoll_item := None\<rparr>) }"

subsection \<open>Receiving a packet\<close>

text \<open>
  The read loop: an interrupted call is repeated, any other failure ends it. The result is the
  stream state, the buffer, the data offset, the return value, \<open>errno\<close> and the results that
  remain pending.
\<close>

fun read_loop ::
    "recv_result list \<Rightarrow> iwab \<Rightarrow> bytes \<Rightarrow> errno \<Rightarrow>
       (iwab \<times> bytes \<times> nat \<times> int \<times> errno \<times> recv_result list) option" where
  "read_loop [] iw buf err = Some (iw, buf, 0, -1, EAGAIN, [])"
| "read_loop (r # rs) iw buf err =
     (case iwab_read (\<lambda>_ _. r) iw (Some buf) (length buf) err of
        Some (iw, Some buf, off, l, err) \<Rightarrow>
          if l < 0 \<and> err = EINTR then read_loop rs iw buf err else Some (iw, buf, off, l, err, rs)
      | _ \<Rightarrow> None)"

text \<open>
  The loop that fills a gap of \<open>missing\<close> bytes with copies of the new chunk. The result of each
  push is ignored, as in the code; a chunk of length 0 would loop for ever, which is \<^term>\<open>None\<close>.
\<close>

partial_function (option) filler_loop ::
    "pa_memblockq \<Rightarrow> pa_memchunk \<Rightarrow> nat \<Rightarrow> pa_memblockq option" where
  "filler_loop q newchunk missing =
     (if missing > 0 then
        (let filler = newchunk\<lparr>ch_length :=
               (if ch_length newchunk > missing then missing else ch_length newchunk)\<rparr>
         in case pa_memblockq_push q filler of
              None \<Rightarrow> None
            | Some (q, _) \<Rightarrow> filler_loop q newchunk (missing - ch_length filler))
      else Some q)"

definition ignore_packet :: "input_userdata \<Rightarrow> pa_memchunk \<Rightarrow> input_userdata \<times> int" where
  "ignore_packet u newchunk = (ui_set_pool u (unref_chunk (mq_pool (ui_queue u)) newchunk), 0)"

text \<open>The part of \<open>rtpoll_work_cb\<close> behind the read loop; \<open>h\<close> is the header \<open>iw_in\<close> points to.\<close>

definition input_accept ::
    "input_userdata \<Rightarrow> pa_memchunk \<Rightarrow> iwab_head \<Rightarrow> (input_userdata \<times> int) option" where
  "input_accept u newchunk h =
     (if iwh_seq h = ui_seqnb u then Some (ignore_packet u newchunk)
      else do {
        aligned \<leftarrow> pa_frame_aligned (ch_length newchunk) (ui_ss u);
        pa_assert aligned;
        (if ui_seqnb u \<noteq> 0 \<and> iwh_seq h < ui_seqnb u then Some (ignore_packet u newchunk)
         else if ui_last_pb_ts u \<noteq> 0 \<and> iwh_timestamp h < ui_last_pb_ts u
         then Some (ignore_packet u newchunk)
         else do {
           u \<leftarrow> (if ui_seqnb u \<noteq> 0 \<and> iwh_seq h \<noteq> ui_seqnb u + 1
                then
                  (let lost = ui_lost_pb u + (iwh_timestamp h - ui_last_pb_ts u)
                   in do {
                     pa_assert (iwh_timestamp h > ui_last_pb_ts u);
                     missing \<leftarrow> pa_usec_to_bytes (unat (iwh_timestamp h - ui_last_pb_ts u)) (ui_ss u);
                     q \<leftarrow> filler_loop (ui_queue u) newchunk missing;
                     Some (u\<lparr>ui_lost_pb := lost, ui_lost_prop := lost div 1000, ui_queue := q\<rparr>) })
                else Some u);
           (q, _) \<leftarrow> pa_memblockq_push (ui_queue u) newchunk;
           dur \<leftarrow> pa_bytes_to_usec (ch_length newchunk) (ui_ss u);
           Some (ui_set_pool
                   (u\<lparr>ui_queue := q, ui_seqnb := iwh_seq h,
                      ui_last_pb_ts := iwh_timestamp h + of_nat dur\<rparr>)
                   (unref_chunk (mq_pool q) newchunk), 1) }) })"

definition rtpoll_work_cb ::
    "pa_sink_state_t \<Rightarrow> recv_result list \<Rightarrow> input_userdata \<Rightarrow>
       (input_userdata \<times> int \<times> recv_result list) option" where
  "rtpoll_work_cb state rs u = do {
     item \<leftarrow> ui_rtpoll_item u;
     (if and (pf_revents item) (or (or POLLERR POLLNVAL) (or POLLHUP POLLOUT)) \<noteq> 0
      then Some (u, -1, rs)
      else if and (pf_revents item) POLLIN = 0 then Some (u, 0, rs)
      else
        (let u = u\<lparr>ui_rtpoll_item := Some (item\<lparr>pf_revents := 0\<rparr>)\<rparr>
         in if \<not> PA_SINK_IS_OPENED state then Some (u, 0, rs)
            else do {
              (p, n) \<leftarrow> pa_memblock_new (mq_pool (ui_queue u)) MAX_FRAME_SIZE_IN;
              (iw, buf, off, l, err, rs) \<leftarrow> read_loop rs (ui_istream u) (mp_data p n) (ui_errno u);
              (let p = p\<lparr>mp_data := (mp_data p)(n := buf)\<rparr>;
                   u = (ui_set_pool u p)\<lparr>ui_istream := iw, ui_errno := err\<rparr>;
                   newchunk = \<lparr>ch_memblock = Some n, ch_index = off, ch_length = 0\<rparr>
               in if l < 0
                  then (let (u, r) = ignore_packet u newchunk in Some (u, r, rs))
                  else do {
                    hoff \<leftarrow> iw_iw_in iw;
                    h \<leftarrow> load_bytes buf hoff 24;
                    (u, r) \<leftarrow> input_accept u (newchunk\<lparr>ch_length := nat l\<rparr>) (iwab_head_dec h);
                    Some (u, r, rs) }) })) }"

subsection \<open>Loading and unloading\<close>

text \<open>
  What the parts of the daemon answer during \<open>pa__init\<close>: whether the module arguments parse, the
  socket calls, whether the sink exists and the sink input is created, its silence chunk, the
  memory pool, and the contents of the memory \<open>pa_xnew\<close> returns.
\<close>

record input_env =
  ie_modargs_ok :: bool
  ie_iface :: string
  ie_net :: net_env
  ie_close :: "int \<Rightarrow> int"
  ie_sink_found :: bool
  ie_sink_input_created :: bool
  ie_silence :: pa_memchunk
  ie_pool :: pa_mempool
  ie_garbage :: input_userdata

definition iwab_ss :: pa_sample_spec where
  "iwab_ss = \<lparr>ss_format = PA_SAMPLE_S16LE, ss_rate = 44100, ss_channels = 2\<rparr>"

text \<open>The label \<open>fail\<close> of \<open>pa__init\<close>; \<open>u\<close> is \<^term>\<open>None\<close> for NULL, whose descriptor cannot be read.\<close>

definition input_init_fail ::
    "input_env \<Rightarrow> input_userdata option \<Rightarrow> (input_userdata option \<times> int) option" where
  "input_init_fail env u = do {
     u \<leftarrow> u;
     (if iw_fd (ui_istream u) \<noteq> 0
      then pa_assert (iwab_close (ie_close env) (ui_istream u) = 0) else Some ());
     Some (None, -1) }"

definition iwab_input_init :: "input_env \<Rightarrow> (input_userdata option \<times> int) option" where
  "iwab_input_init env =
     (if \<not> ie_modargs_ok env then input_init_fail env None
      else
        (let u = (ie_garbage env)\<lparr>ui_seqnb := 0, ui_last_pb_ts := 0, ui_rtpoll_item := None, ui_ss := iwab_ss\<rparr>
         in if \<not> pa_sample_spec_valid (ui_ss u) then input_init_fail env (Some u)
            else
              (case iwab_open (ie_net env) (Some (ui_istream u)) (Some (ie_iface env)) of
                 (iw, r, _) \<Rightarrow>
                   (let u = u\<lparr>ui_istream := (case iw of None \<Rightarrow> ui_istream u | Some iw \<Rightarrow> iw)\<rparr>
                    in if r \<noteq> 0 then input_init_fail env (Some u)
                       else if \<not> ie_sink_found env then input_init_fail env (Some u)
                       else
                         (let u = u\<lparr>ui_lost_prop := 0, ui_sink_input := ie_sink_input_created env\<rparr>
                          in if \<not> ui_sink_input u then input_init_fail env (Some u)
                             else do {
                               q \<leftarrow> pa_memblockq_new ''module-iwab-input memblockq'' 0
                                      (10 * MAX_FRAME_SIZE_IN) (5 * MAX_FRAME_SIZE_IN) (ui_ss u)
                                      (5 * MAX_FRAME_SIZE_IN) 0 0 (Some (ie_silence env)) (ie_pool env);
                               Some (Some (u\<lparr>ui_queue :=
                                 q\<lparr>mq_pool := unref_chunk (mq_pool q) (ie_silence env)\<rparr>\<rparr>), 0) })))))"

definition iwab_input_done :: "(int \<Rightarrow> int) \<Rightarrow> input_userdata option \<Rightarrow> pa_mempool option option" where
  "iwab_input_done close u =
     (case u of
        None \<Rightarrow> Some None
      | Some u \<Rightarrow>
          (let p = pa_memblockq_free (ui_queue u)
           in do {
             (if iw_fd (ui_istream u) \<noteq> 0
              then pa_assert (iwab_close close (ui_istream u) = 0) else Some ());
             Some (Some p) }))"

subsection \<open>What an accepted packet looks like\<close>

lemma rt_len_append: "4 \<le> length data \<Longrightarrow> rt_len (data @ rest) = rt_len data"
  by (simp add: rt_len_def)

lemma dissect_accepted:
  assumes d: "dissect filt (data @ rest) (length data) = Some (Accepted dot11 l2 iw off l)"
    and n: "length data < 2 ^ 63" and l: "0 \<le> l"
  shows "rt_len data + 68 < length data \<and> iw = rt_len data + 40 \<and> off = rt_len data + 64 \<and>
    l = int (length data - (rt_len data + 68))"
proof -
  let ?n = "length data" and ?rt = "rt_len data"
  have rt: "?rt < 65536" by (rule rt_len_less)
  have big: "13 < ?n" using d by (simp add: dissect_def split: if_splits)
  have ld: "load_bytes (data @ rest) 2 2 = Some (take 2 (drop 2 data))"
    using big by (intro load_bytes_prefix) simp
  have a: "size_add ?rt 26 = ?rt + 26" "size_add (?rt + 26) 14 = ?rt + 40"
    "size_add (?rt + 40) 24 = ?rt + 64" "size_add (?rt + 64) 4 = ?rt + 68"
    using rt by (simp_all add: size_add_id)
  have r: "iw = ?rt + 40" "off = ?rt + 64" "l = signed64 (size_sub ?n (?rt + 68))"
    "\<not> size_sub ?n (?rt + 64) \<le> 4"
    using d big unfolding dissect_def
    by (auto simp: ld a Let_def rt_len_def [symmetric] bind_eq_Some_conv split: if_splits)
  have "?rt + 68 \<le> ?n"
  proof (rule ccontr)
    assume "\<not> ?rt + 68 \<le> ?n"
    then obtain k where k: "k = ?rt + 68 - ?n" "0 < k" "k < 65604" using rt by simp
    have "size_sub ?n (?rt + 68) = 2 ^ 64 - k"
      unfolding k(1) using \<open>\<not> ?rt + 68 \<le> ?n\<close> rt by (intro size_sub_wraps) simp_all
    then have "l < 0" using r(3) k(2,3) by (simp add: signed64_def)
    then show False using l by simp
  qed
  moreover have "size_sub ?n (?rt + 64) = ?n - (?rt + 64)" "size_sub ?n (?rt + 68) = ?n - (?rt + 68)"
    using calculation n by (intro size_sub_id; simp)+
  moreover have "?rt + 68 < ?n" using r(4) calculation by linarith
  moreover have "?n - (?rt + 68) < 2 ^ 63" using n by linarith
  ultimately show ?thesis using r by (simp add: signed64_def)
qed

lemma dissect_rejected: "dissect filt buf n = Some (Rejected r off) \<Longrightarrow> r < 0"
  by (auto simp: dissect_def Let_def bind_eq_Some_conv split: if_splits)

text \<open>A frame read by the loop lies in the buffer, header included.\<close>

lemma read_loop_sound:
  assumes "read_loop rs iw buf err = Some (iw', buf', off, l, err', rs')" "0 \<le> l"
    and "\<forall>data. Recv_data data \<in> set rs \<longrightarrow> length data \<le> length buf" "length buf < 2 ^ 63"
  shows "\<exists>data rest. Recv_data data \<in> set rs \<and> buf' = data @ rest \<and> length buf' = length buf \<and>
    rt_len data + 68 < length data \<and> off = rt_len data + 64 \<and>
    l = int (length data - (rt_len data + 68)) \<and> iw_iw_in iw' = Some (rt_len data + 40)"
  using assms
proof (induction rs arbitrary: iw buf err)
  case (Cons r rs)
  show ?case
  proof (cases "\<exists>iw1 buf1 off1 l1 err1. iwab_read (\<lambda>_ _. r) iw (Some buf) (length buf) err =
      Some (iw1, Some buf1, off1, l1, err1) \<and> l1 < 0 \<and> err1 = EINTR")
    case True
    then obtain iw1 buf1 off1 l1 where i: "iwab_read (\<lambda>_ _. r) iw (Some buf) (length buf) err =
      Some (iw1, Some buf1, off1, l1, EINTR)" "l1 < 0" by blast
    have len: "length buf1 = length buf"
      using i(1) Cons.prems(3)
      by (cases r) (auto simp: iwab_read_def Let_def split: option.splits dissection.splits)
    have "read_loop rs iw1 buf1 EINTR = Some (iw', buf', off, l, err', rs')"
      using Cons.prems(1) i by simp
    from Cons.IH [OF this Cons.prems(2)] Cons.prems(3,4) len
    show ?thesis by auto
  next
    case False
    then have rd: "iwab_read (\<lambda>_ _. r) iw (Some buf) (length buf) err = Some (iw', Some buf', off, l, err')"
      using Cons.prems(1) by (auto split: option.splits if_splits)
    then obtain data where r: "r = Recv_data data"
      using Cons.prems(2) by (cases r) (auto simp: iwab_read_def)
    have le: "length data \<le> length buf" using Cons.prems(3) r by simp
    let ?rest = "drop (length data) buf"
    obtain d l2 iwh where acc: "dissect (iw_addr_filter iw) (data @ ?rest) (length data) =
        Some (Accepted d l2 iwh off l)" "buf' = data @ ?rest" "iw_iw_in iw' = Some iwh"
      using rd r Cons.prems(2)
      by (auto simp: iwab_read_def Let_def dest: dissect_rejected split: option.splits dissection.splits)
    have "length data < 2 ^ 63" using le Cons.prems(4) by simp
    from dissect_accepted [OF acc(1) this Cons.prems(2)] show ?thesis
      using acc r le by (intro exI [of _ data] exI [of _ ?rest]) simp
  qed
qed auto

subsection \<open>The queue behind the module\<close>

lemma fifo_pool_ext:
  assumes ok: "fifo_ok q" and nx: "mp_next (mq_pool q) \<le> mp_next p"
    and dt: "\<And>b. b < mp_next (mq_pool q) \<Longrightarrow> mp_data p b = mp_data (mq_pool q) b"
  shows "fifo_ok (q\<lparr>mq_pool := p\<rparr>)" "fifo (q\<lparr>mq_pool := p\<rparr>) = fifo q"
proof -
  have bk: "\<forall>i \<in> set (mq_blocks q). chunk_ok (mq_pool q) (li_chunk i)"
    using ok by (simp add: fifo_ok_def mq_inv_def blocks_backed_def)
  have "item_map p i = item_map (mq_pool q) i" if "chunk_ok (mq_pool q) (li_chunk i)" for i
    using that dt by (auto simp: item_map_def chunk_byte_def chunk_ok_def fun_eq_iff split: option.splits)
  then have "content p ys = content (mq_pool q) ys" if "\<forall>i \<in> set ys. chunk_ok (mq_pool q) (li_chunk i)" for ys
    using that by (induction ys) simp_all
  then have c: "content p (mq_blocks q) = content (mq_pool q) (mq_blocks q)" using bk by blast
  have "chunk_ok p c" if "chunk_ok (mq_pool q) c" for c
    using that nx dt by (auto simp: chunk_ok_def split: option.splits)
  then have "blocks_backed (q\<lparr>mq_pool := p\<rparr>)" using bk by (simp add: blocks_backed_def)
  then show "fifo_ok (q\<lparr>mq_pool := p\<rparr>)"
    using ok c by (simp add: fifo_ok_def mq_inv_def on_frames_def cursors_ok_def)
  show "fifo (q\<lparr>mq_pool := p\<rparr>) = fifo q" by (simp add: fifo_def c get_length_nat)
qed

text \<open>A push that does not abort, whatever the fill level.\<close>

lemma push_some:
  assumes q: "fifo_ok q" and c: "chunk_ok (mq_pool q) c" and p: "pa_memblockq_push q c = Some (q', r)"
  shows "pushable q c" "fifo_ok q'" "mp_data (mq_pool q') = mp_data (mq_pool q)"
    "mp_next (mq_pool q') = mp_next (mq_pool q)" "mq_base q' = mq_base q" "mq_maxlength q' = mq_maxlength q"
    "foreign_refs q' = foreign_refs q"
    "fifo q' = fifo q @ (if length (fifo q) + ch_length c \<le> mq_maxlength q
       then chunk_bytes (mq_pool q) c else [])"
    "mq_prebuf q' = mq_prebuf q"
proof -
  show pu: "pushable q c"
    using p c by (auto simp: pushable_def pa_memblockq_push_def dvd_eq_mod_eq_0 split: bind_splits)
  have L: "length (chunk_bytes (mq_pool q) c) = ch_length c" by (rule length_chunk_bytes [OF c])
  have "(length (fifo q) + ch_length c \<le> mq_maxlength q \<and> fifo_ok q' \<and>
      fifo q' = fifo q @ chunk_bytes (mq_pool q) c \<and> foreign_refs q' = foreign_refs q \<and>
      mq_params q' = mq_params (q\<lparr>mq_write_index := mq_write_index q + int (ch_length c),
        mq_requested := mq_requested q - int (ch_length c)\<rparr>)) \<or>
    (mq_maxlength q < length (fifo q) + ch_length c \<and> q' = q)"
  proof (cases "length (fifo q) + ch_length c \<le> mq_maxlength q")
    case True
    then show ?thesis using push_fifo [OF q pu] p by auto
  next
    case False
    then show ?thesis using memblockq.push_full [OF q pu] p L by simp
  qed
  then show "fifo_ok q'" "mp_data (mq_pool q') = mp_data (mq_pool q)"
    "mp_next (mq_pool q') = mp_next (mq_pool q)" "mq_base q' = mq_base q" "mq_maxlength q' = mq_maxlength q"
    "foreign_refs q' = foreign_refs q"
    "fifo q' = fifo q @ (if length (fifo q) + ch_length c \<le> mq_maxlength q
       then chunk_bytes (mq_pool q) c else [])"
    "mq_prebuf q' = mq_prebuf q"
    using q by (auto simp: mq_params_def)
qed

text \<open>The bytes a gap is filled with: the payload, repeated.\<close>

definition repeated :: "bytes \<Rightarrow> nat \<Rightarrow> bytes" where
  "repeated bs n = map (\<lambda>k. bs ! (k mod length bs)) [0..<n]"

lemma repeated_short: "n \<le> length bs \<Longrightarrow> repeated bs n = take n bs"
  by (intro nth_equalityI) (simp_all add: repeated_def)

lemma repeated_long:
  assumes "length bs \<le> n" "bs \<noteq> []"
  shows "repeated bs n = bs @ repeated bs (n - length bs)"
proof (rule nth_equalityI)
  show "length (repeated bs n) = length (bs @ repeated bs (n - length bs))"
    using assms by (simp add: repeated_def)
  show "repeated bs n ! k = (bs @ repeated bs (n - length bs)) ! k" if "k < length (repeated bs n)" for k
    using that assms
    by (cases "k < length bs") (auto simp: repeated_def nth_append le_mod_geq)
qed

text \<open>
  The filler loop ends whenever the chunk is not empty; without an abort it keeps the queue
  well-formed and only appends, and with room for the whole gap it appends exactly the payload
  repeated over the gap.
\<close>

lemma filler_loop_some:
  assumes "fifo_ok q" "chunk_ok (mq_pool q) c" "0 < ch_length c" "filler_loop q c n = Some q'"
  shows "fifo_ok q' \<and> mp_data (mq_pool q') = mp_data (mq_pool q) \<and>
    mp_next (mq_pool q') = mp_next (mq_pool q) \<and> mq_base q' = mq_base q \<and>
    mq_maxlength q' = mq_maxlength q \<and> mq_prebuf q' = mq_prebuf q \<and> foreign_refs q' = foreign_refs q \<and>
    (\<exists>ext. fifo q' = fifo q @ ext \<and> length ext \<le> n) \<and>
    (length (fifo q) + n \<le> mq_maxlength q \<longrightarrow>
       fifo q' = fifo q @ repeated (chunk_bytes (mq_pool q) c) n)"
  using assms
proof (induction n arbitrary: q rule: less_induct)
  case (less n)
  show ?case
  proof (cases "n = 0")
    case True
    then show ?thesis using less.prems by (simp add: filler_loop.simps repeated_def)
  next
    case False
    define m where "m = (if ch_length c > n then n else ch_length c)"
    have m: "0 < m" "m \<le> n" "m \<le> ch_length c" using False less.prems(3) by (simp_all add: m_def)
    let ?f = "c\<lparr>ch_length := m\<rparr>"
    obtain q1 r where p: "pa_memblockq_push q ?f = Some (q1, r)" "filler_loop q1 c (n - m) = Some q'"
      using less.prems(4) False
      by (subst (asm) filler_loop.simps) (auto simp: Let_def m_def [symmetric] split: option.splits prod.splits)
    have fk: "chunk_ok (mq_pool q) ?f" using less.prems(2) m(3) by (auto simp: chunk_ok_def split: option.splits)
    note s = push_some [OF less.prems(1) fk p(1)]
    have ck: "chunk_ok (mq_pool q1) c" using chunk_ok_cong [OF s(3,4)] less.prems(2) by simp
    have "n - m < n" using m by simp
    note ih = less.IH [OF this s(2) ck less.prems(3) p(2)]
    have cb: "chunk_bytes (mq_pool q1) c = chunk_bytes (mq_pool q) c" using s(3) by (intro chunk_bytes_cong) simp
    let ?bs = "chunk_bytes (mq_pool q) c"
    have L: "length ?bs = ch_length c" using less.prems(2) by (rule length_chunk_bytes)
    have fb: "chunk_bytes (mq_pool q) ?f = take m ?bs"
      using m(3) by (simp add: chunk_bytes_def min_def split: option.splits)
    have lm: "length (take m ?bs) = m" using L m(3) by simp
    have "length (if length (fifo q) + ch_length ?f \<le> mq_maxlength q then chunk_bytes (mq_pool q) ?f else []) \<le> m"
      using fb lm by simp
    then obtain e1 where e1: "fifo q1 = fifo q @ e1" "length e1 \<le> m" using s(8) by blast
    obtain e2 where e2: "fifo q' = fifo q1 @ e2" "length e2 \<le> n - m" using ih by blast
    have "fifo q' = fifo q @ repeated ?bs n" if room: "length (fifo q) + n \<le> mq_maxlength q"
    proof -
      have f1: "fifo q1 = fifo q @ take m ?bs" using s(8) room fb m(2) by simp
      then have "length (fifo q1) + (n - m) \<le> mq_maxlength q1" using room s(6) lm m(2) by simp
      then have "fifo q' = fifo q @ take m ?bs @ repeated ?bs (n - m)" using ih cb f1 by simp
      moreover have "take m ?bs @ repeated ?bs (n - m) = repeated ?bs n"
      proof (cases "ch_length c > n")
        case True
        then show ?thesis using L by (simp add: m_def repeated_short repeated_def [of _ 0])
      next
        case False
        have "?bs \<noteq> []" using L less.prems(3) by auto
        then show ?thesis using L False repeated_long [of ?bs n] by (simp add: m_def)
      qed
      ultimately show ?thesis by simp
    qed
    moreover have "\<exists>ext. fifo q' = fifo q @ ext \<and> length ext \<le> n"
      using e1 e2 by (intro exI [of _ "e1 @ e2"]) (use m(2) in simp_all)
    ultimately show ?thesis using ih s by simp
  qed
qed

lemma filler_loop_returns:
  assumes "fifo_ok q" "pushable q c" "mq_base q dvd n"
  shows "\<exists>q'. filler_loop q c n = Some q'"
  using assms
proof (induction n arbitrary: q rule: less_induct)
  case (less n)
  show ?case
  proof (cases "n = 0")
    case False
    define m where "m = (if ch_length c > n then n else ch_length c)"
    have m: "0 < m" "m \<le> n" "m \<le> ch_length c" "mq_base q dvd m"
      using False less.prems(2,3) by (auto simp: m_def pushable_def)
    let ?f = "c\<lparr>ch_length := m\<rparr>"
    have pu: "pushable q ?f"
      using less.prems m by (auto simp: pushable_def chunk_ok_def split: option.splits)
    obtain q1 r where p: "pa_memblockq_push q ?f = Some (q1, r)"
      using memblockq.push_total [OF less.prems(1) pu] by blast
    have fk: "chunk_ok (mq_pool q) ?f" using pu by (simp add: pushable_def)
    note s = push_some [OF less.prems(1) fk p]
    have "pushable q1 c"
      using less.prems(2) s(3-5) chunk_ok_cong [OF s(3,4)] by (simp add: pushable_def)
    moreover have "mq_base q1 dvd n - m" "n - m < n"
      using less.prems(3) m s(5) by (simp_all add: dvd_diff_nat)
    ultimately obtain q' where "filler_loop q1 c (n - m) = Some q'"
      using less.IH s(2) by blast
    then show ?thesis using False p by (subst filler_loop.simps) (simp add: Let_def m_def [symmetric])
  qed (simp add: filler_loop.simps)
qed

subsection \<open>Accepting and ignoring packets\<close>

definition input_ok :: "input_userdata \<Rightarrow> bool" where
  "input_ok u \<longleftrightarrow> fifo_ok (ui_queue u) \<and> ui_ss u = iwab_ss \<and> mq_base (ui_queue u) = 4 \<and>
     0 < mq_prebuf (ui_queue u)"

lemma iwab_ss_valid: "pa_sample_spec_valid iwab_ss"
  by (simp add: iwab_ss_def pa_sample_spec_valid_def pa_sample_rate_valid_def pa_channels_valid_def
      pa_sample_format_valid_def PA_CHANNELS_MAX_def PA_RATE_MAX_def)

lemma iwab_ss_frame: "frame_bytes iwab_ss = 4"
  by (simp add: frame_bytes_def iwab_ss_def)

lemma usec_to_bytes_frames: "pa_usec_to_bytes t iwab_ss = Some n \<Longrightarrow> 4 dvd n"
proof -
  assume "pa_usec_to_bytes t iwab_ss = Some n"
  then have "n = wrap64 (wrap64 (t * 44100) div 1000000 * 4)"
    by (auto simp: pa_usec_to_bytes_def iwab_ss_def PA_USEC_PER_SEC_def)
  then show ?thesis by (simp add: wrap64_def dvd_mod)
qed

lemma unref_keeps:
  assumes "fifo_ok q"
  shows "fifo_ok (q\<lparr>mq_pool := unref_chunk (mq_pool q) c\<rparr>)"
    "fifo (q\<lparr>mq_pool := unref_chunk (mq_pool q) c\<rparr>) = fifo q"
  using fifo_pool_ext [OF assms, of "unref_chunk (mq_pool q) c"] by simp_all

lemma foreign_refs_unref:
  "foreign_refs (q\<lparr>mq_pool := unref_chunk (mq_pool q) c\<rparr>) b = foreign_refs q b - chunk_refs b c"
  by (simp add: foreign_refs_def mp_refs_unref_any)

lemma ignore_packet_spec:
  assumes "input_ok u" "ignore_packet u c = (u', r)"
  shows "input_ok u' \<and> r = 0 \<and> fifo (ui_queue u') = fifo (ui_queue u) \<and> ui_seqnb u' = ui_seqnb u \<and>
    ui_last_pb_ts u' = ui_last_pb_ts u \<and> ui_lost_pb u' = ui_lost_pb u \<and>
    mp_next (mq_pool (ui_queue u')) = mp_next (mq_pool (ui_queue u)) \<and>
    (\<forall>b. foreign_refs (ui_queue u') b = foreign_refs (ui_queue u) b - chunk_refs b c)"
  using assms unref_keeps [of "ui_queue u" c] foreign_refs_unref [of "ui_queue u" c]
  by (auto simp: ignore_packet_def ui_set_pool_def input_ok_def)

text \<open>Behind the order checks: fill the gap, push the chunk, remember the packet.\<close>

definition in_order :: "input_userdata \<Rightarrow> iwab_head \<Rightarrow> bool" where
  "in_order u h \<longleftrightarrow> iwh_seq h \<noteq> ui_seqnb u \<and> (ui_seqnb u = 0 \<or> ui_seqnb u \<le> iwh_seq h) \<and>
     (ui_last_pb_ts u = 0 \<or> ui_last_pb_ts u \<le> iwh_timestamp h)"

definition gap :: "input_userdata \<Rightarrow> iwab_head \<Rightarrow> bool" where
  "gap u h \<longleftrightarrow> ui_seqnb u \<noteq> 0 \<and> iwh_seq h \<noteq> ui_seqnb u + 1"

lemma input_accept_ignores:
  assumes "\<not> in_order u h" "input_accept u c h = Some (u', r)"
  shows "ignore_packet u c = (u', r)"
  using assms by (auto simp: input_accept_def in_order_def not_le bind_eq_Some_conv split: if_splits)

lemma input_accept_pushes:
  assumes ss: "ui_ss u = iwab_ss" and io: "in_order u h" and a: "input_accept u c h = Some (u', r)"
  shows "\<exists>q1 q2 r1 dur. r = 1 \<and> pa_memblockq_push q1 c = Some (q2, r1) \<and>
    pa_bytes_to_usec (ch_length c) iwab_ss = Some dur \<and> 4 dvd ch_length c \<and>
    (if gap u h
     then \<exists>n. ui_last_pb_ts u < iwh_timestamp h \<and>
       pa_usec_to_bytes (unat (iwh_timestamp h - ui_last_pb_ts u)) iwab_ss = Some n \<and>
       filler_loop (ui_queue u) c n = Some q1
     else q1 = ui_queue u) \<and>
    ui_queue u' = q2\<lparr>mq_pool := unref_chunk (mq_pool q2) c\<rparr> \<and> ui_seqnb u' = iwh_seq h \<and>
    ui_ss u' = iwab_ss \<and> ui_last_pb_ts u' = iwh_timestamp h + of_nat dur"
proof -
  have al: "pa_frame_aligned (ch_length c) (ui_ss u) = Some (4 dvd ch_length c)"
    using pa_frame_aligned_eq [OF iwab_ss_valid] iwab_ss_frame ss by simp
  have nig: "\<not> iwh_seq h = ui_seqnb u" "\<not> (ui_seqnb u \<noteq> 0 \<and> iwh_seq h < ui_seqnb u)"
    "\<not> (ui_last_pb_ts u \<noteq> 0 \<and> iwh_timestamp h < ui_last_pb_ts u)"
    using io by (auto simp: in_order_def not_less)
  show ?thesis
  proof (cases "gap u h")
    case True
    then have g: "ui_seqnb u \<noteq> 0 \<and> iwh_seq h \<noteq> ui_seqnb u + 1" by (simp add: gap_def)
    from a show ?thesis
      unfolding input_accept_def if_not_P [OF nig(1)] if_not_P [OF nig(2)] if_not_P [OF nig(3)] if_P [OF g] al
      using True ss
      by (auto simp: bind_eq_Some_conv Let_def ui_set_pool_def split: prod.splits)
  next
    case False
    then have g: "\<not> (ui_seqnb u \<noteq> 0 \<and> iwh_seq h \<noteq> ui_seqnb u + 1)" by (simp add: gap_def)
    from a show ?thesis
      unfolding input_accept_def if_not_P [OF nig(1)] if_not_P [OF nig(2)] if_not_P [OF nig(3)] if_not_P [OF g] al
      using False ss
      by (auto simp: bind_eq_Some_conv Let_def ui_set_pool_def split: prod.splits)
  qed
qed

lemma input_accept_sound:
  assumes ok: "input_ok u" and c: "chunk_ok (mq_pool (ui_queue u)) c" "0 < ch_length c"
    and a: "input_accept u c h = Some (u', r)"
  shows "input_ok u' \<and> (\<exists>ext. fifo (ui_queue u') = fifo (ui_queue u) @ ext) \<and>
    ui_seqnb u \<le> ui_seqnb u' \<and> (if in_order u h then r = 1 \<and> ui_seqnb u' = iwh_seq h
      else r = 0 \<and> fifo (ui_queue u') = fifo (ui_queue u) \<and> ui_seqnb u' = ui_seqnb u) \<and>
    mp_next (mq_pool (ui_queue u')) = mp_next (mq_pool (ui_queue u)) \<and>
    (\<forall>b. foreign_refs (ui_queue u') b = foreign_refs (ui_queue u) b - chunk_refs b c)"
proof (cases "in_order u h")
  case False
  then show ?thesis using ignore_packet_spec [OF ok input_accept_ignores [OF False a]] by auto
next
  case True
  have q: "fifo_ok (ui_queue u)" "ui_ss u = iwab_ss" "mq_base (ui_queue u) = 4"
    "0 < mq_prebuf (ui_queue u)"
    using ok by (simp_all add: input_ok_def)
  from input_accept_pushes [OF q(2) True a] obtain q1 q2 r1 dur where p: "r = 1"
    "pa_memblockq_push q1 c = Some (q2, r1)"
    "if gap u h
     then \<exists>n. ui_last_pb_ts u < iwh_timestamp h \<and>
       pa_usec_to_bytes (unat (iwh_timestamp h - ui_last_pb_ts u)) iwab_ss = Some n \<and>
       filler_loop (ui_queue u) c n = Some q1
     else q1 = ui_queue u"
    "ui_queue u' = q2\<lparr>mq_pool := unref_chunk (mq_pool q2) c\<rparr>" "ui_seqnb u' = iwh_seq h" "ui_ss u' = iwab_ss"
    by blast
  have f: "fifo_ok q1" "mp_data (mq_pool q1) = mp_data (mq_pool (ui_queue u))"
    "mp_next (mq_pool q1) = mp_next (mq_pool (ui_queue u))" "mq_base q1 = 4"
    "foreign_refs q1 = foreign_refs (ui_queue u)" "\<exists>ext. fifo q1 = fifo (ui_queue u) @ ext"
    "0 < mq_prebuf q1"
  proof -
    consider (gap) n where "filler_loop (ui_queue u) c n = Some q1" | (none) "q1 = ui_queue u"
      using p(3) by metis
    then have "fifo_ok q1 \<and> mp_data (mq_pool q1) = mp_data (mq_pool (ui_queue u)) \<and>
      mp_next (mq_pool q1) = mp_next (mq_pool (ui_queue u)) \<and> mq_base q1 = 4 \<and>
      foreign_refs q1 = foreign_refs (ui_queue u) \<and> (\<exists>ext. fifo q1 = fifo (ui_queue u) @ ext) \<and>
      0 < mq_prebuf q1"
    proof cases
      case gap
      then show ?thesis using filler_loop_some [OF q(1) c gap] q(3,4) by metis
    next
      case none
      then show ?thesis using q by simp
    qed
    then show "fifo_ok q1" "mp_data (mq_pool q1) = mp_data (mq_pool (ui_queue u))"
      "mp_next (mq_pool q1) = mp_next (mq_pool (ui_queue u))" "mq_base q1 = 4"
      "foreign_refs q1 = foreign_refs (ui_queue u)" "\<exists>ext. fifo q1 = fifo (ui_queue u) @ ext"
      "0 < mq_prebuf q1"
      by blast+
  qed
  have "chunk_ok (mq_pool q1) c" using chunk_ok_cong [OF f(2,3)] c(1) by simp
  note s = push_some [OF f(1) this p(2)]
  have e: "\<exists>ext. fifo q2 = fifo (ui_queue u) @ ext" using s(8) f(6) by (metis append.assoc)
  have fo: "foreign_refs (ui_queue u') b = foreign_refs (ui_queue u) b - chunk_refs b c" for b
    unfolding p(4) foreign_refs_unref s(7) f(5) by (rule refl)
  have "fifo (ui_queue u') = fifo q2" unfolding p(4) by (rule unref_keeps(2) [OF s(2)])
  moreover have "input_ok u'" using unref_keeps(1) [OF s(2)] p s(5,9) f(4,7) by (simp add: input_ok_def)
  moreover have "ui_seqnb u \<le> ui_seqnb u'" using True p(5) by (auto simp: in_order_def)
  moreover have "mp_next (mq_pool (ui_queue u')) = mp_next (mq_pool (ui_queue u))"
    using p(4) s(4) f(3) by simp
  ultimately show ?thesis using True p(1,5) e fo by simp
qed

subsection \<open>The handler as a whole\<close>

lemma new_block:
  assumes q: "fifo_ok q" and p: "pa_memblock_new (mq_pool q) len = Some (p, n)"
  shows "n = mp_next (mq_pool q)" "mp_next p = Suc n" "length (mp_data p n) = len"
    "fifo_ok (q\<lparr>mq_pool := p\<lparr>mp_data := (mp_data p)(n := buf)\<rparr>\<rparr>)"
    "fifo (q\<lparr>mq_pool := p\<lparr>mp_data := (mp_data p)(n := buf)\<rparr>\<rparr>) = fifo q"
    "foreign_refs (q\<lparr>mq_pool := p\<lparr>mp_data := (mp_data p)(n := buf)\<rparr>\<rparr>) =
       (foreign_refs q)(n := 1)"
proof -
  have e: "n = mp_next (mq_pool q)" "p = (mq_pool q)\<lparr>mp_data := (mp_data (mq_pool q))(n := map (mp_stale (mq_pool q)) [0..<len]),
      mp_refs := (mp_refs (mq_pool q))(n := 1), mp_read_only := (mp_read_only (mq_pool q))(n := False),
      mp_is_silence := (mp_is_silence (mq_pool q))(n := False), mp_next := Suc n\<rparr>"
    using p by (auto simp: pa_memblock_new_def Let_def)
  show "n = mp_next (mq_pool q)" "mp_next p = Suc n" "length (mp_data p n) = len" using e by simp_all
  let ?p = "p\<lparr>mp_data := (mp_data p)(n := buf)\<rparr>"
  show "fifo_ok (q\<lparr>mq_pool := ?p\<rparr>)" "fifo (q\<lparr>mq_pool := ?p\<rparr>) = fifo q"
    using fifo_pool_ext [OF q, of ?p] e by simp_all
  have "\<forall>i \<in> set (mq_blocks q). item_refs n i = 0"
    using q e(1) by (auto simp: fifo_ok_def mq_inv_def blocks_backed_def chunk_ok_def item_refs_def
        split: option.splits)
  then have "(\<Sum>i\<leftarrow>mq_blocks q. item_refs n i) = 0" by (simp cong: map_cong)
  then show "foreign_refs (q\<lparr>mq_pool := ?p\<rparr>) = (foreign_refs q)(n := 1)"
    using e by (auto simp: foreign_refs_def fun_eq_iff)
qed

definition packets_fit :: "recv_result list \<Rightarrow> bool" where
  "packets_fit rs \<longleftrightarrow> (\<forall>data. Recv_data data \<in> set rs \<longrightarrow> length data \<le> MAX_FRAME_SIZE_IN)"

lemma read_loop_rest: "read_loop rs iw buf err = Some (iw', buf', off, l, err', rs') \<Longrightarrow> set rs' \<subseteq> set rs"
  by (induction rs arbitrary: iw buf err) (fastforce split: option.splits if_splits)+

text \<open>What one run of the handler does to the module's state.\<close>

definition input_kept :: "input_userdata \<Rightarrow> input_userdata \<Rightarrow> bool" where
  "input_kept u u' \<longleftrightarrow> input_ok u' \<and> (\<exists>ext. fifo (ui_queue u') = fifo (ui_queue u) @ ext) \<and>
     ui_seqnb u \<le> ui_seqnb u' \<and>
     (\<forall>b < mp_next (mq_pool (ui_queue u)). foreign_refs (ui_queue u') b = foreign_refs (ui_queue u) b) \<and>
     (\<forall>b < mp_next (mq_pool (ui_queue u')). mp_next (mq_pool (ui_queue u)) \<le> b \<longrightarrow>
        foreign_refs (ui_queue u') b = 0)"

lemma input_ok_frame [simp]:
  "input_ok (u\<lparr>ui_rtpoll_item := i\<rparr>) = input_ok u"
  "input_ok (u\<lparr>ui_istream := s\<rparr>) = input_ok u"
  "input_ok (u\<lparr>ui_errno := e\<rparr>) = input_ok u"
  by (simp_all add: input_ok_def)

lemma input_kept_refl: "input_ok u \<Longrightarrow> input_kept u (u\<lparr>ui_rtpoll_item := i\<rparr>)"
  by (simp add: input_kept_def)

text \<open>The state once the datagram is in the new block, and the two ways out of the handler after it.\<close>

definition input_read :: "input_userdata \<Rightarrow> pollfd \<Rightarrow> pa_mempool \<Rightarrow> nat \<Rightarrow> iwab \<Rightarrow> bytes \<Rightarrow> errno \<Rightarrow> input_userdata" where
  "input_read u item p n iw buf err =
     (ui_set_pool (u\<lparr>ui_rtpoll_item := Some (item\<lparr>pf_revents := 0\<rparr>)\<rparr>) (p\<lparr>mp_data := (mp_data p)(n := buf)\<rparr>))
       \<lparr>ui_istream := iw, ui_errno := err\<rparr>"

lemma rtpoll_work_cases:
  assumes w: "rtpoll_work_cb state rs u = Some (u', r, rs')"
  obtains (quiet) i where "u' = u\<lparr>ui_rtpoll_item := i\<rparr>" "rs' = rs" "r = -1 \<or> r = 0"
    | (rejected) item p n iw buf off l err where
        "pa_memblock_new (mq_pool (ui_queue u)) MAX_FRAME_SIZE_IN = Some (p, n)"
        "read_loop rs (ui_istream u) (mp_data p n) (ui_errno u) = Some (iw, buf, off, l, err, rs')" "l < 0"
        "ignore_packet (input_read u item p n iw buf err)
           \<lparr>ch_memblock = Some n, ch_index = off, ch_length = 0\<rparr> = (u', r)"
    | (accepted) item p n iw buf off l err hoff h where
        "pa_memblock_new (mq_pool (ui_queue u)) MAX_FRAME_SIZE_IN = Some (p, n)"
        "read_loop rs (ui_istream u) (mp_data p n) (ui_errno u) = Some (iw, buf, off, l, err, rs')" "0 \<le> l"
        "iw_iw_in iw = Some hoff" "load_bytes buf hoff 24 = Some h"
        "input_accept (input_read u item p n iw buf err)
           \<lparr>ch_memblock = Some n, ch_index = off, ch_length = nat l\<rparr> (iwab_head_dec h) = Some (u', r)"
proof -
  obtain item where it: "ui_rtpoll_item u = Some item"
    using w by (auto simp: rtpoll_work_cb_def bind_eq_Some_conv)
  let ?A = "and (pf_revents item) (or (or POLLERR POLLNVAL) (or POLLHUP POLLOUT)) \<noteq> 0"
  let ?B = "and (pf_revents item) POLLIN = 0"
  have same: "u = u\<lparr>ui_rtpoll_item := Some item\<rparr>" using it by (cases u) simp
  note w' = w [unfolded rtpoll_work_cb_def it bind.simps(2) Let_def]
  consider ?A | "\<not> ?A" ?B | "\<not> ?A" "\<not> ?B" "\<not> PA_SINK_IS_OPENED state"
    | "\<not> ?A" "\<not> ?B" "PA_SINK_IS_OPENED state" by blast
  then show thesis
  proof cases
    case 1
    show thesis using w' [unfolded if_P [OF 1]] same by (intro quiet [of "Some item"]) simp_all
  next
    case 2
    show thesis using w' [unfolded if_not_P [OF 2(1)] if_P [OF 2(2)]] same
      by (intro quiet [of "Some item"]) simp_all
  next
    case 3
    show thesis using w' [unfolded if_not_P [OF 3(1)] if_not_P [OF 3(2)] if_P [OF 3(3)]]
      by (intro quiet [of "Some (item\<lparr>pf_revents := 0\<rparr>)"]) simp_all
  next
    case 4
    have opened: "\<not> \<not> PA_SINK_IS_OPENED state" using 4(3) by simp
    note b = w' [unfolded if_not_P [OF 4(1)] if_not_P [OF 4(2)] if_not_P [OF opened]]
    obtain p n where pn: "pa_memblock_new (mq_pool (ui_queue u)) MAX_FRAME_SIZE_IN = Some (p, n)"
      using b by (cases "pa_memblock_new (mq_pool (ui_queue u)) MAX_FRAME_SIZE_IN") auto
    obtain iw buf off l err rs1 where rl:
      "read_loop rs (ui_istream u) (mp_data p n) (ui_errno u) = Some (iw, buf, off, l, err, rs1)"
      using b pn by (cases "read_loop rs (ui_istream u) (mp_data p n) (ui_errno u)") auto
    note v = input_read_def [of u item p n iw buf err, symmetric]
    show thesis
    proof (cases "l < 0")
      case True
      then show thesis using b pn rl by (intro rejected [OF pn, of iw buf off l err item])
          (simp_all add: v split: prod.splits)
    next
      case False
      then show thesis using b pn rl by (auto simp: v bind_eq_Some_conv intro!: accepted [OF pn])
    qed
  qed
qed

lemma input_read_ok:
  assumes ok: "input_ok u" and p: "pa_memblock_new (mq_pool (ui_queue u)) len = Some (p, n)"
    and v: "v = input_read u item p n iw buf err"
  shows "input_ok v" "fifo (ui_queue v) = fifo (ui_queue u)" "ui_seqnb v = ui_seqnb u"
    "foreign_refs (ui_queue v) = (foreign_refs (ui_queue u))(n := 1)" "mp_next (mq_pool (ui_queue v)) = Suc n"
    "mp_data (mq_pool (ui_queue v)) n = buf" "ui_last_pb_ts v = ui_last_pb_ts u"
    "mq_maxlength (ui_queue v) = mq_maxlength (ui_queue u)"
proof -
  have q: "fifo_ok (ui_queue u)" using ok by (simp add: input_ok_def)
  show "input_ok v" "fifo (ui_queue v) = fifo (ui_queue u)" "ui_seqnb v = ui_seqnb u"
    "foreign_refs (ui_queue v) = (foreign_refs (ui_queue u))(n := 1)" "mp_next (mq_pool (ui_queue v)) = Suc n"
    "mp_data (mq_pool (ui_queue v)) n = buf" "ui_last_pb_ts v = ui_last_pb_ts u"
    "mq_maxlength (ui_queue v) = mq_maxlength (ui_queue u)"
    using ok new_block [OF q p] by (simp_all add: input_ok_def ui_set_pool_def input_read_def v)
qed

lemma input_kept_read:
  assumes ok: "input_ok u" and p: "pa_memblock_new (mq_pool (ui_queue u)) len = Some (p, n)"
    and v: "v = input_read u item p n iw buf err"
    and k: "input_ok u'" "\<exists>ext. fifo (ui_queue u') = fifo (ui_queue v) @ ext" "ui_seqnb v \<le> ui_seqnb u'"
    "mp_next (mq_pool (ui_queue u')) = mp_next (mq_pool (ui_queue v))"
    "\<forall>b. foreign_refs (ui_queue u') b = foreign_refs (ui_queue v) b - chunk_refs b c" "ch_memblock c = Some n"
  shows "input_kept u u'"
proof -
  have q: "fifo_ok (ui_queue u)" using ok by (simp add: input_ok_def)
  show ?thesis
    unfolding input_kept_def using k new_block(1) [OF q p] input_read_ok [OF ok p v]
    by (auto simp: chunk_refs_def)
qed

lemma rtpoll_work_sound:
  assumes ok: "input_ok u" and fit: "packets_fit rs"
    and w: "rtpoll_work_cb state rs u = Some (u', r, rs')"
  shows "input_kept u u' \<and> set rs' \<subseteq> set rs \<and> -1 \<le> r \<and> r \<le> 1"
  using w
proof (cases rule: rtpoll_work_cases)
  case quiet
  then show ?thesis using input_kept_refl [OF ok] by auto
next
  case (rejected item p n iw buf off l err)
  note v = input_read_ok [OF ok rejected(1) refl, of item iw buf err]
  note ig = ignore_packet_spec [OF v(1) rejected(4)]
  have "input_kept u u'"
    by (rule input_kept_read [OF ok rejected(1) refl, where c = "\<lparr>ch_memblock = Some n, ch_index = off, ch_length = 0\<rparr>"])
      (use ig in auto)
  then show ?thesis using ig read_loop_rest [OF rejected(2)] by simp
next
  case (accepted item p n iw buf off l err hoff h)
  note v = input_read_ok [OF ok accepted(1) refl, of item iw buf err]
  let ?c = "\<lparr>ch_memblock = Some n, ch_index = off, ch_length = nat l\<rparr>"
  have q: "fifo_ok (ui_queue u)" using ok by (simp add: input_ok_def)
  note nb = new_block(3) [OF q accepted(1)]
  have "\<forall>data. Recv_data data \<in> set rs \<longrightarrow> length data \<le> length (mp_data p n)"
    using fit nb by (simp add: packets_fit_def)
  moreover have "length (mp_data p n) < 2 ^ 63" using nb by (simp add: MAX_FRAME_SIZE_IN_def)
  ultimately obtain data rest where s: "buf = data @ rest" "rt_len data + 68 < length data"
    "off = rt_len data + 64" "l = int (length data - (rt_len data + 68))"
    using read_loop_sound [OF accepted(2,3)] by force
  have c: "chunk_ok (mq_pool (ui_queue (input_read u item p n iw buf err))) ?c" "0 < ch_length ?c"
    using s v(5,6) by (simp_all add: chunk_ok_def)
  note ac = input_accept_sound [OF v(1) c accepted(6)]
  have "-1 \<le> r \<and> r \<le> 1" using ac by (simp split: if_splits)
  moreover have "input_kept u u'"
    by (rule input_kept_read [OF ok accepted(1) refl, where c = ?c]) (use ac in auto)
  ultimately show ?thesis using read_loop_rest [OF accepted(2)] by simp
qed

text \<open>The queue \<open>pa__init\<close> creates: empty, prebuffering, with room for ten frames.\<close>

definition loaded_queue :: "pa_memchunk \<Rightarrow> pa_mempool \<Rightarrow> pa_memblockq" where
  "loaded_queue c pool = \<lparr>mq_blocks = [], mq_current_read = None, mq_current_write = None, mq_n_blocks = 0,
     mq_maxlength = 16000, mq_tlength = 8000, mq_base = 4, mq_prebuf = 8000, mq_minreq = 4,
     mq_maxrewind = 0, mq_read_index = 0, mq_write_index = 0, mq_in_prebuf = True, mq_silence = c,
     mq_mcalign = \<lparr>mc_base = 4, mc_leftover = pa_memchunk_reset, mc_current = pa_memchunk_reset\<rparr>,
     mq_missing = 8000, mq_requested = 0, mq_name = ''module-iwab-input memblockq'', mq_sample_spec = iwab_ss,
     mq_pool = pool\<rparr>"

lemma loaded_queue_ok:
  "fifo_ok (loaded_queue c pool)" "fifo (loaded_queue c pool) = []" "mq_base (loaded_queue c pool) = 4"
  "0 < mq_prebuf (loaded_queue c pool)" "mq_maxlength (loaded_queue c pool) = 16000"
  by (simp_all add: loaded_queue_def fifo_ok_def mq_inv_def cursors_ok_def blocks_backed_def on_frames_def
      fifo_def get_length_nat)

lemma input_queue_new:
  "pa_memblockq_new ''module-iwab-input memblockq'' 0 (10 * MAX_FRAME_SIZE_IN) (5 * MAX_FRAME_SIZE_IN) iwab_ss
     (5 * MAX_FRAME_SIZE_IN) 0 0 (Some c) pool = Some (loaded_queue c (ref_chunk pool c))"
proof -
  have f: "pa_frame_size iwab_ss = Some 4"
    using pa_frame_size_eq [OF iwab_ss_valid] iwab_ss_frame by simp
  have r: "round_up_base 16000 4 = 16000" "round_up_base 8000 4 = 8000" "round_down_base 0 4 = 0"
    "size_sub (size_add 8000 4) 4 = 8000" "size_sub (size_add 8000 4) 0 = 8004"
    "(8000 :: nat) \<noteq> SIZE_MAX" "10 * MAX_FRAME_SIZE_IN = 16000" "5 * MAX_FRAME_SIZE_IN = 8000"
    by (simp_all add: round_up_base_def round_down_base_def size_add_def size_sub_def wrap64_def SIZE_MAX_def
        MAX_FRAME_SIZE_IN_def)
  let ?b = "\<lparr>mq_blocks = [], mq_current_read = None, mq_current_write = None, mq_n_blocks = 0,
     mq_maxlength = 0, mq_tlength = 0, mq_base = 4, mq_prebuf = 0, mq_minreq = 0,
     mq_maxrewind = 0, mq_read_index = 0, mq_write_index = 0, mq_in_prebuf = True,
     mq_silence = pa_memchunk_reset,
     mq_mcalign = \<lparr>mc_base = 4, mc_leftover = pa_memchunk_reset, mc_current = pa_memchunk_reset\<rparr>,
     mq_missing = 0, mq_requested = 0, mq_name = ''module-iwab-input memblockq'', mq_sample_spec = iwab_ss,
     mq_pool = pool\<rparr>"
  have 1: "pa_memblockq_set_maxlength ?b 16000 = ?b\<lparr>mq_maxlength := 16000\<rparr>"
    by (simp add: pa_memblockq_set_maxlength_def r)
  have 2: "pa_memblockq_set_tlength (?b\<lparr>mq_maxlength := 16000\<rparr>) 8000 =
      ?b\<lparr>mq_maxlength := 16000, mq_tlength := 8000, mq_missing := 8000\<rparr>"
    by (simp add: pa_memblockq_set_tlength_def r)
  have 3: "pa_memblockq_set_minreq (?b\<lparr>mq_maxlength := 16000, mq_tlength := 8000, mq_missing := 8000\<rparr>) 0 =
      ?b\<lparr>mq_maxlength := 16000, mq_tlength := 8000, mq_missing := 8000, mq_minreq := 4\<rparr>"
    by (simp add: pa_memblockq_set_minreq_def r)
  have 4: "pa_memblockq_set_prebuf
        (?b\<lparr>mq_maxlength := 16000, mq_tlength := 8000, mq_missing := 8000, mq_minreq := 4\<rparr>) 8000 =
      ?b\<lparr>mq_maxlength := 16000, mq_tlength := 8000, mq_missing := 8000, mq_minreq := 4, mq_prebuf := 8000\<rparr>"
    by (simp add: pa_memblockq_set_prebuf_def prebuf_limit_def r pa_memblockq_get_length_def)
  show ?thesis
    unfolding pa_memblockq_new_def f r bind.bind_lunit Let_def
    by (simp add: loaded_queue_def pa_mcalign_new_def 1 2 [simplified] 3 [simplified] 4 [simplified] 
      pa_memblockq_set_maxrewind_def round_down_base_def)
qed

subsection \<open>One packet\<close>

definition polled :: "pa_sink_state_t \<Rightarrow> input_userdata \<Rightarrow> bool" where
  "polled state u \<longleftrightarrow> PA_SINK_IS_OPENED state \<and>
     (case ui_rtpoll_item u of
        None \<Rightarrow> False
      | Some item \<Rightarrow> and (pf_revents item) (or (or POLLERR POLLNVAL) (or POLLHUP POLLOUT)) = 0 \<and>
          and (pf_revents item) POLLIN \<noteq> 0)"

definition payload :: "bytes \<Rightarrow> bytes" where
  "payload data = take (length data - (rt_len data + 68)) (drop (rt_len data + 64) data)"

definition packet_head :: "bytes \<Rightarrow> iwab_head" where
  "packet_head data = iwab_head_dec (take 24 (drop (rt_len data + 40) data))"

text \<open>A datagram the stream takes for one of its packets and that fits into the receive block.\<close>

definition receivable :: "input_userdata \<Rightarrow> bytes \<Rightarrow> bool" where
  "receivable u data \<longleftrightarrow> is_iwab_packet (iw_addr_filter (ui_istream u)) data \<and> length data \<le> MAX_FRAME_SIZE_IN"

lemma receivable_lengths:
  assumes "receivable u data"
  shows "rt_len data + 68 < length data" "length data \<le> 1600" "no_wrap data"
    "length (payload data) = length data - (rt_len data + 68)" "payload data \<noteq> []"
proof -
  show l: "rt_len data + 68 < length data" "length data \<le> 1600"
    using assms by (simp_all add: receivable_def is_iwab_packet_def Let_def MAX_FRAME_SIZE_IN_def)
  show "no_wrap data" using l by (simp add: no_wrap_def)
  show p: "length (payload data) = length data - (rt_len data + 68)" using l by (simp add: payload_def)
  show "payload data \<noteq> []" using l p by (metis length_0_conv zero_less_diff less_irrefl)
qed

lemma read_loop_packet:
  assumes r: "receivable u data" and b: "length buf = MAX_FRAME_SIZE_IN"
  shows "\<exists>iw. read_loop (Recv_data data # rs) (ui_istream u) buf err =
      Some (iw, data @ drop (length data) buf, rt_len data + 64, int (length (payload data)), err, rs) \<and>
    iw_iw_in iw = Some (rt_len data + 40) \<and> iw_addr_filter iw = iw_addr_filter (ui_istream u) \<and>
    iw_fd iw = iw_fd (ui_istream u)"
proof -
  note l = receivable_lengths [OF r]
  have "dissect (iw_addr_filter (ui_istream u)) (data @ drop (length data) buf) (length data) =
      Some (Accepted (rt_len data) (rt_len data + 26) (rt_len data + 40) (rt_len data + 64)
        (int (length (payload data))))"
    using dissect_spec(2) [OF l(3)] r l(4) by (simp add: receivable_def)
  then show ?thesis by (simp add: iwab_read_def Let_def)
qed

lemma rtpoll_packet:
  assumes ok: "input_ok u" and po: "polled state u" and r: "receivable u data"
  obtains v c where "input_ok v" "fifo (ui_queue v) = fifo (ui_queue u)" "ui_seqnb v = ui_seqnb u"
    "ui_last_pb_ts v = ui_last_pb_ts u" "mq_maxlength (ui_queue v) = mq_maxlength (ui_queue u)"
    "iw_addr_filter (ui_istream v) = iw_addr_filter (ui_istream u)"
    "chunk_ok (mq_pool (ui_queue v)) c" "ch_length c = length (payload data)" "ch_index c = rt_len data + 64"
    "chunk_bytes (mq_pool (ui_queue v)) c = payload data"
    "rtpoll_work_cb state (Recv_data data # rs) u =
       (case input_accept v c (packet_head data) of None \<Rightarrow> None | Some (u', r) \<Rightarrow> Some (u', r, rs))"
proof -
  note l = receivable_lengths [OF r]
  obtain item where it: "ui_rtpoll_item u = Some item"
    "\<not> and (pf_revents item) (or (or POLLERR POLLNVAL) (or POLLHUP POLLOUT)) \<noteq> 0"
    "\<not> and (pf_revents item) POLLIN = 0" "\<not> \<not> PA_SINK_IS_OPENED state"
    using po by (auto simp: polled_def split: option.splits)
  obtain p n where pn: "pa_memblock_new (mq_pool (ui_queue u)) MAX_FRAME_SIZE_IN = Some (p, n)"
    by (simp add: pa_memblock_new_def MAX_FRAME_SIZE_IN_def Let_def)
  have q: "fifo_ok (ui_queue u)" using ok by (simp add: input_ok_def)
  let ?buf = "data @ drop (length data) (mp_data p n)"
  have nl: "length (mp_data p n) = MAX_FRAME_SIZE_IN" by (rule new_block(3) [OF q pn])
  from read_loop_packet [OF r nl, of rs "ui_errno u"] obtain iw where rl:
    "read_loop (Recv_data data # rs) (ui_istream u) (mp_data p n) (ui_errno u) =
      Some (iw, ?buf, rt_len data + 64, int (length (payload data)), ui_errno u, rs)"
    "iw_iw_in iw = Some (rt_len data + 40)" "iw_addr_filter iw = iw_addr_filter (ui_istream u)" by blast
  let ?v = "input_read u item p n iw ?buf (ui_errno u)"
  let ?c = "\<lparr>ch_memblock = Some n, ch_index = rt_len data + 64, ch_length = length (payload data)\<rparr>"
  note v = input_read_ok [OF ok pn refl, of item iw ?buf "ui_errno u"]
  have h: "load_bytes ?buf (rt_len data + 40) 24 = Some (take 24 (drop (rt_len data + 40) data))"
    using l(1) by (intro load_bytes_prefix) simp
  have "chunk_ok (mq_pool (ui_queue ?v)) ?c"
    unfolding chunk_ok_def using v(5,6) l(1,4) by simp
  moreover have "chunk_bytes (mq_pool (ui_queue ?v)) ?c = payload data"
    using l(1,4) v(6) by (simp add: chunk_bytes_def) (simp add: payload_def)
  moreover have "rtpoll_work_cb state (Recv_data data # rs) u =
       (case input_accept ?v ?c (packet_head data) of None \<Rightarrow> None | Some (u', r) \<Rightarrow> Some (u', r, rs))"
    unfolding rtpoll_work_cb_def it(1) bind.bind_lunit if_not_P [OF it(2)] if_not_P [OF it(3)] Let_def
      if_not_P [OF it(4)]
    using pn rl h
    by (simp add: input_read_def [symmetric] packet_head_def split: option.split)
  ultimately show thesis using v rl(3) by (intro that [of ?v ?c]) (simp_all add: input_read_def ui_set_pool_def)
qed

text \<open>The acceptance of a chunk on every branch that does not abort.\<close>

definition chunk_usec :: "nat \<Rightarrow> nat" where
  "chunk_usec len = len div 4 * 1000000 div 44100"

lemma bytes_to_usec_iwab:
  assumes "len < 2 ^ 32"
  shows "pa_bytes_to_usec len iwab_ss = Some (chunk_usec len)"
proof -
  have "len div frame_bytes iwab_ss * 1000000 < 2 ^ 64" using assms by (simp add: iwab_ss_frame)
  from pa_bytes_to_usec_eq [OF iwab_ss_valid this] show ?thesis
    by (simp add: iwab_ss_frame chunk_usec_def) (simp add: iwab_ss_def)
qed

lemma usec_to_bytes_iwab:
  "pa_usec_to_bytes t iwab_ss = Some (wrap64 (wrap64 (t * 44100) div 1000000 * 4))"
  using iwab_ss_frame iwab_ss_valid
  by (simp add: pa_usec_to_bytes_def iwab_ss_def PA_USEC_PER_SEC_def)

definition gap_bytes :: "input_userdata \<Rightarrow> iwab_head \<Rightarrow> nat" where
  "gap_bytes u h = (if gap u h then
     wrap64 (wrap64 (unat (iwh_timestamp h - ui_last_pb_ts u) * 44100) div 1000000 * 4) else 0)"

lemma input_accept_eq:
  assumes ss: "ui_ss u = iwab_ss" and io: "in_order u h" and al: "4 dvd ch_length c"
    and g: "gap u h \<Longrightarrow> ui_last_pb_ts u < iwh_timestamp h" and len: "ch_length c < 2 ^ 32"
    and f: "filler_loop (ui_queue u) c (gap_bytes u h) = Some q1"
    and p: "pa_memblockq_push q1 c = Some (q2, r)"
  shows "\<exists>u'. input_accept u c h = Some (u', 1) \<and>
    ui_queue u' = q2\<lparr>mq_pool := unref_chunk (mq_pool q2) c\<rparr> \<and> ui_seqnb u' = iwh_seq h \<and>
    ui_last_pb_ts u' = iwh_timestamp h + of_nat (chunk_usec (ch_length c)) \<and> ui_istream u' = ui_istream u"
proof -
  have al': "pa_frame_aligned (ch_length c) (ui_ss u) = Some True"
    using pa_frame_aligned_eq [OF iwab_ss_valid] iwab_ss_frame ss al by simp
  have nig: "\<not> iwh_seq h = ui_seqnb u" "\<not> (ui_seqnb u \<noteq> 0 \<and> iwh_seq h < ui_seqnb u)"
    "\<not> (ui_last_pb_ts u \<noteq> 0 \<and> iwh_timestamp h < ui_last_pb_ts u)"
    using io by (auto simp: in_order_def not_less)
  note b = bytes_to_usec_iwab [OF len]
  show ?thesis
  proof (cases "gap u h")
    case True
    then have g': "ui_seqnb u \<noteq> 0 \<and> iwh_seq h \<noteq> ui_seqnb u + 1" by (simp add: gap_def)
    show ?thesis
      unfolding input_accept_def if_not_P [OF nig(1)] if_not_P [OF nig(2)] if_not_P [OF nig(3)] if_P [OF g'] al'
      using True f p b g ss usec_to_bytes_iwab [of "unat (iwh_timestamp h - ui_last_pb_ts u)"]
      by (simp add: Let_def ui_set_pool_def gap_bytes_def)
  next
    case False
    then have g': "\<not> (ui_seqnb u \<noteq> 0 \<and> iwh_seq h \<noteq> ui_seqnb u + 1)" by (simp add: gap_def)
    have "q1 = ui_queue u" using f False by (simp add: gap_bytes_def filler_loop.simps)
    then show ?thesis
      unfolding input_accept_def if_not_P [OF nig(1)] if_not_P [OF nig(2)] if_not_P [OF nig(3)] if_not_P [OF g'] al'
      using p b ss by (simp add: Let_def ui_set_pool_def)
  qed
qed

lemma input_accept_total:
  assumes ok: "input_ok u" and io: "in_order u h" and pu: "pushable (ui_queue u) c"
    and g: "gap u h \<Longrightarrow> ui_last_pb_ts u < iwh_timestamp h" and len: "ch_length c < 2 ^ 32"
  shows "\<exists>u'. input_accept u c h = Some (u', 1) \<and> input_ok u' \<and> ui_seqnb u' = iwh_seq h \<and>
    ui_last_pb_ts u' = iwh_timestamp h + of_nat (chunk_usec (ch_length c)) \<and> ui_istream u' = ui_istream u \<and>
    mq_maxlength (ui_queue u') = mq_maxlength (ui_queue u) \<and>
    (length (fifo (ui_queue u)) + gap_bytes u h + ch_length c \<le> mq_maxlength (ui_queue u) \<longrightarrow>
      fifo (ui_queue u') = fifo (ui_queue u) @
        repeated (chunk_bytes (mq_pool (ui_queue u)) c) (gap_bytes u h) @ chunk_bytes (mq_pool (ui_queue u)) c)"
proof -
  let ?q = "ui_queue u" and ?m = "gap_bytes u h" and ?bs = "chunk_bytes (mq_pool (ui_queue u)) c"
  have q: "fifo_ok ?q" "ui_ss u = iwab_ss" "mq_base ?q = 4" using ok by (simp_all add: input_ok_def)
  have c: "chunk_ok (mq_pool ?q) c" "0 < ch_length c" "4 dvd ch_length c" using pu q(3) by (simp_all add: pushable_def)
  have "mq_base ?q dvd ?m" unfolding q(3) by (simp add: gap_bytes_def wrap64_def dvd_mod)
  then obtain q1 where f: "filler_loop ?q c ?m = Some q1" using filler_loop_returns [OF q(1) pu] by blast
  note s1 = filler_loop_some [OF q(1) c(1,2) f]
  have d: "mp_data (mq_pool q1) = mp_data (mq_pool ?q)" "mp_next (mq_pool q1) = mp_next (mq_pool ?q)"
    "fifo_ok q1" "mq_base q1 = mq_base ?q" "mq_maxlength q1 = mq_maxlength ?q" using s1 by blast+
  have ck: "chunk_ok (mq_pool q1) c" using chunk_ok_cong [OF d(1,2)] c(1) by simp
  then have "pushable q1 c" using pu d(4) by (simp add: pushable_def)
  then obtain q2 r where p: "pa_memblockq_push q1 c = Some (q2, r)"
    using memblockq.push_total [OF d(3)] by blast
  note s2 = push_some [OF d(3) ck p]
  from input_accept_eq [OF q(2) io c(3) g len f p] obtain u' where u': "input_accept u c h = Some (u', 1)"
    "ui_queue u' = q2\<lparr>mq_pool := unref_chunk (mq_pool q2) c\<rparr>" "ui_seqnb u' = iwh_seq h"
    "ui_last_pb_ts u' = iwh_timestamp h + of_nat (chunk_usec (ch_length c))" "ui_istream u' = ui_istream u"
    by blast
  have "input_ok u'" using input_accept_sound [OF ok c(1,2) u'(1)] by blast
  moreover have "mq_maxlength (ui_queue u') = mq_maxlength ?q" using u'(2) s2(6) d(5) by simp
  moreover have "fifo (ui_queue u') = fifo ?q @ repeated ?bs ?m @ ?bs"
    if room: "length (fifo ?q) + ?m + ch_length c \<le> mq_maxlength ?q"
  proof -
    have f1: "fifo q1 = fifo ?q @ repeated ?bs ?m" using s1 room by simp
    have "length (repeated ?bs ?m) = ?m" by (simp add: repeated_def)
    then have "length (fifo q1) + ch_length c \<le> mq_maxlength q1" using room d(5) arg_cong [OF f1, of length] by simp
    moreover have "chunk_bytes (mq_pool q1) c = ?bs" by (rule chunk_bytes_cong) (simp add: d(1))
    ultimately have "fifo q2 = fifo ?q @ repeated ?bs ?m @ ?bs" using s2(8) f1 by simp
    then show ?thesis unfolding u'(2) using unref_keeps(2) [OF s2(2)] by simp
  qed
  ultimately show ?thesis using u' by blast
qed

lemma input_accept_aborts:
  assumes ss: "ui_ss u = iwab_ss" "mq_base (ui_queue u) = 4" "fifo_ok (ui_queue u)"
    and c: "chunk_ok (mq_pool (ui_queue u)) c" "0 < ch_length c"
    and bad: "iwh_seq h \<noteq> ui_seqnb u \<and> \<not> 4 dvd ch_length c \<or> in_order u h \<and> \<not> 4 dvd ch_index c"
  shows "input_accept u c h = None"
proof (rule ccontr)
  assume "input_accept u c h \<noteq> None"
  then obtain u' r where a: "input_accept u c h = Some (u', r)" by auto
  have al: "pa_frame_aligned (ch_length c) (ui_ss u) = Some (4 dvd ch_length c)"
    using pa_frame_aligned_eq [OF iwab_ss_valid] iwab_ss_frame ss by simp
  have d: "4 dvd ch_length c" if "iwh_seq h \<noteq> ui_seqnb u"
    using a that al by (auto simp: input_accept_def bind_eq_Some_conv)
  then have io: "in_order u h" and i: "\<not> 4 dvd ch_index c" using bad by (auto simp: in_order_def)
  from input_accept_pushes [OF ss(1) io a] obtain q1 q2 r1 where p: "pa_memblockq_push q1 c = Some (q2, r1)"
    "(\<exists>n. filler_loop (ui_queue u) c n = Some q1) \<or> q1 = ui_queue u" by metis
  have q1: "fifo_ok q1 \<and> mp_data (mq_pool q1) = mp_data (mq_pool (ui_queue u)) \<and>
      mp_next (mq_pool q1) = mp_next (mq_pool (ui_queue u)) \<and> mq_base q1 = 4"
    using p(2) filler_loop_some [OF ss(3) c] ss by metis
  then have "pushable q1 c"
    using push_some(1) [OF _ _ p(1)] chunk_ok_cong c(1) by blast
  then show False using i q1 by (simp add: pushable_def)
qed

text \<open>A captured packet of a sender with the receiver's filter.\<close>

lemma captured_receivable:
  assumes h: "headers_sized h" "d11_type (hd_dot11 h) = 2" "d11_subtype (hd_dot11 h) = 8"
    "d11_addr1 (hd_dot11 h) = filt" "d11_addr2 (hd_dot11 h) = filt" "d11_addr3 (hd_dot11 h) = filt"
    and rt: "radiotap_ok rt" and b: "b \<noteq> []" "length fcs = 4" and len: "length rt + 68 + length b \<le> MAX_FRAME_SIZE_IN"
    and f: "iw_addr_filter (ui_istream u) = filt"
  defines "data \<equiv> captured rt (headers_enc h @ b) fcs"
  shows "receivable u data" "payload data = b" "packet_head data = hd_iw_h h" "rt_len data = length rt"
    "length data = length rt + 68 + length b"
proof -
  have "length b < 2 ^ 32" using len by (simp add: MAX_FRAME_SIZE_IN_def)
  note p = captured_packet [OF h rt b this, folded data_def]
  show "rt_len data = length rt" "length data = length rt + 68 + length b" using p by simp_all
  show "receivable u data" using p f len by (simp add: receivable_def)
  have l: "length (headers_enc h) = 64" using h(1) by (rule headers.length_enc)
  show "payload data = b" unfolding payload_def p(1,4) using l by (simp add: data_def captured_def)
  have "drop (length rt + 40) data = drop 40 (headers_enc h @ b @ fcs)" by (simp add: data_def captured_def)
  then have "take 24 (drop (length rt + 40) data) = iwab_head_enc (hd_iw_h h)"
    by (simp only: headers_enc_fields(5) [OF h(1)])
  moreover have "iwab_head_sized (hd_iw_h h)" using h(1) by (simp add: headers_sized_def)
  ultimately show "packet_head data = hd_iw_h h" unfolding packet_head_def p(1) using iwab_head.dec_enc by simp
qed

subsection \<open>Playing\<close>

lemma empty_prebuf: "0 < mq_prebuf q \<Longrightarrow> fifo_ok q \<Longrightarrow> fifo q = [] \<Longrightarrow> pa_memblockq_prebuf_active q"
  by (auto simp: fifo_def get_length_nat fifo_ok_def pa_memblockq_prebuf_active_def)

lemma pop_cb_spec:
  assumes ok: "input_ok u"
  shows "\<exists>u' r c. sink_input_pop_cb u n = Some (u', r, c) \<and> input_ok u' \<and>
    ui_seqnb u' = ui_seqnb u \<and> ui_last_pb_ts u' = ui_last_pb_ts u \<and> ui_istream u' = ui_istream u \<and>
    mq_maxlength (ui_queue u') = mq_maxlength (ui_queue u) \<and>
    (if pa_memblockq_prebuf_active (ui_queue u)
     then r = -1 \<and> c = None \<and> fifo (ui_queue u') = fifo (ui_queue u)
     else r = 0 \<and> (\<exists>ch. c = Some ch \<and> chunk_bytes (mq_pool (ui_queue u')) ch \<noteq> [] \<and>
       fifo (ui_queue u) = chunk_bytes (mq_pool (ui_queue u')) ch @ fifo (ui_queue u')))"
proof (cases "pa_memblockq_prebuf_active (ui_queue u)")
  case True
  let ?q = "ui_queue u"
  have pk: "pa_memblockq_peek ?q = (?q\<lparr>mq_in_prebuf := True\<rparr>, None)"
    using True by (simp add: pa_memblockq_peek_def update_prebuf_eq)
  have f: "fifo_ok ?q" "0 < mq_prebuf ?q" using ok by (simp_all add: input_ok_def)
  have cu: "cursors_ok (?q\<lparr>mq_in_prebuf := True\<rparr>)" using f by (simp add: fifo_ok_def mq_inv_def cursors_ok_def)
  note fr = fifo_ok_frame [of "?q\<lparr>mq_in_prebuf := True\<rparr>" ?q]
  show ?thesis using True ok fr f cu by (simp add: sink_input_pop_cb_def pk input_ok_def)
next
  case False
  let ?q = "ui_queue u"
  have f: "fifo_ok ?q" "0 < mq_prebuf ?q" "mq_base ?q = 4" using ok by (simp_all add: input_ok_def)
  have ne: "fifo ?q \<noteq> []" using empty_prebuf f False by blast
  obtain i c rest where pk: "pa_memblockq_peek ?q = (?q\<lparr>mq_in_prebuf := False, mq_current_read := Some i,
      mq_pool := ref_chunk (mq_pool ?q) c\<rparr>, Some c)" "i < length (mq_blocks ?q)"
    "chunk_ok (mq_pool ?q) c" "0 < ch_length c" "mq_base ?q dvd ch_length c"
    "fifo ?q = chunk_bytes (mq_pool ?q) c @ rest"
    using peek_fifo [OF f(1) False ne] by blast
  let ?p = "?q\<lparr>mq_in_prebuf := False, mq_current_read := Some i, mq_pool := ref_chunk (mq_pool ?q) c\<rparr>"
  have cu: "cursors_ok ?p" using f(1) pk(2) by (simp add: fifo_ok_def mq_inv_def cursors_ok_def)
  have fp: "fifo_ok ?p" "fifo ?p = fifo ?q" using fifo_ok_frame [of ?p ?q] cu f(1) by simp_all
  have np: "\<not> pa_memblockq_prebuf_active ?p"
    using ne by (auto simp: pa_memblockq_prebuf_active_def fifo_def get_length_nat)
  have L: "length (chunk_bytes (mq_pool ?q) c) = ch_length c" using pk(3) by (rule length_chunk_bytes)
  have "ch_length c \<le> length (fifo ?p)" using pk(6) L fp(2) by simp
  then have le: "ch_length c \<le> pa_memblockq_get_length ?p" by simp
  have dv: "mq_base ?p dvd ch_length c" using pk(5) by simp
  from drop_fifo [OF fp(1) np dv pk(4) le] obtain q' where d: "pa_memblockq_drop ?p (ch_length c) = Some q'"
    "fifo_ok q'" "fifo q' = drop (ch_length c) (fifo ?p)"
    "mq_params q' = mq_params (?p\<lparr>mq_read_index := mq_read_index ?p + int (ch_length c), mq_in_prebuf := False,
      mq_missing := mq_missing ?p + int (ch_length c)\<rparr>)" by blast
  note pd = mq_paramsD [OF d(4), simplified]
  have cb: "chunk_bytes (mq_pool q') c = chunk_bytes (mq_pool ?q) c" by (rule chunk_bytes_cong) (simp add: pd)
  have "fifo ?q = chunk_bytes (mq_pool q') c @ fifo q'" using cb pk(6) d(3) fp(2) L by simp
  moreover have "chunk_bytes (mq_pool q') c \<noteq> []" using cb L pk(4) by auto
  ultimately show ?thesis using False pk(1) d(1,2) pd f ok by (simp add: sink_input_pop_cb_def input_ok_def)
qed

subsection \<open>Loading\<close>

lemma init_loads:
  assumes i: "iwab_input_init env = Some (Some u, r)"
  shows "input_ok u" "fifo (ui_queue u) = []" "ui_seqnb u = 0" "ui_last_pb_ts u = 0" "r = 0"
    "mq_maxlength (ui_queue u) = 16000" "\<exists>fd \<ge> 0. ui_istream u = iwab_setup\<lparr>iw_fd := fd\<rparr>"
    "ui_rtpoll_item u = None"
proof -
  have nf: "input_init_fail env x \<noteq> Some (Some u, r)" for x
    by (auto simp: input_init_fail_def bind_eq_Some_conv)
  obtain iw ro calls where o:
    "iwab_open (ie_net env) (Some (ui_istream (ie_garbage env))) (Some (ie_iface env)) = (iw, ro, calls)"
    by (metis prod_cases3)
  have c: "ie_modargs_ok env" "ro = 0" "ie_sink_found env" "ie_sink_input_created env"
    using i nf iwab_ss_valid o by (auto simp: iwab_input_init_def Let_def split: if_splits)
  have "\<exists>fd \<ge> 0. iw = Some (iwab_setup\<lparr>iw_fd := fd\<rparr>)"
    using o c(2)
    by (intro exI [of _ "ne_socket (ie_net env)"])
      (auto simp: iwab_open_def Let_def not_less split: if_splits prod.splits)
  then obtain fd where fd: "0 \<le> fd" "iw = Some (iwab_setup\<lparr>iw_fd := fd\<rparr>)" by blast
  have u: "r = 0" "ui_istream u = iwab_setup\<lparr>iw_fd := fd\<rparr>" "ui_seqnb u = 0" "ui_last_pb_ts u = 0"
    "ui_rtpoll_item u = None" "ui_ss u = iwab_ss"
    "ui_queue u = (loaded_queue (ie_silence env) (ref_chunk (ie_pool env) (ie_silence env)))
      \<lparr>mq_pool := unref_chunk (mq_pool (loaded_queue (ie_silence env) (ref_chunk (ie_pool env) (ie_silence env))))
        (ie_silence env)\<rparr>"
    using i o c fd(2) by (auto simp: iwab_input_init_def Let_def input_queue_new iwab_ss_valid)
  have q: "ui_queue u = loaded_queue (ie_silence env) (unref_chunk (ref_chunk (ie_pool env) (ie_silence env)) (ie_silence env))"
    using u(7) by (simp add: loaded_queue_def)
  show "input_ok u" "fifo (ui_queue u) = []" "mq_maxlength (ui_queue u) = 16000"
    unfolding input_ok_def q using loaded_queue_ok u by simp_all
  show "ui_seqnb u = 0" "ui_last_pb_ts u = 0" "r = 0" "\<exists>fd \<ge> 0. ui_istream u = iwab_setup\<lparr>iw_fd := fd\<rparr>"
    "ui_rtpoll_item u = None"
    using u fd by auto
qed

lemma init_succeeds:
  assumes "ie_modargs_ok env" "ie_sink_found env" "ie_sink_input_created env" "0 \<le> ne_socket (ie_net env)"
    "0 \<le> fst (ne_ioctl (ie_net env) (ne_socket (ie_net env)) (take 15 (ie_iface env)))"
    "\<forall>fd i. 0 \<le> ne_bind (ie_net env) fd i"
  shows "\<exists>u. iwab_input_init env = Some (Some u, 0)"
proof -
  let ?n = "ie_net env"
  obtain r i where ri: "ne_ioctl ?n (ne_socket ?n) (take 15 (ie_iface env)) = (r, i)" by fastforce
  have "\<not> ne_socket ?n < 0" "\<not> r < 0" "\<not> ne_bind ?n (ne_socket ?n) i < 0" using assms(4-6) ri by (simp_all add: not_less)
  then show ?thesis using assms(1-3) ri
    by (simp add: iwab_input_init_def iwab_open_def Let_def input_queue_new iwab_ss_valid)
qed

subsection \<open>Runs of the module\<close>

text \<open>
  What happens to a loaded module: the sink input is attached or detached or a poll result is
  delivered, the handler works on pending datagrams, the sink pops a chunk, other parts of the
  daemon allocate blocks and take or release references. \<open>ins\<close> are the bytes the handler queued, \<open>outs\<close> the
  bytes popped so far. Rewinding is left out: the queue keeps no played data.
\<close>

definition pool_grows :: "pa_mempool \<Rightarrow> pa_mempool \<Rightarrow> bool" where
  "pool_grows p p' \<longleftrightarrow> mp_next p \<le> mp_next p' \<and> (\<forall>b < mp_next p. mp_data p' b = mp_data p b)"

inductive input_run :: "bytes \<Rightarrow> bytes \<Rightarrow> input_userdata \<Rightarrow> bool" where
  load: "iwab_input_init env = Some (Some u, r) \<Longrightarrow> input_run [] [] u"
| event: "input_run ins outs u \<Longrightarrow> input_run ins outs (u\<lparr>ui_rtpoll_item := i\<rparr>)"
| work: "input_run ins outs u \<Longrightarrow> packets_fit rs \<Longrightarrow> rtpoll_work_cb state rs u = Some (u', r, rs') \<Longrightarrow>
    input_run (ins @ drop (length (fifo (ui_queue u))) (fifo (ui_queue u'))) outs u'"
| pop: "input_run ins outs u \<Longrightarrow> sink_input_pop_cb u n = Some (u', r, c) \<Longrightarrow>
    input_run ins (outs @ (case c of None \<Rightarrow> [] | Some ch \<Rightarrow> chunk_bytes (mq_pool (ui_queue u')) ch)) u'"
| environment: "input_run ins outs u \<Longrightarrow> pool_grows (mq_pool (ui_queue u)) p \<Longrightarrow>
    input_run ins outs (ui_set_pool u p)"

lemma run_conserves:
  assumes "input_run ins outs u"
  shows "input_ok u \<and> ins = outs @ fifo (ui_queue u)"
  using assms
proof induction
  case load
  then show ?case using init_loads by simp
next
  case event
  then show ?case by simp
next
  case (work ins outs u rs state u' r rs')
  then have "input_kept u u'" using rtpoll_work_sound by blast
  then show ?case using work.IH by (auto simp: input_kept_def)
next
  case (pop ins outs u n u' r c)
  then show ?case using pop_cb_spec [of u n] by (auto split: if_splits)
next
  case (environment ins outs u p)
  then have "fifo_ok (ui_queue u)" by (simp add: input_ok_def)
  from fifo_pool_ext [OF this, of p] environment show ?case
    by (auto simp: pool_grows_def input_ok_def ui_set_pool_def)
qed

end
