(* ===== verification/Iwab_Sink.thy ===== *)
theory Iwab_Sink
  imports Iwab_Input
begin

text \<open>
  The sending module \<open>src/modules/iwab/iwab-sink.c\<close>: its thread renders a chunk when the stream
  time has come, sends it, and sends it once more half a chunk later.

  The clock, the result of \<open>writev\<close> and of \<open>pa_rtpoll_run\<close>, and \<open>pa_sink_render\<close>, which mixes the
  inputs of the sink into a chunk of at most the requested length, are parameters. Of the sink
  the state holds the fields of \<open>thread_info\<close> the module uses; the memory pool is that of the
  core.
\<close>

subsection \<open>State\<close>

definition MAX_FRAME_SIZE_OUT :: nat where "MAX_FRAME_SIZE_OUT = 1400"

datatype rt_timer = Timer_disabled | Timer_at "64 word"

datatype thread_state = Thread_running | Thread_failed | Thread_finished

record sink_userdata =
  us_state :: pa_sink_state_t
  us_rewind_requested :: bool
  us_max_request :: nat
  us_max_rewind :: nat
  us_sample_spec :: pa_sample_spec
  us_pool :: pa_mempool
  us_timer :: rt_timer
  us_thread :: thread_state
  us_block_usec :: "64 word"
  us_stream_ts_abs :: "64 word"
  us_stream_resend_abs :: "64 word"
  us_retries :: int
  us_istream :: iwab
  us_chunk :: pa_memchunk

type_synonym render_fun = "nat \<Rightarrow> pa_mempool \<Rightarrow> pa_mempool \<times> pa_memchunk"

subsection \<open>Callbacks of the sink\<close>

text \<open>\<open>sink_process_msg\<close> for \<open>PA_SINK_MESSAGE_GET_LATENCY\<close>: an unsigned difference read as signed.\<close>

definition sink_get_latency :: "64 word \<Rightarrow> sink_userdata \<Rightarrow> int" where
  "sink_get_latency now u = sint (us_stream_ts_abs u - now)"

text \<open>
  \<open>sink_set_state_in_io_thread_cb\<close>. Without braces only the log call depends on the new state;
  the core sets the state after the callback returned 0.
\<close>

definition sink_set_state_in_io_thread_cb ::
    "64 word \<Rightarrow> pa_sink_state_t \<Rightarrow> sink_userdata \<Rightarrow> sink_userdata \<times> int" where
  "sink_set_state_in_io_thread_cb now new_state u =
     (if us_state u = PA_SINK_SUSPENDED \<or> us_state u = PA_SINK_INIT
      then (u\<lparr>us_stream_ts_abs := now\<rparr>, 0)
      else (u, 0))"

text \<open>\<open>latency\<close> is the answer of \<open>pa_sink_get_requested_latency_within_thread\<close>.\<close>

definition sink_update_requested_latency_cb ::
    "64 word \<Rightarrow> sink_userdata \<Rightarrow> sink_userdata option" where
  "sink_update_requested_latency_cb latency u =
     (let u = u\<lparr>us_block_usec := latency\<rparr>
      in do {
        (u, nbytes) \<leftarrow>
          (if us_block_usec u = - 1
           then do {
             nbytes \<leftarrow> pa_frame_align MAX_FRAME_SIZE_OUT (us_sample_spec u);
             t \<leftarrow> pa_bytes_to_usec nbytes (us_sample_spec u);
             Some (u\<lparr>us_block_usec := of_nat t\<rparr>, nbytes) }
           else do {
             nbytes \<leftarrow> pa_usec_to_bytes (unat (us_block_usec u)) (us_sample_spec u);
             Some (u, nbytes) });
        Some (u\<lparr>us_max_rewind := 0, us_max_request := nbytes\<rparr>) })"

subsection \<open>The thread\<close>

definition sink_thread_start :: "64 word \<Rightarrow> sink_userdata \<Rightarrow> sink_userdata" where
  "sink_thread_start now u = u\<lparr>us_stream_ts_abs := now, us_retries := 0\<rparr>"

text \<open>The bytes from \<open>(char*) p + u->chunk.index\<close> to the end of the block.\<close>

definition chunk_tail :: "pa_mempool \<Rightarrow> pa_memchunk \<Rightarrow> bytes option" where
  "chunk_tail p c = do { b \<leftarrow> ch_memblock c; Some (drop (ch_index c) (mp_data p b)) }"

text \<open>Rendering and sending the next chunk; the flag is false on the way to \<open>fail\<close>.\<close>

definition sink_send_next ::
    "render_fun \<Rightarrow> (int \<Rightarrow> bytes \<Rightarrow> int) \<Rightarrow> sink_userdata \<Rightarrow> (sink_userdata \<times> bytes \<times> bool) option" where
  "sink_send_next render writev u =
     (let (p, c) = render (us_max_request u) (us_pool u);
          u = u\<lparr>us_pool := p, us_chunk := c, us_retries := 0\<rparr>
      in do {
        pa_assert (ch_length (us_chunk u) > 0);
        b \<leftarrow> chunk_tail (us_pool u) (us_chunk u);
        (iw, out, ret) \<leftarrow> iwab_send writev (us_istream u) (Some b) (ch_length (us_chunk u))
          (us_stream_ts_abs u) (of_int (us_retries u));
        (let u = u\<lparr>us_istream := iw\<rparr>
         in if ret < 0 then Some (u, out, False)
            else do {
              chunk_time \<leftarrow> pa_bytes_to_usec (ch_length (us_chunk u)) (us_sample_spec u);
              (let u = u\<lparr>us_retries := us_retries u + 1\<rparr>;
                   u = u\<lparr>us_stream_resend_abs := us_stream_ts_abs u + of_nat chunk_time div 2\<rparr>;
                   u = u\<lparr>us_stream_ts_abs := us_stream_ts_abs u + of_nat chunk_time\<rparr>
               in Some (u\<lparr>us_timer := Timer_at (us_stream_resend_abs u)\<rparr>, out, True)) }) })"

definition sink_resend ::
    "(int \<Rightarrow> bytes \<Rightarrow> int) \<Rightarrow> sink_userdata \<Rightarrow> (sink_userdata \<times> bytes \<times> bool) option" where
  "sink_resend writev u = do {
     b \<leftarrow> chunk_tail (us_pool u) (us_chunk u);
     (iw, out, ret) \<leftarrow> iwab_send writev (us_istream u) (Some b) (ch_length (us_chunk u))
       (iwh_timestamp (hd_iw_h (iw_wi_h (us_istream u)))) (of_int (us_retries u));
     (let u = u\<lparr>us_istream := iw\<rparr>
      in if ret < 0 then Some (u, out, False)
         else
           (let u = u\<lparr>us_pool := unref_chunk (us_pool u) (us_chunk u)\<rparr>;
                u = u\<lparr>us_retries := us_retries u + 1\<rparr>
            in Some (u\<lparr>us_timer := Timer_at (us_stream_ts_abs u)\<rparr>, out, True))) }"

text \<open>The body of the loop up to the sleep, with the packets it sent.\<close>

definition sink_tick ::
    "render_fun \<Rightarrow> (int \<Rightarrow> bytes \<Rightarrow> int) \<Rightarrow> 64 word \<Rightarrow> sink_userdata \<Rightarrow>
       (sink_userdata \<times> bytes list \<times> bool) option" where
  "sink_tick render writev now u =
     (let u = u\<lparr>us_rewind_requested := False\<rparr>
      in if PA_SINK_IS_OPENED (us_state u)
         then
           (if us_stream_ts_abs u \<le> now
            then do { (u, out, ok) \<leftarrow> sink_send_next render writev u; Some (u, [out], ok) }
            else if us_stream_resend_abs u \<le> now \<and> us_retries u \<le> 1
            then do { (u, out, ok) \<leftarrow> sink_resend writev u; Some (u, [out], ok) }
            else Some (u\<lparr>us_timer := Timer_at (us_stream_ts_abs u)\<rparr>, [], True))
         else Some (u\<lparr>us_timer := Timer_disabled\<rparr>, [], True))"

text \<open>One round of the loop; \<open>ret\<close> is the result of \<open>pa_rtpoll_run\<close>.\<close>

definition sink_round ::
    "render_fun \<Rightarrow> (int \<Rightarrow> bytes \<Rightarrow> int) \<Rightarrow> 64 word \<Rightarrow> int \<Rightarrow> sink_userdata \<Rightarrow>
       (sink_userdata \<times> bytes list) option" where
  "sink_round render writev now ret u = do {
     (u, outs, ok) \<leftarrow> sink_tick render writev now u;
     Some (u\<lparr>us_thread := (if \<not> ok \<or> ret < 0 then Thread_failed
                            else if ret = 0 then Thread_finished else Thread_running)\<rparr>, outs) }"

subsection \<open>Loading and unloading\<close>

text \<open>
  What \<open>pa__init\<close> gets from the daemon: whether the arguments parse, the sample specification
  they give, whether message queue, properties, sink and thread are set up, and the specification
  the sink was created with.
\<close>

record sink_env =
  se_modargs_ok :: bool
  se_spec_ok :: bool
  se_thread_mq_ok :: bool
  se_proplist_ok :: bool
  se_iface :: string
  se_net :: net_env
  se_close :: "int \<Rightarrow> int"
  se_sink :: "pa_sample_spec option"
  se_thread_ok :: bool
  se_pool :: pa_mempool

text \<open>The memory \<open>pa_xnew0\<close> returns: every field zero.\<close>

definition iwab_zero :: iwab where
  "iwab_zero =
     \<lparr>iw_fd = 0, iw_rt_in = None, iw_dot11_in = None, iw_l2_in = None, iw_iw_in = None,
      iw_rt_h = \<lparr>rt_head = \<lparr>rth_version = 0, rth_length = 0, rth_bitmap = 0\<rparr>, rt_args = replicate 5 0\<rparr>,
      iw_wi_h =
        \<lparr>hd_dot11 = \<lparr>d11_version = 0, d11_type = 0, d11_subtype = 0, d11_flags = 0, d11_duration = 0,
           d11_addr1 = replicate 6 0, d11_addr2 = replicate 6 0, d11_addr3 = replicate 6 0,
           d11_frag_nb = 0, d11_seq_nb = 0\<rparr>,
         hd_dot11qos = 0,
         hd_l2 = \<lparr>l2_src_mac = replicate 6 0, l2_dst_mac = replicate 6 0, l2_ethertype = 0\<rparr>,
         hd_iw_h = \<lparr>iwh_version = 0, iwh_channel = 0, iwh_length = 0, iwh_seq = 0,
           iwh_timestamp = 0, iwh_retry = 0, iwh_pad = replicate 7 0\<rparr>\<rparr>,
      iw_iov = replicate 3 \<lparr>iov_base = IOV_NULL, iov_len = 0\<rparr>,
      iw_addr_filter = replicate 6 0\<rparr>"

definition sink_userdata_zero :: "pa_mempool \<Rightarrow> sink_userdata" where
  "sink_userdata_zero p =
     \<lparr>us_state = PA_SINK_INIT, us_rewind_requested = False, us_max_request = 0, us_max_rewind = 0,
      us_sample_spec = pa_sample_spec_init, us_pool = p, us_timer = Timer_disabled,
      us_thread = Thread_finished, us_block_usec = 0, us_stream_ts_abs = 0,
      us_stream_resend_abs = 0, us_retries = 0, us_istream = iwab_zero, us_chunk = pa_memchunk_reset\<rparr>"

text \<open>\<open>pa__done\<close>: the descriptor it closed, if there is user data.\<close>

definition iwab_sink_done :: "(int \<Rightarrow> int) \<Rightarrow> sink_userdata option \<Rightarrow> int option option" where
  "iwab_sink_done close u =
     (case u of
        None \<Rightarrow> Some None
      | Some u \<Rightarrow> do {
          pa_assert (iwab_close close (us_istream u) = 0);
          Some (Some (iw_fd (us_istream u))) })"

datatype sink_init_result =
    Init_failed (closed: "int option")
  | Init_done (initialised: sink_userdata)

definition sink_init_fail :: "sink_env \<Rightarrow> sink_userdata option \<Rightarrow> sink_init_result option" where
  "sink_init_fail env u = do { fd \<leftarrow> iwab_sink_done (se_close env) u; Some (Init_failed fd) }"

definition iwab_sink_init :: "sink_env \<Rightarrow> sink_init_result option" where
  "iwab_sink_init env =
     (if \<not> se_modargs_ok env then sink_init_fail env None
      else if \<not> se_spec_ok env then sink_init_fail env None
      else
        (let u = sink_userdata_zero (se_pool env)
         in if \<not> se_thread_mq_ok env then sink_init_fail env (Some u)
            else if \<not> se_proplist_ok env then sink_init_fail env (Some u)
            else
              (case iwab_open (se_net env) (Some (us_istream u)) (Some (se_iface env)) of
                 (iw, r, _) \<Rightarrow>
                   (let u = u\<lparr>us_istream := (case iw of None \<Rightarrow> us_istream u | Some iw \<Rightarrow> iw)\<rparr>
                    in if r \<noteq> 0 then sink_init_fail env (Some u)
                       else
                         (case se_sink env of
                            None \<Rightarrow> sink_init_fail env (Some u)
                          | Some ss \<Rightarrow> do {
                              buffer_size \<leftarrow> pa_frame_align MAX_FRAME_SIZE_OUT ss;
                              t \<leftarrow> pa_bytes_to_usec buffer_size ss;
                              (let u = u\<lparr>us_sample_spec := ss, us_block_usec := of_nat t, us_max_rewind := 0,
                                         us_max_request := buffer_size\<rparr>
                               in if \<not> se_thread_ok env then sink_init_fail env (Some u)
                                  else Some (Init_done (u\<lparr>us_thread := Thread_running\<rparr>))) })))))"

subsection \<open>What one tick sends\<close>

text \<open>The iwab header and the payload of a packet as it was handed to \<open>writev\<close>.\<close>

definition sent_head :: "bytes \<Rightarrow> iwab_head" where
  "sent_head out = iwab_head_dec (take 24 (drop 58 out))"

definition sent_payload :: "bytes \<Rightarrow> bytes" where
  "sent_payload out = drop 82 out"

definition dur_usec :: "pa_sample_spec \<Rightarrow> nat \<Rightarrow> nat" where
  "dur_usec ss len = (len div frame_bytes ss) * 1000000 div ss_rate ss"

lemma bytes_to_usec_dur:
  assumes "pa_sample_spec_valid ss" "len < 2 ^ 32"
  shows "pa_bytes_to_usec len ss = Some (dur_usec ss len)"
proof -
  have "len div frame_bytes ss < 2 ^ 32" using div_le_dividend assms(2) by (rule le_less_trans)
  then have "(len div frame_bytes ss) * 1000000 < 2 ^ 64" using assms(2) by simp
  then show ?thesis using pa_bytes_to_usec_eq [OF assms(1)] by (simp add: dur_usec_def)
qed

lemma send_chunk:
  assumes rd: "iwab_ready iw" and c: "chunk_ok p c" "0 < ch_length c"
  obtains b iw' out where "chunk_tail p c = Some b"
    "iwab_send writev iw (Some b) (ch_length c) ts r = Some (iw', out, writev (iw_fd iw) out)"
    "iwab_ready iw'" "hd_iw_h (iw_wi_h iw') = stamped (hd_iw_h (iw_wi_h iw)) (ch_length c) ts r"
    "iw_addr_filter iw' = iw_addr_filter iw" "iw_fd iw' = iw_fd iw"
    "drop 18 out = headers_enc (iw_wi_h iw') @ chunk_bytes p c" "length out = 82 + ch_length c"
    "sent_head out = hd_iw_h (iw_wi_h iw')" "sent_payload out = chunk_bytes p c"
proof -
  obtain n where n: "ch_memblock c = Some n" "ch_index c + ch_length c \<le> length (mp_data p n)"
    using c by (auto simp: chunk_ok_def split: option.splits)
  let ?b = "drop (ch_index c) (mp_data p n)"
  have t: "chunk_tail p c = Some ?b" "ch_length c \<le> length ?b" "take (ch_length c) ?b = chunk_bytes p c"
    using n by (simp_all add: chunk_tail_def chunk_bytes_def)
  from iwab_send_spec [OF rd t(2), of writev ts r] obtain iw' where s:
    "iwab_send writev iw (Some ?b) (ch_length c) ts r =
      Some (iw', take 18 (send_area iw') @ headers_enc (iw_wi_h iw') @ take (ch_length c) ?b,
        writev (iw_fd iw) (take 18 (send_area iw') @ headers_enc (iw_wi_h iw') @ take (ch_length c) ?b))"
    "iwab_ready iw'" "iw_fd iw' = iw_fd iw" "iw_addr_filter iw' = iw_addr_filter iw"
    "iw_wi_h iw' = (iw_wi_h iw)\<lparr>hd_iw_h := stamped (hd_iw_h (iw_wi_h iw)) (ch_length c) ts r\<rparr>"
    "length (take 18 (send_area iw')) = 18" by blast
  let ?out = "take 18 (send_area iw') @ headers_enc (iw_wi_h iw') @ take (ch_length c) ?b"
  have h: "headers_sized (iw_wi_h iw')" "iwab_head_sized (hd_iw_h (iw_wi_h iw'))"
    using s(2) by (simp_all add: iwab_ready_def headers_sized_def)
  have l: "length (headers_enc (iw_wi_h iw')) = 64" using h(1) by (rule headers.length_enc)
  have d: "drop 18 ?out = headers_enc (iw_wi_h iw') @ chunk_bytes p c" unfolding t(3) using s(6) by simp
  have dd: "drop 58 xs = drop 40 (drop 18 xs)" "drop 82 xs = drop 64 (drop 18 xs)" for xs :: bytes by simp_all
  have "take 24 (drop 58 ?out) = take 24 (drop 40 (headers_enc (iw_wi_h iw') @ chunk_bytes p c))"
    by (simp only: dd(1) d)
  also have "\<dots> = iwab_head_enc (hd_iw_h (iw_wi_h iw'))"
    by (rule headers_enc_fields(5) [OF h(1)])
  finally have sh: "sent_head ?out = hd_iw_h (iw_wi_h iw')" unfolding sent_head_def using iwab_head.dec_enc [OF h(2)] by simp
  have "sent_payload ?out = drop 64 (headers_enc (iw_wi_h iw') @ chunk_bytes p c)"
    by (simp only: sent_payload_def dd(2) d)
  then have sp: "sent_payload ?out = chunk_bytes p c" using l by simp
  have lo: "length ?out = 82 + ch_length c" using s(6) l t(2) by simp
  have "hd_iw_h (iw_wi_h iw') = stamped (hd_iw_h (iw_wi_h iw)) (ch_length c) ts r" using s(5) by simp
  then show thesis by (rule that [OF t(1) s(1,2) _ s(4,3) d lo sh sp])
qed

text \<open>The part of the state a tick leaves alone.\<close>

definition sink_frame :: "sink_userdata \<Rightarrow> pa_sink_state_t \<times> nat \<times> nat \<times> pa_sample_spec \<times> thread_state \<times> 64 word" where
  "sink_frame u = (us_state u, us_max_request u, us_max_rewind u, us_sample_spec u, us_thread u, us_block_usec u)"

lemma send_next_spec:
  assumes rd: "iwab_ready (us_istream u)" and v: "pa_sample_spec_valid (us_sample_spec u)"
    and r: "render (us_max_request u) (us_pool u) = (p, c)" and c: "chunk_ok p c" "0 < ch_length c" "ch_length c < 2 ^ 32"
  shows "\<exists>u' out ok. sink_send_next render writev u = Some (u', out, ok) \<and> sink_frame u' = sink_frame u \<and>
    iwab_ready (us_istream u') \<and> us_pool u' = p \<and> us_chunk u' = c \<and>
    iw_addr_filter (us_istream u') = iw_addr_filter (us_istream u) \<and>
    hd_iw_h (iw_wi_h (us_istream u')) =
      stamped (hd_iw_h (iw_wi_h (us_istream u))) (ch_length c) (us_stream_ts_abs u) 0 \<and>
    drop 18 out = headers_enc (iw_wi_h (us_istream u')) @ chunk_bytes p c \<and> length out = 82 + ch_length c \<and>
    sent_head out = hd_iw_h (iw_wi_h (us_istream u')) \<and> sent_payload out = chunk_bytes p c \<and>
    ok = (0 \<le> writev (iw_fd (us_istream u)) out) \<and>
    (ok \<longrightarrow> us_retries u' = 1 \<and>
      us_stream_ts_abs u' = us_stream_ts_abs u + of_nat (dur_usec (us_sample_spec u) (ch_length c)) \<and>
      us_stream_resend_abs u' = us_stream_ts_abs u + of_nat (dur_usec (us_sample_spec u) (ch_length c)) div 2 \<and>
      us_timer u' = Timer_at (us_stream_resend_abs u'))"
proof (rule send_chunk [OF rd c(1,2), of writev "us_stream_ts_abs u" 0])
  fix b iw' out
  assume s: "chunk_tail p c = Some b"
    "iwab_send writev (us_istream u) (Some b) (ch_length c) (us_stream_ts_abs u) 0 =
      Some (iw', out, writev (iw_fd (us_istream u)) out)"
    "iwab_ready iw'" "hd_iw_h (iw_wi_h iw') =
      stamped (hd_iw_h (iw_wi_h (us_istream u))) (ch_length c) (us_stream_ts_abs u) 0"
    "iw_addr_filter iw' = iw_addr_filter (us_istream u)"
    "drop 18 out = headers_enc (iw_wi_h iw') @ chunk_bytes p c" "length out = 82 + ch_length c"
    "sent_head out = hd_iw_h (iw_wi_h iw')" "sent_payload out = chunk_bytes p c"
  show ?thesis
    using s c r bytes_to_usec_dur [OF v c(3)]
    by (cases "writev (iw_fd (us_istream u)) out < 0")
      (simp_all add: sink_send_next_def Let_def sink_frame_def)
qed

lemma resend_spec:
  assumes rd: "iwab_ready (us_istream u)" and c: "chunk_ok (us_pool u) (us_chunk u)" "0 < ch_length (us_chunk u)"
  shows "\<exists>u' out ok. sink_resend writev u = Some (u', out, ok) \<and> sink_frame u' = sink_frame u \<and>
    iwab_ready (us_istream u') \<and> us_chunk u' = us_chunk u \<and> us_stream_ts_abs u' = us_stream_ts_abs u \<and>
    us_stream_resend_abs u' = us_stream_resend_abs u \<and>
    iw_addr_filter (us_istream u') = iw_addr_filter (us_istream u) \<and>
    hd_iw_h (iw_wi_h (us_istream u')) = stamped (hd_iw_h (iw_wi_h (us_istream u))) (ch_length (us_chunk u))
      (iwh_timestamp (hd_iw_h (iw_wi_h (us_istream u)))) (of_int (us_retries u)) \<and>
    drop 18 out = headers_enc (iw_wi_h (us_istream u')) @ chunk_bytes (us_pool u) (us_chunk u) \<and>
    length out = 82 + ch_length (us_chunk u) \<and>
    sent_head out = hd_iw_h (iw_wi_h (us_istream u')) \<and>
    sent_payload out = chunk_bytes (us_pool u) (us_chunk u) \<and>
    ok = (0 \<le> writev (iw_fd (us_istream u)) out) \<and>
    (if ok then us_retries u' = us_retries u + 1 \<and> us_timer u' = Timer_at (us_stream_ts_abs u) \<and>
        us_pool u' = unref_chunk (us_pool u) (us_chunk u)
     else us_retries u' = us_retries u \<and> us_pool u' = us_pool u)"
proof (rule send_chunk [OF rd c, of writev "iwh_timestamp (hd_iw_h (iw_wi_h (us_istream u)))" "of_int (us_retries u)"])
  fix b iw' out
  let ?h = "hd_iw_h (iw_wi_h (us_istream u))"
  assume s: "chunk_tail (us_pool u) (us_chunk u) = Some b"
    "iwab_send writev (us_istream u) (Some b) (ch_length (us_chunk u)) (iwh_timestamp ?h) (of_int (us_retries u)) =
      Some (iw', out, writev (iw_fd (us_istream u)) out)"
    "iwab_ready iw'" "hd_iw_h (iw_wi_h iw') = stamped ?h (ch_length (us_chunk u)) (iwh_timestamp ?h) (of_int (us_retries u))"
    "iw_addr_filter iw' = iw_addr_filter (us_istream u)"
    "drop 18 out = headers_enc (iw_wi_h iw') @ chunk_bytes (us_pool u) (us_chunk u)"
    "length out = 82 + ch_length (us_chunk u)"
    "sent_head out = hd_iw_h (iw_wi_h iw')" "sent_payload out = chunk_bytes (us_pool u) (us_chunk u)"
  show ?thesis
    using s by (cases "writev (iw_fd (us_istream u)) out < 0") (simp_all add: sink_resend_def Let_def sink_frame_def)
qed

subsection \<open>Runs of the module\<close>

text \<open>
  What the module relies on of \<open>pa_sink_render\<close>: it returns a non-empty chunk of a block of the
  pool, no longer than requested, and touches no block that is in use.
\<close>

definition render_ok :: "render_fun \<Rightarrow> bool" where
  "render_ok render \<longleftrightarrow> (\<forall>n p p' c. render n p = (p', c) \<longrightarrow>
     pool_grows p p' \<and> chunk_ok p' c \<and> 0 < ch_length c \<and> (0 < n \<longrightarrow> ch_length c \<le> n))"

text \<open>
  A latency the core may report: none, or one of at least a frame within the range \<open>pa__init\<close> set.
\<close>

definition latency_ok :: "pa_sample_spec \<Rightarrow> 64 word \<Rightarrow> bool" where
  "latency_ok ss lat \<longleftrightarrow> lat = - 1 \<or>
     1000000 \<le> unat lat * ss_rate ss \<and>
     unat lat \<le> dur_usec ss (MAX_FRAME_SIZE_OUT div frame_bytes ss * frame_bytes ss)"

text \<open>
  The clock \<open>t\<close> never goes backwards; \<open>tr\<close> are the packets handed to \<open>writev\<close> so far.
\<close>

inductive sink_run :: "render_fun \<Rightarrow> 64 word \<Rightarrow> bytes list \<Rightarrow> sink_userdata \<Rightarrow> bool" for render where
  start: "iwab_sink_init env = Some (Init_done u) \<Longrightarrow> sink_run render t [] (sink_thread_start t u)"
| round: "sink_run render t tr u \<Longrightarrow> us_thread u = Thread_running \<Longrightarrow> t \<le> now \<Longrightarrow>
    sink_round render writev now ret u = Some (u', outs) \<Longrightarrow> sink_run render now (tr @ outs) u'"
| set_state: "sink_run render t tr u \<Longrightarrow> t \<le> now \<Longrightarrow>
    sink_run render now tr ((fst (sink_set_state_in_io_thread_cb now st u))\<lparr>us_state := st\<rparr>)"
| latency: "sink_run render t tr u \<Longrightarrow> latency_ok (us_sample_spec u) lat \<Longrightarrow>
    sink_update_requested_latency_cb lat u = Some u' \<Longrightarrow> sink_run render t tr u'"
| rewind: "sink_run render t tr u \<Longrightarrow> sink_run render t tr (u\<lparr>us_rewind_requested := True\<rparr>)"
| environment: "sink_run render t tr u \<Longrightarrow> pool_grows (us_pool u) p \<Longrightarrow> sink_run render t tr (u\<lparr>us_pool := p\<rparr>)"

text \<open>
  How the packets of a run follow each other: a fresh one takes the next sequence number, a
  repeated one is the copy of the fresh packet just before it.
\<close>

definition follows :: "bytes \<Rightarrow> bytes \<Rightarrow> bool" where
  "follows a b \<longleftrightarrow>
     (if iwh_retry (sent_head b) = 0 then iwh_seq (sent_head b) = iwh_seq (sent_head a) + 1
      else iwh_retry (sent_head b) = 1 \<and> iwh_retry (sent_head a) = 0 \<and>
        iwh_seq (sent_head b) = iwh_seq (sent_head a) \<and>
        iwh_timestamp (sent_head b) = iwh_timestamp (sent_head a) \<and> sent_payload b = sent_payload a)"

definition well_sent :: "bytes list \<Rightarrow> bool" where
  "well_sent tr \<longleftrightarrow> successively follows tr \<and>
     (tr \<noteq> [] \<longrightarrow> iwh_seq (sent_head (hd tr)) = 1 \<and> iwh_retry (sent_head (hd tr)) = 0)"

abbreviation tx_head :: "sink_userdata \<Rightarrow> iwab_head" where
  "tx_head u \<equiv> hd_iw_h (iw_wi_h (us_istream u))"

definition thread_inv :: "64 word \<Rightarrow> bytes list \<Rightarrow> sink_userdata \<Rightarrow> bool" where
  "thread_inv t tr u \<longleftrightarrow>
     (us_retries u = 0 \<and> tr = [] \<and> us_stream_ts_abs u \<le> t \<and> iwh_seq (tx_head u) = 0 \<or>
      us_retries u \<in> {1, 2} \<and> tr \<noteq> [] \<and> sent_head (last tr) = tx_head u \<and>
      iwh_retry (tx_head u) = of_int (us_retries u - 1)) \<and>
     (us_retries u = 1 \<longrightarrow> chunk_ok (us_pool u) (us_chunk u) \<and> 0 < ch_length (us_chunk u) \<and>
        ch_length (us_chunk u) \<le> MAX_FRAME_SIZE_OUT \<and>
        sent_payload (last tr) = chunk_bytes (us_pool u) (us_chunk u))"

definition sink_inv :: "64 word \<Rightarrow> bytes list \<Rightarrow> sink_userdata \<Rightarrow> bool" where
  "sink_inv t tr u \<longleftrightarrow> iwab_ready (us_istream u) \<and> pa_sample_spec_valid (us_sample_spec u) \<and>
     0 < us_max_request u \<and> us_max_request u \<le> MAX_FRAME_SIZE_OUT \<and> well_sent tr \<and>
     (\<forall>out \<in> set tr. length out \<le> 82 + MAX_FRAME_SIZE_OUT) \<and>
     (us_thread u = Thread_running \<longrightarrow> thread_inv t tr u)"

lemma pool_grows_chunk:
  assumes "pool_grows p p'" "chunk_ok p c"
  shows "chunk_ok p' c" "chunk_bytes p' c = chunk_bytes p c"
  using assms by (auto simp: pool_grows_def chunk_ok_def chunk_bytes_def split: option.splits)

lemma sink_frameD:
  assumes "sink_frame u' = sink_frame u"
  shows "us_state u' = us_state u" "us_max_request u' = us_max_request u" "us_sample_spec u' = us_sample_spec u"
    "us_thread u' = us_thread u"
  using assms by (simp_all add: sink_frame_def)

lemma tick_inv:
  assumes inv: "sink_inv t tr u" and run: "us_thread u = Thread_running" and t: "t \<le> now" and rok: "render_ok render"
  shows "\<exists>u' outs ok. sink_tick render writev now u = Some (u', outs, ok) \<and>
    (if ok then sink_inv now (tr @ outs) u' else sink_inv now (tr @ outs) (u'\<lparr>us_thread := Thread_failed\<rparr>)) \<and>
    us_thread u' = us_thread u"
proof -
  let ?u = "u\<lparr>us_rewind_requested := False\<rparr>"
  have i: "iwab_ready (us_istream ?u)" "pa_sample_spec_valid (us_sample_spec ?u)" "0 < us_max_request ?u"
    "us_max_request ?u \<le> MAX_FRAME_SIZE_OUT" "well_sent tr"
    "\<forall>out \<in> set tr. length out \<le> 82 + MAX_FRAME_SIZE_OUT" "thread_inv t tr u"
    using inv run by (simp_all add: sink_inv_def)
  have mono: "us_stream_ts_abs u \<le> t \<Longrightarrow> us_stream_ts_abs u \<le> now" using t by simp
  have kept: "sink_inv now tr (u\<lparr>us_rewind_requested := False, us_timer := x\<rparr>)" for x
    using i mono by (auto simp: sink_inv_def thread_inv_def)
  consider (closed) "\<not> PA_SINK_IS_OPENED (us_state u)"
    | (fresh) "PA_SINK_IS_OPENED (us_state u)" "us_stream_ts_abs u \<le> now"
    | (resend) "PA_SINK_IS_OPENED (us_state u)" "\<not> us_stream_ts_abs u \<le> now" "us_stream_resend_abs u \<le> now \<and> us_retries u \<le> 1"
    | (idle) "PA_SINK_IS_OPENED (us_state u)" "\<not> us_stream_ts_abs u \<le> now" "\<not> (us_stream_resend_abs u \<le> now \<and> us_retries u \<le> 1)"
    by blast
  then show ?thesis
  proof cases
    case closed
    then show ?thesis using kept by (auto simp: sink_tick_def Let_def)
  next
    case idle
    then show ?thesis using kept by (auto simp: sink_tick_def Let_def)
  next
    case fresh
    obtain p c where r: "render (us_max_request ?u) (us_pool ?u) = (p, c)" by fastforce
    then have c: "chunk_ok p c" "0 < ch_length c" "ch_length c \<le> us_max_request ?u"
      using rok i(3) by (auto simp: render_ok_def)
    then have cm: "ch_length c \<le> MAX_FRAME_SIZE_OUT" "ch_length c < 2 ^ 32" using i(4) by (simp_all add: MAX_FRAME_SIZE_OUT_def)
    from send_next_spec [where u = ?u and render = render and writev = writev, OF i(1,2) r c(1,2) cm(2)] obtain u' out ok where s:
      "sink_send_next render writev ?u = Some (u', out, ok)" "sink_frame u' = sink_frame ?u" "iwab_ready (us_istream u')"
      "us_pool u' = p" "us_chunk u' = c"
      "tx_head u' = stamped (tx_head ?u) (ch_length c) (us_stream_ts_abs ?u) 0"
      "length out = 82 + ch_length c" "sent_head out = tx_head u'" "sent_payload out = chunk_bytes p c"
      "ok \<longrightarrow> us_retries u' = 1" by blast
    have "follows (last tr) out" if "tr \<noteq> []"
      using that i(7) s(6,8) by (auto simp: thread_inv_def follows_def stamped_def)
    moreover have "iwh_seq (sent_head out) = 1" "iwh_retry (sent_head out) = 0" if "tr = []"
      using that i(7) s(6,8) by (auto simp: thread_inv_def stamped_def)
    ultimately have "well_sent (tr @ [out])"
      using i(5) by (cases "tr = []") (simp_all add: well_sent_def successively_append_iff)
    moreover have "thread_inv now (tr @ [out]) u'" if ok
      using that s c cm by (simp add: thread_inv_def stamped_def)
    ultimately have "if ok then sink_inv now (tr @ [out]) u' else sink_inv now (tr @ [out]) (u'\<lparr>us_thread := Thread_failed\<rparr>)"
      using s(3,7) i(2-4,6) sink_frameD [OF s(2)] cm by (simp add: sink_inv_def)
    then show ?thesis using fresh s(1) sink_frameD(4) [OF s(2)] by (simp add: sink_tick_def Let_def)
  next
    case resend
    have r: "us_retries u = 1" using i(7) resend mono by (auto simp: thread_inv_def)
    then have ti: "tr \<noteq> []" "sent_head (last tr) = tx_head u" "iwh_retry (tx_head u) = 0"
      "chunk_ok (us_pool ?u) (us_chunk ?u)" "0 < ch_length (us_chunk ?u)"
      "ch_length (us_chunk u) \<le> MAX_FRAME_SIZE_OUT" "sent_payload (last tr) = chunk_bytes (us_pool u) (us_chunk u)"
      using i(7) by (auto simp: thread_inv_def)
    from resend_spec [OF i(1) ti(4,5), of writev] obtain u' out ok where s:
      "sink_resend writev ?u = Some (u', out, ok)" "sink_frame u' = sink_frame ?u" "iwab_ready (us_istream u')"
      "tx_head u' = stamped (tx_head ?u) (ch_length (us_chunk ?u)) (iwh_timestamp (tx_head ?u)) (of_int (us_retries ?u))"
      "length out = 82 + ch_length (us_chunk ?u)" "sent_head out = tx_head u'"
      "sent_payload out = chunk_bytes (us_pool ?u) (us_chunk ?u)"
      "ok \<longrightarrow> us_retries u' = us_retries ?u + 1" by (metis (full_types))
    have "follows (last tr) out" using ti s(4,6,7) r by (simp add: follows_def stamped_def)
    then have "well_sent (tr @ [out])"
      using i(5) ti(1) by (simp add: well_sent_def successively_append_iff)
    moreover have "thread_inv now (tr @ [out]) u'" if ok
      using that s(4,6,8) r by (simp add: thread_inv_def stamped_def)
    ultimately have "if ok then sink_inv now (tr @ [out]) u' else sink_inv now (tr @ [out]) (u'\<lparr>us_thread := Thread_failed\<rparr>)"
      using s(3,5) i(2-4,6) sink_frameD [OF s(2)] ti(6) by (simp add: sink_inv_def)
    then show ?thesis using resend s(1) sink_frameD(4) [OF s(2)] by (simp add: sink_tick_def Let_def)
  qed
qed

lemma sink_inv_thread: "sink_inv t tr (u\<lparr>us_thread := Thread_failed\<rparr>) \<Longrightarrow> sink_inv t tr (u\<lparr>us_thread := Thread_finished\<rparr>)"
  "sink_inv t tr u \<Longrightarrow> sink_inv t tr (u\<lparr>us_thread := Thread_failed\<rparr>)"
  by (simp_all add: sink_inv_def)

lemma round_inv:
  assumes "sink_inv t tr u" "us_thread u = Thread_running" "t \<le> now" "render_ok render"
  shows "\<exists>u' outs. sink_round render writev now ret u = Some (u', outs) \<and> sink_inv now (tr @ outs) u'"
proof -
  from tick_inv [OF assms, of writev] obtain u' outs ok where s: "sink_tick render writev now u = Some (u', outs, ok)"
    "if ok then sink_inv now (tr @ outs) u' else sink_inv now (tr @ outs) (u'\<lparr>us_thread := Thread_failed\<rparr>)"
    "us_thread u' = us_thread u" by blast
  then show ?thesis using assms(2) by (cases ok) (simp_all add: sink_round_def sink_inv_def thread_inv_def)
qed

lemma dur_usec_bound:
  assumes v: "pa_sample_spec_valid ss" and t: "t \<le> dur_usec ss (k * frame_bytes ss)"
    and k: "k * frame_bytes ss < 2 ^ 32"
  shows "\<exists>n. pa_usec_to_bytes t ss = Some n \<and> n \<le> k * frame_bytes ss \<and>
    (1000000 \<le> t * ss_rate ss \<longrightarrow> 0 < n)"
proof -
  have f: "0 < frame_bytes ss" using frame_bytes_bounds(1) [OF v] .
  have "t * ss_rate ss \<le> k * 1000000 div ss_rate ss * ss_rate ss"
    using t f by (simp add: dur_usec_def)
  also have "\<dots> \<le> k * 1000000" by (rule div_times_less_eq_dividend)
  finally have b: "t * ss_rate ss \<le> k * 1000000" .
  have "k * 1 \<le> k * frame_bytes ss" using f by (intro mult_le_mono2) simp
  then have "k < 2 ^ 32" using k by linarith
  then have "k * 1000000 < 2 ^ 64" by simp
  then have "pa_usec_to_bytes t ss = Some (t * ss_rate ss div 1000000 * frame_bytes ss)"
    using b by (intro pa_usec_to_bytes_eq [OF v]) simp
  moreover have "t * ss_rate ss div 1000000 \<le> k" using div_le_mono [OF b, of 1000000] by simp
  moreover have "0 < t * ss_rate ss div 1000000" if "1000000 \<le> t * ss_rate ss" using that by (simp add: div_greater_zero_iff)
  ultimately show ?thesis using f by auto
qed

lemma frame_align_out:
  assumes v: "pa_sample_spec_valid ss"
  defines "k \<equiv> MAX_FRAME_SIZE_OUT div frame_bytes ss"
  shows "pa_frame_align MAX_FRAME_SIZE_OUT ss = Some (k * frame_bytes ss)" "0 < k * frame_bytes ss"
    "k * frame_bytes ss \<le> MAX_FRAME_SIZE_OUT" "k * frame_bytes ss < 2 ^ 32"
proof -
  have f: "0 < frame_bytes ss" "frame_bytes ss \<le> 128" using frame_bytes_bounds [OF v] by simp_all
  show "pa_frame_align MAX_FRAME_SIZE_OUT ss = Some (k * frame_bytes ss)"
    unfolding k_def using v by (rule pa_frame_align_eq)
  show l: "k * frame_bytes ss \<le> MAX_FRAME_SIZE_OUT" unfolding k_def by (rule div_times_less_eq_dividend)
  then show "k * frame_bytes ss < 2 ^ 32" by (simp add: MAX_FRAME_SIZE_OUT_def)
  have "0 < k" using f by (simp add: k_def MAX_FRAME_SIZE_OUT_def div_greater_zero_iff)
  then show "0 < k * frame_bytes ss" using f by simp
qed

lemma latency_inv:
  assumes inv: "sink_inv t tr u" and lat: "latency_ok (us_sample_spec u) lat"
    and u': "sink_update_requested_latency_cb lat u = Some u'"
  shows "sink_inv t tr u'"
proof -
  let ?ss = "us_sample_spec u"
  have v: "pa_sample_spec_valid ?ss" using inv by (simp add: sink_inv_def)
  note fa = frame_align_out [OF v]
  obtain n b where n: "u' = u\<lparr>us_block_usec := b, us_max_rewind := 0, us_max_request := n\<rparr>"
    "0 < n" "n \<le> MAX_FRAME_SIZE_OUT"
  proof (cases "lat = - 1")
    case True
    show thesis
      by (rule that [OF _ fa(2,3)])
        (use True u' fa(1) bytes_to_usec_dur [OF v fa(4)] in
          \<open>auto simp: sink_update_requested_latency_cb_def Let_def\<close>)
  next
    case False
    then obtain n where n: "pa_usec_to_bytes (unat lat) ?ss = Some n" "0 < n"
      "n \<le> MAX_FRAME_SIZE_OUT div frame_bytes ?ss * frame_bytes ?ss"
      using lat dur_usec_bound [OF v _ fa(4), of "unat lat"] by (auto simp: latency_ok_def)
    show thesis
      by (rule that [OF _ n(2) order_trans [OF n(3) fa(3)]])
        (use False u' n(1) in \<open>auto simp: sink_update_requested_latency_cb_def Let_def\<close>)
  qed
  show ?thesis using inv n(2,3) unfolding n(1) by (simp add: sink_inv_def thread_inv_def)
qed

lemma sink_init_ok:
  assumes i: "iwab_sink_init env = Some (Init_done u)"
  shows "us_istream u = iwab_setup\<lparr>iw_fd := iw_fd (us_istream u)\<rparr>" "pa_sample_spec_valid (us_sample_spec u)"
    "us_max_request u = MAX_FRAME_SIZE_OUT div frame_bytes (us_sample_spec u) * frame_bytes (us_sample_spec u)"
    "us_thread u = Thread_running" "us_state u = PA_SINK_INIT" "us_pool u = se_pool env"
    "se_sink env = Some (us_sample_spec u)"
proof -
  have nf: "sink_init_fail env x \<noteq> Some (Init_done u)" for x by (auto simp: sink_init_fail_def bind_eq_Some_conv)
  obtain iw r calls where o: "iwab_open (se_net env) (Some iwab_zero) (Some (se_iface env)) = (iw, r, calls)"
    by (metis prod_cases3)
  have c: "se_modargs_ok env" "se_spec_ok env" "se_thread_mq_ok env" "se_proplist_ok env" "r = 0" "se_sink env \<noteq> None"
    using i nf o by (auto simp: iwab_sink_init_def sink_userdata_zero_def Let_def split: if_splits option.splits)
  then obtain ss where ss: "se_sink env = Some ss" by blast
  have "\<exists>fd. iw = Some (iwab_setup\<lparr>iw_fd := fd\<rparr>)"
    using o c(5) by (auto simp: iwab_open_def Let_def split: if_splits prod.splits)
  then obtain fd where fd: "iw = Some (iwab_setup\<lparr>iw_fd := fd\<rparr>)" by blast
  have v: "pa_sample_spec_valid ss"
    using i o c ss fd by (auto simp: iwab_sink_init_def sink_userdata_zero_def Let_def bind_eq_Some_conv pa_bytes_to_usec_def)
  note fa = frame_align_out [OF v]
  have "se_thread_ok env"
    using i nf o c ss fd fa(1) bytes_to_usec_dur [OF v fa(4)]
    by (auto simp: iwab_sink_init_def sink_userdata_zero_def Let_def split: if_splits)
  then have u: "u = (sink_userdata_zero (se_pool env))\<lparr>us_istream := iwab_setup\<lparr>iw_fd := fd\<rparr>, us_sample_spec := ss,
      us_block_usec := of_nat (dur_usec ss (MAX_FRAME_SIZE_OUT div frame_bytes ss * frame_bytes ss)), us_max_rewind := 0,
      us_max_request := MAX_FRAME_SIZE_OUT div frame_bytes ss * frame_bytes ss, us_thread := Thread_running\<rparr>"
    using i o c(1-5) ss fd fa(1) bytes_to_usec_dur [OF v fa(4)]
    by (simp add: iwab_sink_init_def Let_def sink_userdata_zero_def)
  show "us_istream u = iwab_setup\<lparr>iw_fd := iw_fd (us_istream u)\<rparr>" "pa_sample_spec_valid (us_sample_spec u)"
    "us_max_request u = MAX_FRAME_SIZE_OUT div frame_bytes (us_sample_spec u) * frame_bytes (us_sample_spec u)"
    "us_thread u = Thread_running" "us_state u = PA_SINK_INIT" "us_pool u = se_pool env"
    "se_sink env = Some (us_sample_spec u)"
    using v ss by (simp_all add: u sink_userdata_zero_def)
qed

lemma run_inv:
  assumes "sink_run render t tr u" and rok: "render_ok render"
  shows "sink_inv t tr u"
  using assms(1)
proof induction
  case (start env u t)
  note o = sink_init_ok [OF start]
  have "iwh_seq (hd_iw_h (iw_wi_h (iwab_setup\<lparr>iw_fd := fd\<rparr>))) = 0" for fd by (simp add: iwab_setup_def)
  then have "iwab_ready (us_istream u)" "iwh_seq (tx_head u) = 0"
    using iwab_setup_ready [of "iw_fd (us_istream u)"] o(1) by metis+
  then show ?case using o frame_align_out [OF o(2)]
    by (simp add: sink_inv_def thread_inv_def sink_thread_start_def well_sent_def)
next
  case (round t tr u now writev ret u' outs)
  then show ?case using round_inv [OF round.IH round.hyps(2,3) rok, of writev ret] by auto
next
  case (set_state t tr u now st)
  then show ?case
    by (auto simp: sink_inv_def thread_inv_def sink_set_state_in_io_thread_cb_def)
next
  case (latency t tr u lat u')
  then show ?case using latency_inv by blast
next
  case rewind
  then show ?case by (simp add: sink_inv_def thread_inv_def)
next
  case (environment t tr u p)
  then show ?case using pool_grows_chunk [of "us_pool u" p "us_chunk u"]
    by (auto simp: sink_inv_def thread_inv_def)
qed

end
