(* ===== verification/Iwab_Input_Props.thy ===== *)
theory Iwab_Input_Props
  imports Iwab_Input
begin

text \<open>
  The properties of \<open>src/modules/iwab/iwab-input.c\<close>, with the datagrams and the module state their
  witnesses use.
\<close>

subsection \<open>Instances for the witnesses\<close>

definition demo_headers :: "32 word \<Rightarrow> 64 word \<Rightarrow> headers" where
  "demo_headers seq ts = (iw_wi_h iwab_setup)\<lparr>hd_iw_h := (hd_iw_h (iw_wi_h iwab_setup))\<lparr>iwh_seq := seq, iwh_timestamp := ts\<rparr>\<rparr>"

definition demo_packet :: "nat \<Rightarrow> 32 word \<Rightarrow> 64 word \<Rightarrow> bytes \<Rightarrow> bytes" where
  "demo_packet extra seq ts b =
     captured ([0, 0, 8 + of_nat extra, 0, 0, 0, 0, 0] @ replicate extra 0) (headers_enc (demo_headers seq ts) @ b) [0, 0, 0, 0]"

definition demo_input :: "32 word \<Rightarrow> 64 word \<Rightarrow> input_userdata" where
  "demo_input seq ts = \<lparr>ui_sink_input = True, ui_queue = loaded_queue pa_memchunk_reset demo_pool,
     ui_rtpoll_item = Some \<lparr>pf_fd = 3, pf_events = POLLIN, pf_revents = POLLIN\<rparr>, ui_seqnb = seq,
     ui_last_pb_ts = ts, ui_istream = iwab_setup\<lparr>iw_fd := 3\<rparr>, ui_ss = iwab_ss, ui_lost_pb = 0, ui_lost_prop = 0,
     ui_errno = EAGAIN, ui_unload_requested = False\<rparr>"

definition demo_env :: input_env where
  "demo_env = \<lparr>ie_modargs_ok = True, ie_iface = ''wlan0'',
     ie_net = \<lparr>ne_socket = 3, ne_ioctl = (\<lambda>_ _. (0, 5)), ne_bind = (\<lambda>_ _. 0), ne_setsockopt = (\<lambda>_ _. 0)\<rparr>,
     ie_close = (\<lambda>_. 0), ie_sink_found = True, ie_sink_input_created = True, ie_silence = pa_memchunk_reset,
     ie_pool = demo_pool, ie_garbage = demo_input 7 7\<rparr>"

lemma demo_input_ok: "input_ok (demo_input seq ts)" "fifo (ui_queue (demo_input seq ts)) = []"
  "polled PA_SINK_RUNNING (demo_input seq ts)" "mq_maxlength (ui_queue (demo_input seq ts)) = 16000"
  using loaded_queue_ok
  by (simp_all add: demo_input_def input_ok_def polled_def PA_SINK_IS_OPENED_def POLLIN_def POLLERR_def POLLNVAL_def
      POLLHUP_def POLLOUT_def)

lemma demo_packet_ok:
  assumes "extra \<le> 8" "b \<noteq> []" "length b \<le> 100" "iw_addr_filter (ui_istream u) = replicate 6 0"
  shows "receivable u (demo_packet extra seq ts b)" "payload (demo_packet extra seq ts b) = b"
    "iwh_seq (packet_head (demo_packet extra seq ts b)) = seq"
    "iwh_timestamp (packet_head (demo_packet extra seq ts b)) = ts"
    "rt_len (demo_packet extra seq ts b) = 8 + extra" "length (demo_packet extra seq ts b) \<le> 200"
proof -
  let ?rt = "[0, 0, 8 + of_nat extra, 0, 0, 0, 0, 0] @ replicate extra (0 :: byte)" and ?h = "demo_headers seq ts"
  have rt: "radiotap_ok ?rt" using assms(1) by (simp add: radiotap_ok_def le_dec_def unat_word_ariths unat_of_nat)
  have h: "headers_sized ?h" "d11_type (hd_dot11 ?h) = 2" "d11_subtype (hd_dot11 ?h) = 8"
    "d11_addr1 (hd_dot11 ?h) = replicate 6 0" "d11_addr2 (hd_dot11 ?h) = replicate 6 0"
    "d11_addr3 (hd_dot11 ?h) = replicate 6 0"
    by (simp_all add: demo_headers_def iwab_setup_def headers_sized_def
      ieee80211_head_sized_def l2_head_sized_def iwab_head_sized_def)
  have l: "length ?rt + 68 + length b \<le> MAX_FRAME_SIZE_IN" using assms(1,3) by (simp add: MAX_FRAME_SIZE_IN_def)
  note c = captured_receivable [OF h rt assms(2) _ l assms(4), of "[0, 0, 0, 0]", simplified, folded demo_packet_def]
  show "receivable u (demo_packet extra seq ts b)" "payload (demo_packet extra seq ts b) = b"
    "iwh_seq (packet_head (demo_packet extra seq ts b)) = seq"
    "iwh_timestamp (packet_head (demo_packet extra seq ts b)) = ts"
    "rt_len (demo_packet extra seq ts b) = 8 + extra" "length (demo_packet extra seq ts b) \<le> 200"
    using c assms by (simp_all add: demo_packet_def demo_headers_def)
qed

lemma accepted_packet:
  assumes ok: "input_ok u" and po: "polled state u" and r: "receivable u data"
    and al: "4 dvd rt_len data" "4 dvd length (payload data)"
    and io: "in_order u (packet_head data)"
    and g: "gap u (packet_head data) \<Longrightarrow> ui_last_pb_ts u < iwh_timestamp (packet_head data)"
  shows "\<exists>u'. rtpoll_work_cb state (Recv_data data # rs) u = Some (u', 1, rs) \<and> input_ok u' \<and>
    ui_seqnb u' = iwh_seq (packet_head data) \<and>
    ui_last_pb_ts u' = iwh_timestamp (packet_head data) + of_nat (chunk_usec (length (payload data))) \<and>
    iw_addr_filter (ui_istream u') = iw_addr_filter (ui_istream u) \<and>
    mq_maxlength (ui_queue u') = mq_maxlength (ui_queue u) \<and>
    (length (fifo (ui_queue u)) + gap_bytes u (packet_head data) + length (payload data)
        \<le> mq_maxlength (ui_queue u) \<longrightarrow>
     fifo (ui_queue u') = fifo (ui_queue u) @
       repeated (payload data) (gap_bytes u (packet_head data)) @ payload data)"
proof (rule rtpoll_packet [OF ok po r, of rs])
  fix v c
  assume v: "input_ok v" "fifo (ui_queue v) = fifo (ui_queue u)" "ui_seqnb v = ui_seqnb u"
    "ui_last_pb_ts v = ui_last_pb_ts u" "mq_maxlength (ui_queue v) = mq_maxlength (ui_queue u)"
    "iw_addr_filter (ui_istream v) = iw_addr_filter (ui_istream u)"
    "chunk_ok (mq_pool (ui_queue v)) c" "ch_length c = length (payload data)" "ch_index c = rt_len data + 64"
    "chunk_bytes (mq_pool (ui_queue v)) c = payload data"
    "rtpoll_work_cb state (Recv_data data # rs) u =
       (case input_accept v c (packet_head data) of None \<Rightarrow> None | Some (u', r) \<Rightarrow> Some (u', r, rs))"
  let ?h = "packet_head data"
  have e: "in_order v ?h = in_order u ?h" "gap v ?h = gap u ?h" "gap_bytes v ?h = gap_bytes u ?h"
    using v(3,4) by (simp_all add: in_order_def gap_def gap_bytes_def)
  have "pushable (ui_queue v) c"
    using v al receivable_lengths(5) [OF r] by (simp add: pushable_def input_ok_def)
  moreover have "ch_length c < 2 ^ 32" using v(8) receivable_lengths(2,4) [OF r] by simp
  ultimately show ?thesis
    using input_accept_total [OF v(1), of ?h c] io g v(2,4-6,8,10,11) e by (auto simp: length_fifo [symmetric] simp del: length_fifo)
qed

lemma rejected_packet:
  assumes ok: "input_ok u" and po: "polled state u" and r: "receivable u data"
    and no: "\<not> in_order u (packet_head data)" and al: "iwh_seq (packet_head data) = ui_seqnb u \<or> 4 dvd length (payload data)"
  shows "\<exists>u'. rtpoll_work_cb state (Recv_data data # rs) u = Some (u', 0, rs) \<and> input_ok u' \<and>
    fifo (ui_queue u') = fifo (ui_queue u) \<and> ui_seqnb u' = ui_seqnb u \<and> ui_last_pb_ts u' = ui_last_pb_ts u \<and>
    iw_addr_filter (ui_istream u') = iw_addr_filter (ui_istream u) \<and>
    mq_maxlength (ui_queue u') = mq_maxlength (ui_queue u)"
proof (rule rtpoll_packet [OF ok po r, of rs])
  fix v c
  assume v: "input_ok v" "fifo (ui_queue v) = fifo (ui_queue u)" "ui_seqnb v = ui_seqnb u"
    "ui_last_pb_ts v = ui_last_pb_ts u" "mq_maxlength (ui_queue v) = mq_maxlength (ui_queue u)"
    "iw_addr_filter (ui_istream v) = iw_addr_filter (ui_istream u)"
    "ch_length c = length (payload data)"
    "rtpoll_work_cb state (Recv_data data # rs) u =
       (case input_accept v c (packet_head data) of None \<Rightarrow> None | Some (u', r) \<Rightarrow> Some (u', r, rs))"
  let ?h = "packet_head data"
  have "pa_frame_aligned (ch_length c) (ui_ss v) = Some (4 dvd ch_length c)"
    using pa_frame_aligned_eq [OF iwab_ss_valid] iwab_ss_frame v(1) by (simp add: input_ok_def)
  then have "input_accept v c ?h = Some (ignore_packet v c)"
    using no al v(3,4,7) by (auto simp: input_accept_def in_order_def not_le)
  moreover obtain u' r where ig: "ignore_packet v c = (u', r)" by fastforce
  moreover have "ui_istream u' = ui_istream v \<and> mq_maxlength (ui_queue u') = mq_maxlength (ui_queue v)"
    using ig by (auto simp: ignore_packet_def ui_set_pool_def)
  ultimately show ?thesis using ignore_packet_spec [OF v(1) ig] v by simp
qed

subsection \<open>Properties\<close>


text \<open>
  C11: a run of the handler on any pending datagrams that does not abort keeps the state
  well-formed, only appends to the queue, never lowers the sequence number, and neither leaks
  nor over-releases a block: the references of others are as before and the receive block is
  referenced by the queue alone.
\<close>

theorem handler_keeps_state:
  assumes "input_ok u" "packets_fit rs" "rtpoll_work_cb state rs u = Some (u', r, rs')"
  shows "input_ok u' \<and> (\<exists>ext. fifo (ui_queue u') = fifo (ui_queue u) @ ext) \<and> ui_seqnb u \<le> ui_seqnb u' \<and>
     (\<forall>b < mp_next (mq_pool (ui_queue u)). foreign_refs (ui_queue u') b = foreign_refs (ui_queue u) b) \<and>
     (\<forall>b < mp_next (mq_pool (ui_queue u')). mp_next (mq_pool (ui_queue u)) \<le> b \<longrightarrow>
        foreign_refs (ui_queue u') b = 0)"
  using rtpoll_work_sound [OF assms] by (simp add: input_kept_def)

text \<open>
  C6: a packet of the stream with frame-aligned header and payload that is newer than the last
  one is accepted: when there is room, the queue grows by the payload repeated over the gap its
  timestamp shows, if sequence numbers were skipped, and then the payload; the position in the
  stream moves behind it.
\<close>

theorem packet_accepted:
  assumes "input_ok u" "polled state u" "receivable u data" "4 dvd rt_len data" "4 dvd length (payload data)"
    and "in_order u (packet_head data)"
    and "gap u (packet_head data) \<Longrightarrow> ui_last_pb_ts u < iwh_timestamp (packet_head data)"
    and "length (fifo (ui_queue u)) + gap_bytes u (packet_head data) + length (payload data)
      \<le> mq_maxlength (ui_queue u)"
  shows "\<exists>u'. rtpoll_work_cb state (Recv_data data # rs) u = Some (u', 1, rs) \<and> input_ok u' \<and>
    fifo (ui_queue u') = fifo (ui_queue u) @
      repeated (payload data) (gap_bytes u (packet_head data)) @ payload data \<and>
    ui_seqnb u' = iwh_seq (packet_head data) \<and>
    ui_last_pb_ts u' = iwh_timestamp (packet_head data) + of_nat (chunk_usec (length (payload data)))"
  using accepted_packet [OF assms(1-7), of rs] assms(8) by blast

text \<open>
  C24: a packet with the current sequence number, and an aligned one with an older sequence
  number or timestamp, is ignored: the handler returns 0 with queue and position unchanged.
\<close>

theorem packet_ignored:
  assumes "input_ok u" "polled state u" "receivable u data" "\<not> in_order u (packet_head data)"
    and "iwh_seq (packet_head data) = ui_seqnb u \<or> 4 dvd length (payload data)"
  shows "\<exists>u'. rtpoll_work_cb state (Recv_data data # rs) u = Some (u', 0, rs) \<and> input_ok u' \<and>
    fifo (ui_queue u') = fifo (ui_queue u) \<and> ui_seqnb u' = ui_seqnb u \<and> ui_last_pb_ts u' = ui_last_pb_ts u"
  using rejected_packet [OF assms, of rs] by blast

text \<open>
  C30: a packet whose payload is not a whole number of frames, unless it repeats the current
  sequence number, and a newer packet behind a radiotap header whose length is not a multiple
  of four make an assertion fail: a single received datagram ends the daemon.
\<close>

theorem misaligned_packet_aborts:
  assumes ok: "input_ok u" and po: "polled state u" and r: "receivable u data"
    and bad: "iwh_seq (packet_head data) \<noteq> ui_seqnb u \<and> \<not> 4 dvd length (payload data) \<or>
      in_order u (packet_head data) \<and> \<not> 4 dvd rt_len data"
  shows "rtpoll_work_cb state (Recv_data data # rs) u = None"
proof (rule rtpoll_packet [OF ok po r, of rs])
  fix v c
  assume v: "input_ok v" "ui_seqnb v = ui_seqnb u" "ui_last_pb_ts v = ui_last_pb_ts u"
    "chunk_ok (mq_pool (ui_queue v)) c" "ch_length c = length (payload data)" "ch_index c = rt_len data + 64"
    "rtpoll_work_cb state (Recv_data data # rs) u =
       (case input_accept v c (packet_head data) of None \<Rightarrow> None | Some (u', r) \<Rightarrow> Some (u', r, rs))"
  have "4 dvd rt_len data + 64 \<longleftrightarrow> 4 dvd rt_len data"
    by (rule dvd_add_left_iff) simp
  then have "input_accept v c (packet_head data) = None"
    using bad v receivable_lengths(5) [OF r] by (intro input_accept_aborts) (auto simp: input_ok_def in_order_def)
  then show ?thesis using v(7) by simp
qed

text \<open>
  C33: once the last accepted sequence number is the largest one, no packet is accepted any
  more: every run of the handler leaves the queue as it is.
\<close>

theorem sequence_end_stalls:
  assumes ok: "input_ok u" and po: "polled state u" and r: "receivable u data"
    and last: "ui_seqnb u = 0xFFFFFFFF" and al: "4 dvd length (payload data)"
  shows "\<exists>u'. rtpoll_work_cb state (Recv_data data # rs) u = Some (u', 0, rs) \<and>
    fifo (ui_queue u') = fifo (ui_queue u) \<and> ui_seqnb u' = 0xFFFFFFFF"
proof -
  have m: "(0xFFFFFFFF :: 32 word) = - 1" by simp
  have "x \<le> (0xFFFFFFFF :: 32 word)" for x unfolding m by (rule word_n1_ge)
  then have "\<not> in_order u (packet_head data)"
    using last by (auto simp: in_order_def dest: order_antisym)
  then show ?thesis using rejected_packet [OF ok po r, of rs] al last by auto
qed

text \<open>
  C25: the pop callback never aborts: while the queue prebuffers it returns -1 and takes
  nothing; otherwise it hands out a non-empty chunk that is the front of the pending bytes.
\<close>

theorem pop_takes_front:
  assumes "input_ok u"
  shows "\<exists>u' r c. sink_input_pop_cb u n = Some (u', r, c) \<and> input_ok u' \<and>
    (if pa_memblockq_prebuf_active (ui_queue u)
     then r = -1 \<and> c = None \<and> fifo (ui_queue u') = fifo (ui_queue u)
     else r = 0 \<and> (\<exists>ch. c = Some ch \<and> chunk_bytes (mq_pool (ui_queue u')) ch \<noteq> [] \<and>
       fifo (ui_queue u) = chunk_bytes (mq_pool (ui_queue u')) ch @ fifo (ui_queue u')))"
  using pop_cb_spec [OF assms, of n] by blast


lemma demo_filter: "iw_addr_filter (ui_istream (demo_input seq ts)) = replicate 6 0"
  by (simp add: demo_input_def iwab_setup_def)

lemma four_bytes: "4 dvd length [a, b, c, d]"
proof -
  have "length [a, b, c, d] = 4" by simp
  then show ?thesis by (simp only: dvd_refl)
qed

lemma demo_env_loads: "\<exists>u. iwab_input_init demo_env = Some (Some u, 0)"
  by (rule init_succeeds) (simp_all add: demo_env_def)


theorem handler_keeps_state_witness:
  "\<exists>u'. rtpoll_work_cb PA_SINK_RUNNING [Recv_data [1, 2, 3]] (demo_input 0 0) = Some (u', 0, []) \<and> input_ok u'"
proof -
  have "rtpoll_work_cb PA_SINK_RUNNING [Recv_data [1, 2, 3]] (demo_input 0 0) \<noteq> None"
    "\<And>u' r rs. rtpoll_work_cb PA_SINK_RUNNING [Recv_data [1, 2, 3]] (demo_input 0 0) = Some (u', r, rs) \<Longrightarrow>
       r = 0 \<and> rs = []"
    by (auto simp: rtpoll_work_cb_def demo_input_def PA_SINK_IS_OPENED_def POLLIN_def POLLERR_def POLLNVAL_def
        POLLHUP_def POLLOUT_def pa_memblock_new_def MAX_FRAME_SIZE_IN_def Let_def iwab_read_def dissect_def
        ignore_packet_def)
  then obtain u' where u': "rtpoll_work_cb PA_SINK_RUNNING [Recv_data [1, 2, 3]] (demo_input 0 0) = Some (u', 0, [])"
    by auto
  have "packets_fit [Recv_data [1, 2, 3]]" by (simp add: packets_fit_def MAX_FRAME_SIZE_IN_def)
  from handler_keeps_state [OF demo_input_ok(1) this u'] show ?thesis using u' by blast
qed

theorem packet_accepted_witness:
  "\<exists>u'. rtpoll_work_cb PA_SINK_RUNNING [Recv_data (demo_packet 0 5 1050 [1, 2, 3, 4])] (demo_input 3 1000) =
      Some (u', 1, []) \<and>
    fifo (ui_queue u') = repeated [1, 2, 3, 4] 8 @ [1, 2, 3, 4] \<and> ui_seqnb u' = 5"
proof -
  let ?u = "demo_input 3 1000" and ?d = "demo_packet 0 5 1050 [1, 2, 3, 4]"
  note d = demo_packet_ok [where u = "demo_input 3 1000" and extra = 0 and b = "[1, 2, 3, 4]" and seq = 5 and ts = 1050,
      OF _ _ _ demo_filter, simplified]
  have s: "ui_seqnb ?u = 3" "ui_last_pb_ts ?u = 1000" by (simp_all add: demo_input_def)
  have g: "in_order ?u (packet_head ?d)" "gap_bytes ?u (packet_head ?d) = 8"
    using d(3,4) s by (simp_all add: in_order_def gap_bytes_def gap_def wrap64_def)
  show ?thesis
    using packet_accepted [OF demo_input_ok(1,3) d(1), of "[]"] d demo_input_ok(2,4) g s
      four_bytes [of 1 2 3 "4 :: byte"] by (auto simp: gap_def)
qed

theorem packet_ignored_witness:
  "\<exists>u'. rtpoll_work_cb PA_SINK_RUNNING [Recv_data (demo_packet 0 3 1050 [1, 2, 3])] (demo_input 3 1000) =
      Some (u', 0, []) \<and> ui_seqnb u' = 3"
proof -
  let ?u = "demo_input 3 1000" and ?d = "demo_packet 0 3 1050 [1, 2, 3]"
  note d = demo_packet_ok [where u = "demo_input 3 1000" and extra = 0 and b = "[1, 2, 3]" and seq = 3 and ts = 1050,
      OF _ _ _ demo_filter, simplified]
  have s: "ui_seqnb ?u = 3" by (simp add: demo_input_def)
  show ?thesis
    using packet_ignored [OF demo_input_ok(1,3) d(1), of "[]"] d s by (auto simp: in_order_def)
qed

theorem misaligned_packet_aborts_witness:
  "rtpoll_work_cb PA_SINK_RUNNING [Recv_data (demo_packet 1 4 1050 [1, 2, 3, 4])] (demo_input 3 1000) = None"
proof -
  let ?u = "demo_input 3 1000" and ?d = "demo_packet 1 4 1050 [1, 2, 3, 4]"
  note d = demo_packet_ok [where u = "demo_input 3 1000" and extra = 1 and b = "[1, 2, 3, 4]" and seq = 4 and ts = 1050,
      OF _ _ _ demo_filter, simplified]
  have s: "ui_seqnb ?u = 3" "ui_last_pb_ts ?u = 1000" by (simp_all add: demo_input_def)
  have "in_order ?u (packet_head ?d)" "\<not> 4 dvd rt_len ?d" using d s by (simp_all add: in_order_def)
  then show ?thesis using misaligned_packet_aborts [OF demo_input_ok(1,3) d(1), of "[]"] by simp
qed

theorem sequence_end_stalls_witness:
  "\<exists>u'. rtpoll_work_cb PA_SINK_RUNNING [Recv_data (demo_packet 0 1 2000 [1, 2, 3, 4])] (demo_input 0xFFFFFFFF 1000) =
      Some (u', 0, []) \<and> ui_seqnb u' = 0xFFFFFFFF"
proof -
  let ?u = "demo_input 0xFFFFFFFF 1000"
  note d = demo_packet_ok [where u = "demo_input 0xFFFFFFFF 1000" and extra = 0 and b = "[1, 2, 3, 4]" and seq = 1 and ts = 2000,
      OF _ _ _ demo_filter, simplified]
  have "ui_seqnb ?u = 0xFFFFFFFF" by (simp add: demo_input_def)
  from sequence_end_stalls [OF demo_input_ok(1,3) d(1) this, of "[]"] show ?thesis
    using d(2) four_bytes [of 1 2 3 "4 :: byte"] by auto
qed

theorem pop_takes_front_witness:
  "\<exists>u'. sink_input_pop_cb (demo_input 0 0) 64 = Some (u', -1, None)"
proof -
  have "pa_memblockq_prebuf_active (ui_queue (demo_input 0 0))"
    by (rule empty_prebuf) (use demo_input_ok in \<open>simp_all add: input_ok_def\<close>)
  then show ?thesis using pop_takes_front [OF demo_input_ok(1), of 0 0 64] by auto
qed


end
