(* ===== verification/Iwab_Sink_Props.thy ===== *)
theory Iwab_Sink_Props
  imports Iwab_Sink Iwab_Input_Props
begin

text \<open>
  The properties of \<open>src/modules/iwab/iwab-sink.c\<close>, with the sink and the renderer their witnesses
  use.
\<close>

subsection \<open>Properties\<close>


text \<open>
  C7: over a whole run every packet is either fresh, with the next sequence number counted
  from 1, or the only repetition of the packet just before it, with its sequence number,
  timestamp and payload.
\<close>

theorem sink_sends_well:
  assumes "sink_run render t tr u" "render_ok render"
  shows "well_sent tr"
  using run_inv [OF assms] by (simp add: sink_inv_def)


text \<open>
  C27: when the stream time has come, a tick of the opened sink whose \<open>writev\<close> succeeds sends one
  fresh packet with the next sequence number, the stream time as its timestamp and the
  rendered bytes, and moves the stream time on by their duration and the timer to half of it.
\<close>

theorem sink_tick_sends:
  assumes o: "PA_SINK_IS_OPENED (us_state u)" "us_stream_ts_abs u \<le> now"
    and rd: "iwab_ready (us_istream u)" and v: "pa_sample_spec_valid (us_sample_spec u)"
    and r: "render (us_max_request u) (us_pool u) = (p, c)"
    and c: "chunk_ok p c" "0 < ch_length c" "ch_length c < 2 ^ 32" and w: "\<And>fd bs. 0 \<le> writev fd bs"
  shows "\<exists>u' out. sink_tick render writev now u = Some (u', [out], True) \<and>
    iwh_seq (sent_head out) = iwh_seq (tx_head u) + 1 \<and> iwh_retry (sent_head out) = 0 \<and>
    iwh_timestamp (sent_head out) = us_stream_ts_abs u \<and> sent_payload out = chunk_bytes p c \<and>
    us_stream_ts_abs u' = us_stream_ts_abs u + of_nat (dur_usec (us_sample_spec u) (ch_length c)) \<and>
    us_timer u' = Timer_at (us_stream_ts_abs u + of_nat (dur_usec (us_sample_spec u) (ch_length c)) div 2)"
proof -
  let ?u = "u\<lparr>us_rewind_requested := False\<rparr>"
  have a: "iwab_ready (us_istream ?u)" "pa_sample_spec_valid (us_sample_spec ?u)"
    "render (us_max_request ?u) (us_pool ?u) = (p, c)" using rd v r by simp_all
  from send_next_spec [where u = ?u and render = render and writev = writev, OF a c] obtain u' out ok where s:
    "sink_send_next render writev ?u = Some (u', out, ok)"
    "tx_head u' = stamped (tx_head u) (ch_length c) (us_stream_ts_abs u) 0" "sent_head out = tx_head u'"
    "sent_payload out = chunk_bytes p c" "ok = (0 \<le> writev (iw_fd (us_istream u)) out)"
    "ok \<longrightarrow> us_stream_ts_abs u' = us_stream_ts_abs u + of_nat (dur_usec (us_sample_spec u) (ch_length c)) \<and>
      us_timer u' = Timer_at (us_stream_ts_abs u + of_nat (dur_usec (us_sample_spec u) (ch_length c)) div 2)"
    by auto
  have ok using s(5) w by simp
  then show ?thesis using o s by (simp add: sink_tick_def Let_def stamped_def)
qed

text \<open>
  C34: a chunk whose repetition was not sent before the next stream time is lost to the module:
  the tick renders over it, and the reference it held stays with nobody to release it.
\<close>

theorem late_resend_leaks:
  assumes o: "PA_SINK_IS_OPENED (us_state u)" "us_stream_ts_abs u \<le> now"
    and rd: "iwab_ready (us_istream u)" and v: "pa_sample_spec_valid (us_sample_spec u)"
    and r: "render (us_max_request u) (us_pool u) = (p, c)"
    and c: "chunk_ok p c" "0 < ch_length c" "ch_length c < 2 ^ 32"
    and old: "ch_memblock (us_chunk u) = Some b" "us_retries u = 1" "ch_memblock c \<noteq> Some b" "mp_refs p b = mp_refs (us_pool u) b"
  shows "\<exists>u' outs ok. sink_tick render writev now u = Some (u', outs, ok) \<and>
    mp_refs (us_pool u') b = mp_refs (us_pool u) b \<and> ch_memblock (us_chunk u') \<noteq> Some b"
proof -
  let ?u = "u\<lparr>us_rewind_requested := False\<rparr>"
  have a: "iwab_ready (us_istream ?u)" "pa_sample_spec_valid (us_sample_spec ?u)"
    "render (us_max_request ?u) (us_pool ?u) = (p, c)" using rd v r by simp_all
  from send_next_spec [where u = ?u and render = render and writev = writev, OF a c] obtain u' out ok where
    "sink_send_next render writev ?u = Some (u', out, ok)" "us_pool u' = p" "us_chunk u' = c" by blast
  then show ?thesis using o old by (simp add: sink_tick_def Let_def)
qed

text \<open>
  As long as stream time and clock are less than half the range of the clock apart, the
  latency the sink reports is their signed difference, negative once the stream is late.
\<close>

lemma sink_latency_signed:
  assumes "- (2 ^ 63) \<le> uint (us_stream_ts_abs u) - uint now" "uint (us_stream_ts_abs u) - uint now < 2 ^ 63"
  shows "sink_get_latency now u = uint (us_stream_ts_abs u) - uint now"
proof -
  have eq: "us_stream_ts_abs u - now = word_of_int (uint (us_stream_ts_abs u) - uint now)"
    by (simp add: wi_hom_sub)
  have "sint (us_stream_ts_abs u - now) = signed_take_bit 63 (uint (us_stream_ts_abs u) - uint now)"
    unfolding eq by (subst sint_sbintrunc') simp
  also have "\<dots> = uint (us_stream_ts_abs u) - uint now"
    using assms by (intro signed_take_bit_int_eq_self) simp_all
  finally show ?thesis by (simp add: sink_get_latency_def)
qed

text \<open>
  C35: when loading fails before the interface is open, the clean-up closes descriptor 0, which
  the zeroed user data names, though the module never opened it.
\<close>

theorem sink_init_failure_closes_zero:
  assumes "se_modargs_ok env" "se_spec_ok env" "\<not> se_thread_mq_ok env \<or> \<not> se_proplist_ok env \<or> ne_socket (se_net env) < 0"
    "se_close env 0 = 0"
  shows "iwab_sink_init env = Some (Init_failed (Some 0))"
  using assms by (auto simp: iwab_sink_init_def sink_init_fail_def iwab_sink_done_def iwab_close_def Let_def
      sink_userdata_zero_def iwab_zero_def iwab_open_def)

subsection \<open>Witnesses\<close>

definition demo_render :: render_fun where
  "demo_render n p = (p\<lparr>mp_data := (mp_data p)(mp_next p := [1]), mp_refs := (mp_refs p)(mp_next p := 1),
     mp_next := Suc (mp_next p)\<rparr>, \<lparr>ch_memblock = Some (mp_next p), ch_index = 0, ch_length = 1\<rparr>)"

definition demo_sink_env :: sink_env where
  "demo_sink_env = \<lparr>se_modargs_ok = True, se_spec_ok = True, se_thread_mq_ok = True, se_proplist_ok = True,
     se_iface = ''mon0'',
     se_net = \<lparr>ne_socket = 3, ne_ioctl = (\<lambda>_ _. (0, 5)), ne_bind = (\<lambda>_ _. 0), ne_setsockopt = (\<lambda>_ _. 0)\<rparr>,
     se_close = (\<lambda>_. 0), se_sink = Some iwab_ss, se_thread_ok = True, se_pool = demo_pool\<rparr>"

definition demo_sink :: "64 word \<Rightarrow> sink_userdata" where
  "demo_sink ts = (sink_userdata_zero demo_pool)\<lparr>us_state := PA_SINK_RUNNING, us_istream := iwab_setup\<lparr>iw_fd := 3\<rparr>,
     us_sample_spec := iwab_ss, us_max_request := 1400, us_stream_ts_abs := ts, us_thread := Thread_running\<rparr>"

lemma demo_render_ok: "render_ok demo_render"
  by (auto simp: render_ok_def demo_render_def pool_grows_def chunk_ok_def)

lemma demo_sink_init: "\<exists>u. iwab_sink_init demo_sink_env = Some (Init_done u)"
  using frame_align_out(1) [OF iwab_ss_valid] bytes_to_usec_dur [OF iwab_ss_valid frame_align_out(4) [OF iwab_ss_valid]]
  by (simp add: iwab_sink_init_def demo_sink_env_def iwab_open_def Let_def)

lemma demo_sink_ok: "iwab_ready (us_istream (demo_sink ts))" "pa_sample_spec_valid (us_sample_spec (demo_sink ts))"
  "PA_SINK_IS_OPENED (us_state (demo_sink ts))" "us_stream_ts_abs (demo_sink ts) = ts" "us_pool (demo_sink ts) = demo_pool"
  "us_sample_spec (demo_sink ts) = iwab_ss" "us_max_request (demo_sink ts) = 1400" "iwh_seq (tx_head (demo_sink ts)) = 0"
  using iwab_setup_ready [of 3] iwab_ss_valid
  by (simp_all add: demo_sink_def sink_userdata_zero_def PA_SINK_IS_OPENED_def) (simp add: iwab_setup_def)

text \<open>A run that has sent a packet.\<close>

lemma demo_sink_run:
  "\<exists>out u. sink_run demo_render 7 [out] u \<and> us_thread u = Thread_running"
proof -
  obtain u where u: "iwab_sink_init demo_sink_env = Some (Init_done u)" using demo_sink_init by blast
  note o = sink_init_ok [OF u]
  let ?s = "(fst (sink_set_state_in_io_thread_cb 5 PA_SINK_RUNNING (sink_thread_start 3 u)))\<lparr>us_state := PA_SINK_RUNNING\<rparr>"
  have "sink_run demo_render 3 [] (sink_thread_start 3 u)" by (rule sink_run.start [OF u])
  then have r: "sink_run demo_render 5 [] ?s" by (rule sink_run.set_state) simp
  have s: "us_thread ?s = Thread_running" "us_stream_ts_abs ?s = 5" "us_state ?s = PA_SINK_RUNNING"
    "us_istream ?s = us_istream u" "us_pool ?s = us_pool u" "us_sample_spec ?s = us_sample_spec u"
    using o by (simp_all add: sink_set_state_in_io_thread_cb_def sink_thread_start_def)
  let ?r = "?s\<lparr>us_rewind_requested := False\<rparr>"
  have a: "iwab_ready (us_istream ?r)" "pa_sample_spec_valid (us_sample_spec ?r)"
    using iwab_setup_ready [of "iw_fd (us_istream u)"] o(1,2) s(4,6) by simp_all
  obtain p c where pc: "demo_render (us_max_request ?r) (us_pool ?r) = (p, c)" by fastforce
  then have c: "chunk_ok p c" "0 < ch_length c" "ch_length c < 2 ^ 32"
    by (auto simp: demo_render_def chunk_ok_def)
  from send_next_spec [where u = ?r and render = demo_render and writev = "\<lambda>_ _. 0", OF a pc c] obtain u' out where
    n: "sink_send_next demo_render (\<lambda>_ _. 0) ?r = Some (u', out, True)" "sink_frame u' = sink_frame ?r" by auto
  have "sink_round demo_render (\<lambda>_ _. 0) 7 1 ?s = Some (u'\<lparr>us_thread := Thread_running\<rparr>, [out])"
    using n(1) s(2,3) by (simp add: sink_round_def sink_tick_def Let_def PA_SINK_IS_OPENED_def)
  from sink_run.round [OF r s(1) _ this] have "sink_run demo_render 7 [out] (u'\<lparr>us_thread := Thread_running\<rparr>)" by simp
  then show ?thesis by (intro exI) auto
qed


theorem sink_sends_well_witness: "\<exists>out u. sink_run demo_render 7 [out] u \<and> well_sent [out]"
proof -
  obtain out u where u: "sink_run demo_render 7 [out] u" using demo_sink_run by blast
  show ?thesis using u sink_sends_well [OF u demo_render_ok] by blast
qed


theorem sink_tick_sends_witness:
  "\<exists>u' out. sink_tick demo_render (\<lambda>_ _. 0) 100 (demo_sink 50) = Some (u', [out], True) \<and>
     iwh_seq (sent_head out) = 1 \<and> iwh_timestamp (sent_head out) = 50"
proof -
  note d = demo_sink_ok [of 50]
  obtain p c where pc: "demo_render (us_max_request (demo_sink 50)) (us_pool (demo_sink 50)) = (p, c)" by fastforce
  then have c: "chunk_ok p c" "0 < ch_length c" "ch_length c < 2 ^ 32" by (auto simp: demo_render_def chunk_ok_def)
  have t: "us_stream_ts_abs (demo_sink 50) \<le> 100" using d(4) by simp
  from sink_tick_sends [where u = "demo_sink 50" and render = demo_render and writev = "\<lambda>_ _. 0",
      OF d(3) t d(1,2) pc c] show ?thesis using d(4,8) by auto
qed

theorem late_resend_leaks_witness:
  "\<exists>u' outs ok. sink_tick demo_render (\<lambda>_ _. 0) 100
       ((demo_sink 50)\<lparr>us_retries := 1, us_chunk := \<lparr>ch_memblock = Some 0, ch_index = 0, ch_length = 4\<rparr>\<rparr>) = Some (u', outs, ok) \<and>
     mp_refs (us_pool u') 0 = 1 \<and> ch_memblock (us_chunk u') \<noteq> Some 0"
proof -
  let ?u = "(demo_sink 50)\<lparr>us_retries := 1, us_chunk := \<lparr>ch_memblock = Some 0, ch_index = 0, ch_length = 4\<rparr>\<rparr>"
  note d = demo_sink_ok [of 50]
  obtain p c where pc: "demo_render (us_max_request ?u) (us_pool ?u) = (p, c)" by fastforce
  then have c: "chunk_ok p c" "0 < ch_length c" "ch_length c < 2 ^ 32" "ch_memblock c \<noteq> Some 0"
    "mp_refs p 0 = mp_refs (us_pool ?u) 0"
    using d(5) by (auto simp: demo_render_def chunk_ok_def demo_pool_def)
  have u: "PA_SINK_IS_OPENED (us_state ?u)" "us_stream_ts_abs ?u \<le> 100" "iwab_ready (us_istream ?u)"
    "pa_sample_spec_valid (us_sample_spec ?u)" "ch_memblock (us_chunk ?u) = Some 0" "us_retries ?u = 1" using d by simp_all
  have "mp_refs (us_pool ?u) 0 = 1" using d(5) by (simp add: demo_pool_def)
  with late_resend_leaks [where u = ?u and render = demo_render and writev = "\<lambda>_ _. 0",
      OF u(1-4) pc c(1-3) u(5,6) c(4,5)] show ?thesis by simp
qed

theorem sink_init_failure_closes_zero_witness:
  "iwab_sink_init (demo_sink_env\<lparr>se_thread_mq_ok := False\<rparr>) = Some (Init_failed (Some 0))"
  by (rule sink_init_failure_closes_zero) (simp_all add: demo_sink_env_def)

end
