(* ===== verification/Iwab_Link.thy ===== *)
theory Iwab_Link
  imports Iwab_Sink_Props
begin

text \<open>
  The two modules with the air between them: every chunk is sent twice, the channel puts a
  radiotap header in front of a frame and a checksum behind it, and may lose one of the copies.
\<close>

subsection \<open>The channel\<close>

definition on_air :: "bytes \<Rightarrow> bytes \<Rightarrow> bool" where
  "on_air out d \<longleftrightarrow> (\<exists>rt fcs. d = captured rt (drop 18 out) fcs \<and> radiotap_ok rt \<and> 4 dvd length rt \<and>
     length rt \<le> 132 \<and> length fcs = 4)"

definition survives :: "bytes \<Rightarrow> bytes \<Rightarrow> bytes list \<Rightarrow> bool" where
  "survives o1 o2 rx \<longleftrightarrow> (\<exists>d1 d2. on_air o1 d1 \<and> on_air o2 d2 \<and> rx \<in> {[d1], [d2], [d1, d2]})"

text \<open>
  The sender in step: a tick at the stream time, and one between the time of the repetition and
  the next stream time. \<open>bs\<close> are the payloads sent, \<open>ds\<close> the datagrams that arrived.
\<close>

inductive aired :: "render_fun \<Rightarrow> sink_userdata \<Rightarrow> bytes list \<Rightarrow> bytes list \<Rightarrow> sink_userdata \<Rightarrow> bool"
  for render u where
  silent: "aired render u [] [] u"
| chunk: "aired render u bs ds v \<Longrightarrow> us_stream_ts_abs v \<le> t1 \<Longrightarrow>
    sink_tick render writev t1 v = Some (v1, [o1], True) \<Longrightarrow>
    us_stream_resend_abs v1 \<le> t2 \<Longrightarrow> t2 < us_stream_ts_abs v1 \<Longrightarrow>
    sink_tick render writev t2 v1 = Some (v2, [o2], True) \<Longrightarrow> survives o1 o2 rx \<Longrightarrow>
    aired render u (bs @ [sent_payload o1]) (ds @ rx) v2"

text \<open>The receiver: the socket becomes readable for every datagram.\<close>

definition armed :: pollfd where
  "armed = \<lparr>pf_fd = 3, pf_events = POLLIN, pf_revents = POLLIN\<rparr>"

fun receive_all :: "input_userdata \<Rightarrow> bytes list \<Rightarrow> input_userdata option" where
  "receive_all w [] = Some w"
| "receive_all w (d # ds) =
     (case rtpoll_work_cb PA_SINK_RUNNING [Recv_data d] (w\<lparr>ui_rtpoll_item := Some armed\<rparr>) of
        None \<Rightarrow> None
      | Some (w', r, _) \<Rightarrow> receive_all w' ds)"

lemma receive_all_append:
  "receive_all w (ds @ es) = (case receive_all w ds of None \<Rightarrow> None | Some w' \<Rightarrow> receive_all w' es)"
  by (induction ds arbitrary: w) (simp_all split: option.split)

subsection \<open>Sender and receiver in step\<close>

definition sender_ok :: "bytes \<Rightarrow> sink_userdata \<Rightarrow> bool" where
  "sender_ok filt u \<longleftrightarrow> iwab_ready (us_istream u) \<and> iw_addr_filter (us_istream u) = filt \<and>
     us_sample_spec u = iwab_ss \<and> 0 < us_max_request u \<and> us_max_request u \<le> MAX_FRAME_SIZE_OUT \<and>
     4 dvd us_max_request u \<and> PA_SINK_IS_OPENED (us_state u)"

definition in_step :: "sink_userdata \<Rightarrow> input_userdata \<Rightarrow> bool" where
  "in_step u w \<longleftrightarrow> input_ok w \<and> ui_seqnb w = iwh_seq (tx_head u) \<and>
     (ui_last_pb_ts w = us_stream_ts_abs u \<or> ui_last_pb_ts w = 0)"

definition render_frames :: "render_fun \<Rightarrow> bool" where
  "render_frames render \<longleftrightarrow> render_ok render \<and> (\<forall>n p. 4 dvd n \<longrightarrow> 4 dvd ch_length (snd (render n p)))"

lemma dur_usec_iwab: "dur_usec iwab_ss len = chunk_usec len"
  by (simp add: dur_usec_def chunk_usec_def iwab_ss_frame) (simp add: iwab_ss_def)

text \<open>Both ticks of a chunk.\<close>

lemma ticks_spec:
  assumes s: "sender_ok filt v" and rf: "render_frames render"
    and t: "us_stream_ts_abs v \<le> t1" "sink_tick render writev t1 v = Some (v1, [o1], True)"
      "us_stream_resend_abs v1 \<le> t2" "t2 < us_stream_ts_abs v1" "sink_tick render writev t2 v1 = Some (v2, [o2], True)"
  defines "b \<equiv> sent_payload o1"
  shows "sender_ok filt v2" "b \<noteq> []" "4 dvd length b" "length b \<le> MAX_FRAME_SIZE_OUT"
    "us_stream_ts_abs v2 = us_stream_ts_abs v + of_nat (chunk_usec (length b))"
    "iwh_seq (tx_head v2) = iwh_seq (tx_head v) + 1"
    "\<exists>h. iwab_ready h \<and> iw_addr_filter h = filt \<and> drop 18 o1 = headers_enc (iw_wi_h h) @ b \<and>
       iwh_seq (hd_iw_h (iw_wi_h h)) = iwh_seq (tx_head v) + 1 \<and> iwh_timestamp (hd_iw_h (iw_wi_h h)) = us_stream_ts_abs v"
    "\<exists>h. iwab_ready h \<and> iw_addr_filter h = filt \<and> drop 18 o2 = headers_enc (iw_wi_h h) @ b \<and>
       iwh_seq (hd_iw_h (iw_wi_h h)) = iwh_seq (tx_head v) + 1 \<and> iwh_timestamp (hd_iw_h (iw_wi_h h)) = us_stream_ts_abs v"
proof -
  let ?v = "v\<lparr>us_rewind_requested := False\<rparr>" and ?v1 = "v1\<lparr>us_rewind_requested := False\<rparr>"
  have v: "iwab_ready (us_istream ?v)" "pa_sample_spec_valid (us_sample_spec ?v)" "iw_addr_filter (us_istream ?v) = filt"
    "us_sample_spec ?v = iwab_ss" "0 < us_max_request ?v" "us_max_request ?v \<le> MAX_FRAME_SIZE_OUT" "PA_SINK_IS_OPENED (us_state v)"
    "4 dvd us_max_request ?v"
    using s iwab_ss_valid by (simp_all add: sender_ok_def)
  obtain p c where r: "render (us_max_request ?v) (us_pool ?v) = (p, c)" by fastforce
  have "chunk_ok p c \<and> 0 < ch_length c \<and> ch_length c \<le> us_max_request ?v"
    using rf r v(5) unfolding render_frames_def render_ok_def by blast
  moreover have "4 dvd ch_length c" using rf r v(8) unfolding render_frames_def by (metis snd_conv)
  ultimately have c: "chunk_ok p c" "0 < ch_length c" "ch_length c < 2 ^ 32" "ch_length c \<le> MAX_FRAME_SIZE_OUT" "4 dvd ch_length c"
    using v(6) by (simp_all add: MAX_FRAME_SIZE_OUT_def)
  have "sink_send_next render writev ?v = Some (v1, o1, True)"
    using t(1,2) v(7) by (auto simp: sink_tick_def Let_def bind_eq_Some_conv)
  with send_next_spec [where u = ?v and render = render and writev = writev, OF v(1,2) r c(1-3)]
  have s1: "sink_frame v1 = sink_frame ?v" "iwab_ready (us_istream v1)" "us_pool v1 = p" "us_chunk v1 = c"
    "iw_addr_filter (us_istream v1) = filt" "tx_head v1 = stamped (tx_head ?v) (ch_length c) (us_stream_ts_abs ?v) 0"
    "drop 18 o1 = headers_enc (iw_wi_h (us_istream v1)) @ chunk_bytes p c" "sent_payload o1 = chunk_bytes p c"
    "us_retries v1 = 1" "us_stream_ts_abs v1 = us_stream_ts_abs ?v + of_nat (dur_usec (us_sample_spec ?v) (ch_length c))"
    using v(3) by auto
  note f1 = sink_frameD [OF s1(1)]
  have L: "length b = ch_length c" using length_chunk_bytes [OF c(1)] s1(8) by (simp add: b_def)
  have r1: "iwab_ready (us_istream ?v1)" "chunk_ok (us_pool ?v1) (us_chunk ?v1)" "0 < ch_length (us_chunk ?v1)"
    using s1 c by simp_all
  have "sink_resend writev ?v1 = Some (v2, o2, True)"
    using t(3,5) not_le [THEN iffD2, OF t(4)] v(7) f1(1) s1(9) by (auto simp: sink_tick_def Let_def bind_eq_Some_conv)
  with resend_spec [where u = ?v1 and writev = writev, OF r1]
  have s2: "sink_frame v2 = sink_frame ?v1" "iwab_ready (us_istream v2)" "us_stream_ts_abs v2 = us_stream_ts_abs v1"
    "iw_addr_filter (us_istream v2) = filt" "tx_head v2 = stamped (tx_head v1) (ch_length c) (iwh_timestamp (tx_head v1)) 1"
    "drop 18 o2 = headers_enc (iw_wi_h (us_istream v2)) @ chunk_bytes p c"
    using s1 by auto
  note f2 = sink_frameD [OF s2(1)]
  show "sender_ok filt v2" using s2 f1 f2 v by (simp add: sender_ok_def)
  show "b \<noteq> []" using L c(2) by auto
  show "4 dvd length b" "length b \<le> MAX_FRAME_SIZE_OUT" using L c by simp_all
  show "us_stream_ts_abs v2 = us_stream_ts_abs v + of_nat (chunk_usec (length b))"
    using s2(3) s1(10) v(4) L by (simp add: dur_usec_iwab)
  show "iwh_seq (tx_head v2) = iwh_seq (tx_head v) + 1" using s2(5) s1(6) by (simp add: stamped_def)
  show "\<exists>h. iwab_ready h \<and> iw_addr_filter h = filt \<and> drop 18 o1 = headers_enc (iw_wi_h h) @ b \<and>
       iwh_seq (hd_iw_h (iw_wi_h h)) = iwh_seq (tx_head v) + 1 \<and> iwh_timestamp (hd_iw_h (iw_wi_h h)) = us_stream_ts_abs v"
    using s1 by (intro exI [of _ "us_istream v1"]) (simp add: b_def stamped_def)
  show "\<exists>h. iwab_ready h \<and> iw_addr_filter h = filt \<and> drop 18 o2 = headers_enc (iw_wi_h h) @ b \<and>
       iwh_seq (hd_iw_h (iw_wi_h h)) = iwh_seq (tx_head v) + 1 \<and> iwh_timestamp (hd_iw_h (iw_wi_h h)) = us_stream_ts_abs v"
    using s2 s1 by (intro exI [of _ "us_istream v2"]) (simp add: b_def stamped_def)
qed

text \<open>A copy of the next packet, and a copy of the packet already received.\<close>

lemma copy_fields:
  assumes h: "iwab_ready h" "iw_addr_filter h = iw_addr_filter (ui_istream w)" "drop 18 out = headers_enc (iw_wi_h h) @ b"
    and d: "on_air out d" and b: "b \<noteq> []" "length b \<le> MAX_FRAME_SIZE_OUT"
  shows "receivable w d" "payload d = b" "packet_head d = hd_iw_h (iw_wi_h h)" "4 dvd rt_len d"
proof -
  obtain rt fcs where rt: "d = captured rt (headers_enc (iw_wi_h h) @ b) fcs" "radiotap_ok rt" "4 dvd length rt"
    "length rt \<le> 132" "length fcs = 4"
    using d h(3) by (auto simp: on_air_def)
  have h': "headers_sized (iw_wi_h h)" "d11_type (hd_dot11 (iw_wi_h h)) = 2" "d11_subtype (hd_dot11 (iw_wi_h h)) = 8"
    "d11_addr1 (hd_dot11 (iw_wi_h h)) = iw_addr_filter h" "d11_addr2 (hd_dot11 (iw_wi_h h)) = iw_addr_filter h"
    "d11_addr3 (hd_dot11 (iw_wi_h h)) = iw_addr_filter h"
    using h(1) by (simp_all add: iwab_ready_def)
  have l: "length rt + 68 + length b \<le> MAX_FRAME_SIZE_IN"
    using rt(4) b(2) by (simp add: MAX_FRAME_SIZE_IN_def MAX_FRAME_SIZE_OUT_def)
  note c = captured_receivable [OF h' rt(2) b(1) rt(5) l h(2) [symmetric]]
  show "receivable w d" "payload d = b" "packet_head d = hd_iw_h (iw_wi_h h)" "4 dvd rt_len d"
    using c rt(1,3) by simp_all
qed

lemma polled_armed: "polled PA_SINK_RUNNING (w\<lparr>ui_rtpoll_item := Some armed\<rparr>)"
  by (simp add: polled_def armed_def PA_SINK_IS_OPENED_def POLLIN_def POLLERR_def POLLNVAL_def POLLHUP_def POLLOUT_def)

lemma first_copy:
  assumes w: "input_ok w" "iw_addr_filter (ui_istream w) = filt" "ui_seqnb w = s" "unat s + 1 < 2 ^ 32"
      "ui_last_pb_ts w = ts \<or> ui_last_pb_ts w = 0"
    and h: "iwab_ready h" "iw_addr_filter h = filt" "drop 18 out = headers_enc (iw_wi_h h) @ b"
      "iwh_seq (hd_iw_h (iw_wi_h h)) = s + 1" "iwh_timestamp (hd_iw_h (iw_wi_h h)) = ts"
    and d: "on_air out d" and b: "b \<noteq> []" "length b \<le> MAX_FRAME_SIZE_OUT" "4 dvd length b"
    and room: "length (fifo (ui_queue w)) + length b \<le> mq_maxlength (ui_queue w)"
  shows "\<exists>w'. receive_all w [d] = Some w' \<and> input_ok w' \<and> fifo (ui_queue w') = fifo (ui_queue w) @ b \<and>
    ui_seqnb w' = s + 1 \<and> ui_last_pb_ts w' = ts + of_nat (chunk_usec (length b)) \<and>
    iw_addr_filter (ui_istream w') = filt \<and> mq_maxlength (ui_queue w') = mq_maxlength (ui_queue w)"
proof -
  let ?w = "w\<lparr>ui_rtpoll_item := Some armed\<rparr>"
  have f: "iw_addr_filter h = iw_addr_filter (ui_istream ?w)" using h(2) w(2) by simp
  note c = copy_fields [OF h(1) f h(3) d b(1,2)]
  have "unat (s + 1) = unat s + 1" using w(4) by (simp add: unat_word_ariths)
  then have "s < s + 1" by (simp add: word_less_nat_alt)
  then have io: "in_order ?w (packet_head d)" "\<not> gap ?w (packet_head d)"
    using w(3,5) c(3) h(4,5) by (auto simp: in_order_def gap_def)
  have ok: "input_ok ?w" using w(1) by simp
  have "4 dvd length (payload d)" using c(2) b(3) by simp
  from accepted_packet [OF ok polled_armed c(1,4) this io(1), of "[]"] io(2) room c w h(4,5)
  show ?thesis by (auto simp: gap_bytes_def repeated_def)
qed

lemma second_copy:
  assumes w: "input_ok w" "iw_addr_filter (ui_istream w) = filt" "ui_seqnb w = s + 1"
    and h: "iwab_ready h" "iw_addr_filter h = filt" "drop 18 out = headers_enc (iw_wi_h h) @ b"
      "iwh_seq (hd_iw_h (iw_wi_h h)) = s + 1"
    and d: "on_air out d" and b: "b \<noteq> []" "length b \<le> MAX_FRAME_SIZE_OUT"
  shows "\<exists>w'. receive_all w [d] = Some w' \<and> input_ok w' \<and> fifo (ui_queue w') = fifo (ui_queue w) \<and>
    ui_seqnb w' = s + 1 \<and> ui_last_pb_ts w' = ui_last_pb_ts w \<and>
    iw_addr_filter (ui_istream w') = filt \<and> mq_maxlength (ui_queue w') = mq_maxlength (ui_queue w)"
proof -
  let ?w = "w\<lparr>ui_rtpoll_item := Some armed\<rparr>"
  have f: "iw_addr_filter h = iw_addr_filter (ui_istream ?w)" using h(2) w(2) by simp
  note c = copy_fields [OF h(1) f h(3) d b]
  have no: "\<not> in_order ?w (packet_head d)" "iwh_seq (packet_head d) = ui_seqnb ?w"
    using w(3) c(3) h(4) by (simp_all add: in_order_def)
  have ok: "input_ok ?w" using w(1) by simp
  from rejected_packet [OF ok polled_armed c(1) no(1), of "[]"] no(2) w show ?thesis by auto
qed

lemma step_delivers:
  assumes s: "sender_ok filt v" and rf: "render_frames render"
    and t: "us_stream_ts_abs v \<le> t1" "sink_tick render writev t1 v = Some (v1, [o1], True)"
      "us_stream_resend_abs v1 \<le> t2" "t2 < us_stream_ts_abs v1" "sink_tick render writev t2 v1 = Some (v2, [o2], True)"
    and sv: "survives o1 o2 rx"
    and w: "in_step v w" "iw_addr_filter (ui_istream w) = filt" "unat (iwh_seq (tx_head v)) + 1 < 2 ^ 32"
    and room: "length (fifo (ui_queue w)) + length (sent_payload o1) \<le> mq_maxlength (ui_queue w)"
  shows "\<exists>w'. receive_all w rx = Some w' \<and> in_step v2 w' \<and> fifo (ui_queue w') = fifo (ui_queue w) @ sent_payload o1 \<and>
    iw_addr_filter (ui_istream w') = filt \<and> mq_maxlength (ui_queue w') = mq_maxlength (ui_queue w)"
proof -
  let ?s = "iwh_seq (tx_head v)" and ?b = "sent_payload o1"
  note k = ticks_spec [OF s rf t]
  obtain h1 where h1: "iwab_ready h1" "iw_addr_filter h1 = filt" "drop 18 o1 = headers_enc (iw_wi_h h1) @ ?b"
    "iwh_seq (hd_iw_h (iw_wi_h h1)) = ?s + 1" "iwh_timestamp (hd_iw_h (iw_wi_h h1)) = us_stream_ts_abs v"
    using k(7) by blast
  obtain h2 where h2: "iwab_ready h2" "iw_addr_filter h2 = filt" "drop 18 o2 = headers_enc (iw_wi_h h2) @ ?b"
    "iwh_seq (hd_iw_h (iw_wi_h h2)) = ?s + 1" "iwh_timestamp (hd_iw_h (iw_wi_h h2)) = us_stream_ts_abs v"
    using k(8) by blast
  have i: "input_ok w" "ui_seqnb w = ?s" "ui_last_pb_ts w = us_stream_ts_abs v \<or> ui_last_pb_ts w = 0"
    using w(1) by (simp_all add: in_step_def)
  obtain d1 d2 where d: "on_air o1 d1" "on_air o2 d2" "rx \<in> {[d1], [d2], [d1, d2]}" using sv by (auto simp: survives_def)
  from first_copy [OF i(1) w(2) i(2) w(3) i(3) h1 d(1) k(2,4,3) room] obtain w1 where w1:
    "receive_all w [d1] = Some w1" "input_ok w1" "fifo (ui_queue w1) = fifo (ui_queue w) @ ?b" "ui_seqnb w1 = ?s + 1"
    "ui_last_pb_ts w1 = us_stream_ts_abs v + of_nat (chunk_usec (length ?b))" "iw_addr_filter (ui_istream w1) = filt"
    "mq_maxlength (ui_queue w1) = mq_maxlength (ui_queue w)" by blast
  from first_copy [OF i(1) w(2) i(2) w(3) i(3) h2 d(2) k(2,4,3) room] obtain w2 where w2:
    "receive_all w [d2] = Some w2" "input_ok w2" "fifo (ui_queue w2) = fifo (ui_queue w) @ ?b" "ui_seqnb w2 = ?s + 1"
    "ui_last_pb_ts w2 = us_stream_ts_abs v + of_nat (chunk_usec (length ?b))" "iw_addr_filter (ui_istream w2) = filt"
    "mq_maxlength (ui_queue w2) = mq_maxlength (ui_queue w)" by blast
  from second_copy [OF w1(2,6,4) h2(1-4) d(2) k(2,4)] obtain w3 where w3:
    "receive_all w1 [d2] = Some w3" "input_ok w3" "fifo (ui_queue w3) = fifo (ui_queue w1)" "ui_seqnb w3 = ?s + 1"
    "ui_last_pb_ts w3 = ui_last_pb_ts w1" "iw_addr_filter (ui_istream w3) = filt"
    "mq_maxlength (ui_queue w3) = mq_maxlength (ui_queue w1)" by blast
  have "receive_all w [d1, d2] = Some w3" using receive_all_append [of w "[d1]" "[d2]"] w1(1) w3(1) by simp
  then obtain w' where "receive_all w rx = Some w'" "w' \<in> {w1, w2, w3}" using d(3) w1(1) w2(1) by blast
  then show ?thesis
    using w1 w2 w3 k(5,6) by (intro exI [of _ w']) (auto simp: in_step_def)
qed

lemma aired_delivers:
  assumes "aired render u bs ds v" and "sender_ok filt u" "render_frames render"
    and "in_step u w" "iw_addr_filter (ui_istream w) = filt" "unat (iwh_seq (tx_head u)) + length bs < 2 ^ 32"
    and "length (fifo (ui_queue w)) + length (concat bs) \<le> mq_maxlength (ui_queue w)"
  shows "sender_ok filt v \<and> unat (iwh_seq (tx_head v)) = unat (iwh_seq (tx_head u)) + length bs \<and>
    (\<exists>w'. receive_all w ds = Some w' \<and> in_step v w' \<and> fifo (ui_queue w') = fifo (ui_queue w) @ concat bs \<and>
      iw_addr_filter (ui_istream w') = filt \<and> mq_maxlength (ui_queue w') = mq_maxlength (ui_queue w))"
  using assms
proof induction
  case silent
  then show ?case by simp
next
  case (chunk bs ds v t1 writev v1 o1 t2 v2 o2 rx)
  let ?n = "unat (iwh_seq (tx_head u))"
  have "?n + length bs < 2 ^ 32" "length (fifo (ui_queue w)) + length (concat bs) \<le> mq_maxlength (ui_queue w)"
    using chunk.prems(5,6) by simp_all
  note ih = chunk.IH [OF chunk.prems(1-4) this]
  then obtain w' where w': "receive_all w ds = Some w'" "in_step v w'" "fifo (ui_queue w') = fifo (ui_queue w) @ concat bs"
    "iw_addr_filter (ui_istream w') = filt" "mq_maxlength (ui_queue w') = mq_maxlength (ui_queue w)" by blast
  have sv: "sender_ok filt v" and n: "unat (iwh_seq (tx_head v)) = ?n + length bs" using ih by blast+
  have n1: "unat (iwh_seq (tx_head v)) + 1 < 2 ^ 32" using n chunk.prems(5) by simp
  have "length (fifo (ui_queue w')) = length (fifo (ui_queue w)) + length (concat bs)" using w'(3) by (metis length_append)
  then have room: "length (fifo (ui_queue w')) + length (sent_payload o1) \<le> mq_maxlength (ui_queue w')"
    using w'(5) chunk.prems(6) by simp
  note k = ticks_spec [OF sv chunk.prems(2) chunk.hyps(2-6)]
  from step_delivers [OF sv chunk.prems(2) chunk.hyps(2-7) w'(2,4) n1 room] obtain w'' where
    "receive_all w' rx = Some w''" "in_step v2 w''" "fifo (ui_queue w'') = fifo (ui_queue w') @ sent_payload o1"
    "iw_addr_filter (ui_istream w'') = filt" "mq_maxlength (ui_queue w'') = mq_maxlength (ui_queue w')" by blast
  moreover have "unat (iwh_seq (tx_head v2)) = ?n + length (bs @ [sent_payload o1])"
    using k(6) n n1 by (simp add: unat_word_ariths)
  ultimately show ?case using k(1) w' by (simp add: receive_all_append)
qed

lemma started_sender:
  assumes i: "iwab_sink_init env = Some (Init_done u)" and ss: "se_sink env = Some iwab_ss"
    and v_def: "v = (sink_thread_start t u)\<lparr>us_state := PA_SINK_RUNNING\<rparr>"
  shows "sender_ok (replicate 6 0) v" "iwh_seq (tx_head v) = 0" "us_stream_ts_abs v = t" "us_sample_spec v = iwab_ss"
proof -
  note o = sink_init_ok [OF i]
  have st: "iw_addr_filter (iwab_setup\<lparr>iw_fd := fd\<rparr>) = replicate 6 0"
    "iwh_seq (hd_iw_h (iw_wi_h (iwab_setup\<lparr>iw_fd := fd\<rparr>))) = 0" for fd by (simp_all add: iwab_setup_def)
  have st0: "us_istream v = iwab_setup\<lparr>iw_fd := iw_fd (us_istream u)\<rparr>"
    using o(1) by (simp add: v_def sink_thread_start_def)
  have sp: "us_sample_spec u = iwab_ss" using o(7) ss by simp
  show "iwh_seq (tx_head v) = 0" using st0 st(2) by simp
  show "us_stream_ts_abs v = t" "us_sample_spec v = iwab_ss" using sp by (simp_all add: v_def sink_thread_start_def)
  show "sender_ok (replicate 6 0) v"
    using st0 st iwab_setup_ready frame_align_out [OF iwab_ss_valid] o(3) sp iwab_ss_frame
    by (simp add: sender_ok_def PA_SINK_IS_OPENED_def) (simp add: v_def sink_thread_start_def)
qed

subsection \<open>An instance for the witness\<close>

definition frame_render :: render_fun where
  "frame_render n p = (p\<lparr>mp_data := (mp_data p)(mp_next p := [1, 2, 3, 4]), mp_refs := (mp_refs p)(mp_next p := 1),
     mp_next := Suc (mp_next p)\<rparr>, \<lparr>ch_memblock = Some (mp_next p), ch_index = 0, ch_length = (if n < 4 \<and> 0 < n then n else 4)\<rparr>)"

lemma frame_render_ok: "render_frames frame_render"
proof -
  have "4 dvd n \<Longrightarrow> \<not> (n < 4 \<and> 0 < n)" for n :: nat by (auto dest: dvd_imp_le)
  then show ?thesis
    by (auto simp: render_frames_def render_ok_def frame_render_def pool_grows_def chunk_ok_def)
qed

text \<open>One chunk of which only the repetition arrives.\<close>

lemma frame_aired:
  assumes s: "sender_ok filt u" and t: "us_stream_ts_abs u = 50"
  shows "\<exists>v d. aired frame_render u [[1, 2, 3, 4]] [d] v"
proof -
  let ?u = "u\<lparr>us_rewind_requested := False\<rparr>"
  have v: "iwab_ready (us_istream ?u)" "pa_sample_spec_valid (us_sample_spec ?u)" "us_sample_spec u = iwab_ss"
    "PA_SINK_IS_OPENED (us_state u)" "\<not> us_max_request ?u < 4"
    using s iwab_ss_valid by (auto simp: sender_ok_def dest: dvd_imp_le)
  obtain p c where r: "frame_render (us_max_request ?u) (us_pool ?u) = (p, c)" by fastforce
  then have c: "chunk_ok p c" "0 < ch_length c" "ch_length c < 2 ^ 32" "ch_length c = 4" "chunk_bytes p c = [1, 2, 3, 4]"
    using v(5) by (auto simp: frame_render_def chunk_ok_def chunk_bytes_def)
  have du: "dur_usec iwab_ss 4 = 22" by (simp add: dur_usec_iwab chunk_usec_def)
  from send_next_spec [where u = ?u and render = frame_render and writev = "\<lambda>_ _. 0", OF v(1,2) r c(1-3)]
  obtain v1 o1 where s1: "sink_send_next frame_render (\<lambda>_ _. 0) ?u = Some (v1, o1, True)" "sink_frame v1 = sink_frame ?u"
    "iwab_ready (us_istream v1)" "us_pool v1 = p" "us_chunk v1 = c" "us_retries v1 = 1" "us_stream_ts_abs v1 = 72"
    "us_stream_resend_abs v1 = 61" "sent_payload o1 = [1, 2, 3, 4]"
    using v(3) c t du by auto
  have t1: "sink_tick frame_render (\<lambda>_ _. 0) 50 u = Some (v1, [o1], True)"
    using s1(1) v(4) t by (simp add: sink_tick_def Let_def)
  let ?v = "v1\<lparr>us_rewind_requested := False\<rparr>"
  have r1: "iwab_ready (us_istream ?v)" "chunk_ok (us_pool ?v) (us_chunk ?v)" "0 < ch_length (us_chunk ?v)" using s1 c by simp_all
  from resend_spec [where u = ?v and writev = "\<lambda>_ _. 0", OF r1] obtain v2 o2 where s2:
    "sink_resend (\<lambda>_ _. 0) ?v = Some (v2, o2, True)" by auto
  have t2: "sink_tick frame_render (\<lambda>_ _. 0) 65 v1 = Some (v2, [o2], True)"
    using s2 s1(6-8) v(4) sink_frameD(1) [OF s1(2)] by (simp add: sink_tick_def Let_def)
  let ?rt = "[0, 0, 8, 0, 0, 0, 0, 0] :: bytes"
  have len: "length ?rt = 8" by simp
  have rt: "radiotap_ok ?rt" by (simp add: radiotap_ok_def)
  have dv: "4 dvd length ?rt" unfolding len by simp
  have "on_air out d" if "d = captured ?rt (drop 18 out) [0, 0, 0, 0]" for out d
    unfolding on_air_def by (intro exI [of _ ?rt] exI [of _ "[0, 0, 0, 0]"] conjI that rt dv) simp_all
  then have sv: "survives o1 o2 [captured ?rt (drop 18 o2) [0, 0, 0, 0]]" by (auto simp: survives_def)
  have "us_stream_ts_abs u \<le> 50" "us_stream_resend_abs v1 \<le> 65" "65 < us_stream_ts_abs v1" using t s1(7,8) by simp_all
  from aired.chunk [OF aired.silent this(1) t1 this(2,3) t2 sv] s1(9) show ?thesis by auto
qed

end
