(* ===== verification/Hashmap.thy ===== *)
theory Hashmap
  imports Prelude
begin

text \<open>
  The hash map \<open>src/pulsecore/hashmap.c\<close>, with the hash and comparison of strings from
  \<open>src/pulsecore/idxset.c\<close>. The doubly linked lists of the code are lists: a bucket from its
  head, the iteration list from its head to its tail. An entry is known by its key, which
  occurs once.
\<close>

subsection \<open>Hashing and comparing strings\<close>

text \<open>A string is the list of its bytes before the terminating zero; \<open>char\<close> is signed.\<close>

definition pa_idxset_string_hash_func :: "bytes \<Rightarrow> 32 word" where
  "pa_idxset_string_hash_func p = foldl (\<lambda>hash c. 31 * hash + signed c) 0 p"

fun strcmp :: "bytes \<Rightarrow> bytes \<Rightarrow> int" where
  "strcmp [] [] = 0"
| "strcmp [] (b # bs) = - 1"
| "strcmp (a # as) [] = 1"
| "strcmp (a # as) (b # bs) = (if a < b then - 1 else if b < a then 1 else strcmp as bs)"

definition pa_idxset_string_compare_func :: "bytes \<Rightarrow> bytes \<Rightarrow> int" where
  "pa_idxset_string_compare_func a b = strcmp a b"

lemma strcmp_eq: "strcmp a b = 0 \<longleftrightarrow> a = b"
  by (induction a b rule: strcmp.induct) (auto simp: not_less)

subsection \<open>State\<close>

definition NBUCKETS :: nat where "NBUCKETS = 127"

record ('k, 'v) hashmap_entry =
  he_key :: 'k
  he_value :: 'v

record ('k, 'v) pa_hashmap =
  hm_hash_func :: "'k \<Rightarrow> 32 word"
  hm_compare_func :: "'k \<Rightarrow> 'k \<Rightarrow> int"
  hm_key_free :: bool
  hm_value_free :: bool
  hm_buckets :: "('k, 'v) hashmap_entry list list"
  hm_iterate :: "('k, 'v) hashmap_entry list"
  hm_n_entries :: nat

definition hash_of :: "('k, 'v) pa_hashmap \<Rightarrow> 'k \<Rightarrow> nat" where
  "hash_of h key = unat (hm_hash_func h key) mod NBUCKETS"

subsection \<open>Operations\<close>

definition pa_hashmap_new_full ::
    "('k \<Rightarrow> 32 word) \<Rightarrow> ('k \<Rightarrow> 'k \<Rightarrow> int) \<Rightarrow> bool \<Rightarrow> bool \<Rightarrow> ('k, 'v) pa_hashmap" where
  "pa_hashmap_new_full hash_func compare_func key_free value_free =
     \<lparr>hm_hash_func = hash_func, hm_compare_func = compare_func, hm_key_free = key_free,
      hm_value_free = value_free, hm_buckets = replicate NBUCKETS [], hm_iterate = [],
      hm_n_entries = 0\<rparr>"

definition pa_hashmap_new :: "('k \<Rightarrow> 32 word) \<Rightarrow> ('k \<Rightarrow> 'k \<Rightarrow> int) \<Rightarrow> ('k, 'v) pa_hashmap" where
  "pa_hashmap_new hash_func compare_func = pa_hashmap_new_full hash_func compare_func False False"

text \<open>Unlinking an entry; the second result is the key handed to \<open>key_free_func\<close>.\<close>

definition remove_entry ::
    "('k, 'v) pa_hashmap \<Rightarrow> ('k, 'v) hashmap_entry \<Rightarrow> (('k, 'v) pa_hashmap \<times> 'k list) option" where
  "remove_entry h e =
     (let i = hash_of h (he_key e);
          h = h\<lparr>hm_iterate := remove1 e (hm_iterate h),
                hm_buckets := (hm_buckets h)[i := remove1 e (hm_buckets h ! i)]\<rparr>;
          freed = (if hm_key_free h then [he_key e] else [])
      in do {
        pa_assert (hm_n_entries h \<ge> 1);
        Some (h\<lparr>hm_n_entries := hm_n_entries h - 1\<rparr>, freed) })"

definition hash_scan ::
    "('k, 'v) pa_hashmap \<Rightarrow> nat \<Rightarrow> 'k \<Rightarrow> ('k, 'v) hashmap_entry option option" where
  "hash_scan h hash key = do {
     pa_assert (hash < NBUCKETS);
     Some (find (\<lambda>e. hm_compare_func h (he_key e) key = 0) (hm_buckets h ! hash)) }"

definition pa_hashmap_put ::
    "('k, 'v) pa_hashmap \<Rightarrow> 'k \<Rightarrow> 'v \<Rightarrow> (('k, 'v) pa_hashmap \<times> int) option" where
  "pa_hashmap_put h key value = do {
     e \<leftarrow> hash_scan h (hash_of h key) key;
     (case e of
        Some _ \<Rightarrow> Some (h, - 1)
      | None \<Rightarrow>
          (let e = \<lparr>he_key = key, he_value = value\<rparr>;
               i = hash_of h key;
               h = h\<lparr>hm_buckets := (hm_buckets h)[i := e # hm_buckets h ! i],
                     hm_iterate := hm_iterate h @ [e],
                     hm_n_entries := (hm_n_entries h + 1) mod 2 ^ 32\<rparr>
           in do {
             pa_assert (hm_n_entries h \<ge> 1);
             Some (h, 0) })) }"

definition pa_hashmap_get :: "('k, 'v) pa_hashmap \<Rightarrow> 'k \<Rightarrow> 'v option option" where
  "pa_hashmap_get h key = do {
     e \<leftarrow> hash_scan h (hash_of h key) key;
     Some (map_option he_value e) }"

text \<open>The removed value, the map and the freed keys.\<close>

definition pa_hashmap_remove ::
    "('k, 'v) pa_hashmap \<Rightarrow> 'k \<Rightarrow> (('k, 'v) pa_hashmap \<times> 'v option \<times> 'k list) option" where
  "pa_hashmap_remove h key = do {
     e \<leftarrow> hash_scan h (hash_of h key) key;
     (case e of
        None \<Rightarrow> Some (h, None, [])
      | Some e \<Rightarrow> do {
          (h, freed) \<leftarrow> remove_entry h e;
          Some (h, Some (he_value e), freed) }) }"

text \<open>The fourth result lists the values handed to \<open>value_free_func\<close>.\<close>

definition pa_hashmap_remove_and_free ::
    "('k, 'v) pa_hashmap \<Rightarrow> 'k \<Rightarrow> (('k, 'v) pa_hashmap \<times> int \<times> 'k list \<times> 'v list) option" where
  "pa_hashmap_remove_and_free h key = do {
     (h, data, keys) \<leftarrow> pa_hashmap_remove h key;
     Some (case data of
             None \<Rightarrow> (h, - 1, keys, [])
           | Some v \<Rightarrow> (h, 0, keys, if hm_value_free h then [v] else [])) }"

lemma remove_entry_shorter:
  assumes "remove_entry h e = Some (h', ks)" "e \<in> set (hm_iterate h)"
  shows "length (hm_iterate h') < length (hm_iterate h)"
proof -
  have "hm_iterate h' = remove1 e (hm_iterate h)" using assms(1) by (auto simp: remove_entry_def Let_def)
  then show ?thesis using assms(2) length_pos_if_in_set [OF assms(2)] by (simp add: length_remove1)
qed

function pa_hashmap_remove_all ::
    "('k, 'v) pa_hashmap \<Rightarrow> (('k, 'v) pa_hashmap \<times> 'k list \<times> 'v list) option" where
  "pa_hashmap_remove_all h =
     (case hm_iterate h of
        [] \<Rightarrow> Some (h, [], [])
      | e # _ \<Rightarrow>
          (case remove_entry h e of
             None \<Rightarrow> None
           | Some (h', keys) \<Rightarrow>
               (case pa_hashmap_remove_all h' of
                  None \<Rightarrow> None
                | Some (h'', keys', values) \<Rightarrow>
                    Some (h'', keys @ keys', (if hm_value_free h then he_value e # values else values)))))"
  by pat_completeness auto

termination
  by (relation "measure (\<lambda>h. length (hm_iterate h))") (auto dest!: remove_entry_shorter)

declare pa_hashmap_remove_all.simps [simp del]

definition pa_hashmap_free :: "('k, 'v) pa_hashmap \<Rightarrow> ('k list \<times> 'v list) option" where
  "pa_hashmap_free h = do { (h, keys, values) \<leftarrow> pa_hashmap_remove_all h; Some (keys, values) }"

text \<open>
  The state of an iteration: NULL, an entry, or the end. Following the link of an entry that is
  no longer in the list is \<^term>\<open>None\<close>.
\<close>

datatype 'e iter_state = It_null | It_entry 'e | It_end

definition next_entry :: "'e list \<Rightarrow> 'e \<Rightarrow> 'e option option" where
  "next_entry xs e =
     (case dropWhile (\<lambda>x. x \<noteq> e) xs of
        [] \<Rightarrow> None
      | [_] \<Rightarrow> Some None
      | _ # y # _ \<Rightarrow> Some (Some y))"

definition iterate_step ::
    "('k, 'v) hashmap_entry list \<Rightarrow> ('k, 'v) hashmap_entry iter_state \<Rightarrow>
       (('k, 'v) hashmap_entry iter_state \<times> ('k \<times> 'v) option) option" where
  "iterate_step xs st =
     (case (st, xs) of
        (It_end, _) \<Rightarrow> Some (It_end, None)
      | (It_null, []) \<Rightarrow> Some (It_end, None)
      | _ \<Rightarrow>
          (let e = (case st of It_entry e \<Rightarrow> e | _ \<Rightarrow> hd xs)
           in do {
             n \<leftarrow> next_entry xs e;
             Some (case n of None \<Rightarrow> It_end | Some y \<Rightarrow> It_entry y, Some (he_key e, he_value e)) }))"

definition pa_hashmap_iterate ::
    "('k, 'v) pa_hashmap \<Rightarrow> ('k, 'v) hashmap_entry iter_state \<Rightarrow>
       (('k, 'v) hashmap_entry iter_state \<times> ('k \<times> 'v) option) option" where
  "pa_hashmap_iterate h st = iterate_step (hm_iterate h) st"

definition pa_hashmap_iterate_backwards ::
    "('k, 'v) pa_hashmap \<Rightarrow> ('k, 'v) hashmap_entry iter_state \<Rightarrow>
       (('k, 'v) hashmap_entry iter_state \<times> ('k \<times> 'v) option) option" where
  "pa_hashmap_iterate_backwards h st = iterate_step (rev (hm_iterate h)) st"

definition pa_hashmap_first :: "('k, 'v) pa_hashmap \<Rightarrow> 'v option" where
  "pa_hashmap_first h = (case hm_iterate h of [] \<Rightarrow> None | e # _ \<Rightarrow> Some (he_value e))"

definition pa_hashmap_last :: "('k, 'v) pa_hashmap \<Rightarrow> 'v option" where
  "pa_hashmap_last h = (case rev (hm_iterate h) of [] \<Rightarrow> None | e # _ \<Rightarrow> Some (he_value e))"

definition pa_hashmap_steal_first ::
    "('k, 'v) pa_hashmap \<Rightarrow> (('k, 'v) pa_hashmap \<times> 'v option \<times> 'k list) option" where
  "pa_hashmap_steal_first h =
     (case hm_iterate h of
        [] \<Rightarrow> Some (h, None, [])
      | e # _ \<Rightarrow> do { (h, freed) \<leftarrow> remove_entry h e; Some (h, Some (he_value e), freed) })"

definition pa_hashmap_size :: "('k, 'v) pa_hashmap \<Rightarrow> nat" where
  "pa_hashmap_size h = hm_n_entries h"

definition pa_hashmap_isempty :: "('k, 'v) pa_hashmap \<Rightarrow> bool" where
  "pa_hashmap_isempty h = (hm_n_entries h = 0)"

end
