(* ===== verification/Ordered_Map.thy ===== *)
theory Ordered_Map
  imports Prelude
begin

text \<open>
  The contract of a map that remembers the order of insertion: \<open>proplist.c\<close> is a client,
  \<open>hashmap.c\<close> the provider. A map stands for the list of its pairs, in the order they were put.
\<close>

locale ordered_map =
  fixes ok :: "'m \<Rightarrow> bool"
    and pairs :: "'m \<Rightarrow> ('k \<times> 'v) list"
    and put :: "'m \<Rightarrow> 'k \<Rightarrow> 'v \<Rightarrow> ('m \<times> int) option"
    and get :: "'m \<Rightarrow> 'k \<Rightarrow> 'v option option"
    and del :: "'m \<Rightarrow> 'k \<Rightarrow> ('m \<times> 'v option \<times> 'k list) option"
  assumes distinct_keys: "ok m \<Longrightarrow> distinct (map fst (pairs m))"
    and get_law: "ok m \<Longrightarrow> get m k = Some (map_of (pairs m) k)"
    and put_new: "ok m \<Longrightarrow> map_of (pairs m) k = None \<Longrightarrow> length (pairs m) + 1 < 2 ^ 32 \<Longrightarrow>
      \<exists>m'. put m k v = Some (m', 0) \<and> ok m' \<and> pairs m' = pairs m @ [(k, v)]"
    and put_old: "ok m \<Longrightarrow> map_of (pairs m) k \<noteq> None \<Longrightarrow> put m k v = Some (m, - 1)"
    and del_law: "ok m \<Longrightarrow> \<exists>m' freed. del m k = Some (m', map_of (pairs m) k, freed) \<and> ok m' \<and>
      pairs m' = filter (\<lambda>x. fst x \<noteq> k) (pairs m)"
begin

text \<open>What a lookup sees after an insertion or a removal.\<close>

lemma get_after_put:
  assumes "ok m" "length (pairs m) + 1 < 2 ^ 32"
  shows "\<exists>m' r. put m k v = Some (m', r) \<and> ok m' \<and>
    get m' j = Some (case map_of (pairs m) j of None \<Rightarrow> if j = k then Some v else None | Some w \<Rightarrow> Some w)"
proof (cases "map_of (pairs m) k")
  case None
  from put_new [OF assms(1) None assms(2)] obtain m' where "put m k v = Some (m', 0)" "ok m'"
    "pairs m' = pairs m @ [(k, v)]" by blast
  then show ?thesis using get_law [of m' j] None by (auto simp: map_add_def split: option.split)
next
  case (Some w)
  then show ?thesis using put_old [OF assms(1), of k v] get_law [OF assms(1), of j] assms(1)
    by (auto split: option.split)
qed

lemma map_of_filter_key: "map_of (filter (\<lambda>x. fst x \<noteq> k) xs) j = (if j = k then None else map_of xs j)"
  by (induction xs) auto

lemma get_after_del:
  assumes "ok m"
  shows "\<exists>m' freed. del m k = Some (m', map_of (pairs m) k, freed) \<and> ok m' \<and>
    get m' j = Some (if j = k then None else map_of (pairs m) j)"
  using del_law [OF assms, of k] get_law by (auto simp: map_of_filter_key)

end

end
