(* ===== verification/Hashmap_Props.thy ===== *)
theory Hashmap_Props
  imports Hashmap Ordered_Map
begin

text \<open>
  Correctness of the hash map: the buckets and the iteration list agree (\<open>hm_ok\<close>), the operations
  obey the contract \<open>ordered_map\<close>, and every run of them is the run of the list of pairs.
\<close>

subsection \<open>The map refines its iteration list\<close>

text \<open>
  Every bucket lists the entries of its hash, the newest first; comparison is equality.
\<close>

definition bucket_of :: "('k, 'v) pa_hashmap \<Rightarrow> nat \<Rightarrow> ('k, 'v) hashmap_entry list" where
  "bucket_of h i = rev (filter (\<lambda>e. hash_of h (he_key e) = i) (hm_iterate h))"

definition hm_ok :: "('k, 'v) pa_hashmap \<Rightarrow> bool" where
  "hm_ok h \<longleftrightarrow> (\<forall>a b. hm_compare_func h a b = 0 \<longleftrightarrow> a = b) \<and> distinct (map he_key (hm_iterate h)) \<and>
     hm_buckets h = map (bucket_of h) [0..<NBUCKETS] \<and> hm_n_entries h = length (hm_iterate h) \<and>
     length (hm_iterate h) < 2 ^ 32"

definition hm_pairs :: "('k, 'v) pa_hashmap \<Rightarrow> ('k \<times> 'v) list" where
  "hm_pairs h = map (\<lambda>e. (he_key e, he_value e)) (hm_iterate h)"

lemma hash_of_less [simp]: "hash_of h k < NBUCKETS"
  by (simp add: hash_of_def NBUCKETS_def)

lemma new_full_ok:
  assumes "\<And>a b. cmp a b = 0 \<longleftrightarrow> a = b"
  shows "hm_ok (pa_hashmap_new_full hf cmp kf vf)" "hm_pairs (pa_hashmap_new_full hf cmp kf vf) = []"
proof -
  let ?h = "pa_hashmap_new_full hf cmp kf vf"
  have bk: "bucket_of ?h = (\<lambda>_. [])" by (simp add: bucket_of_def pa_hashmap_new_full_def fun_eq_iff)
  have b: "hm_buckets ?h = map (bucket_of ?h) [0..<NBUCKETS]"
    unfolding bk map_replicate_trivial by (simp add: pa_hashmap_new_full_def)
  show "hm_ok ?h"
    unfolding hm_ok_def by (intro conjI b) (simp_all add: pa_hashmap_new_full_def assms)
  show "hm_pairs (pa_hashmap_new_full hf cmp kf vf) = []" by (simp add: hm_pairs_def pa_hashmap_new_full_def)
qed

lemma find_key:
  fixes xs :: "('k, 'v) hashmap_entry list"
  shows "distinct (map he_key xs) \<Longrightarrow> find (\<lambda>e. he_key e = k) (rev (filter (\<lambda>e. f (he_key e) = f k) xs)) =
     find (\<lambda>e. he_key e = k) xs"
proof (induction xs)
  case (Cons e xs)
  have none: "find (\<lambda>e. he_key e = k) ys = None" if "k \<notin> he_key ` set ys" for ys :: "('k, 'v) hashmap_entry list"
    using that by (induction ys) auto
  have app: "find P (ys @ zs) = (case find P ys of None \<Rightarrow> find P zs | Some y \<Rightarrow> Some y)" for P and ys zs :: "('k, 'v) hashmap_entry list"
    by (induction ys) auto
  show ?case
  proof (cases "he_key e = k")
    case True
    then have "k \<notin> he_key ` set xs" using Cons.prems by auto
    then have "find (\<lambda>e. he_key e = k) (rev (filter (\<lambda>e. f (he_key e) = f k) xs)) = None" by (intro none) auto
    then show ?thesis using True by (simp add: app)
  next
    case False
    then show ?thesis using Cons by (auto simp: app split: option.split)
  qed
qed simp

lemma find_map_of:
  fixes xs :: "('k, 'v) hashmap_entry list"
  shows "map_option he_value (find (\<lambda>e. he_key e = k) xs) = map_of (map (\<lambda>e. (he_key e, he_value e)) xs) k"
  by (induction xs) auto

lemma hash_scan_eq:
  assumes "hm_ok h"
  shows "hash_scan h (hash_of h k) k = Some (find (\<lambda>e. he_key e = k) (hm_iterate h))"
proof -
  have "(\<lambda>e. hm_compare_func h (he_key e) k = 0) = (\<lambda>e. he_key e = k)" using assms by (simp add: hm_ok_def)
  moreover have "hm_buckets h ! hash_of h k = rev (filter (\<lambda>e. hash_of h (he_key e) = hash_of h k) (hm_iterate h))"
    using assms by (simp add: hm_ok_def bucket_of_def)
  ultimately show ?thesis using find_key [of "hm_iterate h" k "hash_of h"] assms by (simp add: hash_scan_def hm_ok_def)
qed

lemma hash_of_frame [simp]:
  "hash_of (h\<lparr>hm_iterate := xs\<rparr>) = hash_of h" "hash_of (h\<lparr>hm_buckets := b\<rparr>) = hash_of h"
  "hash_of (h\<lparr>hm_n_entries := n\<rparr>) = hash_of h"
  by (simp_all add: hash_of_def fun_eq_iff)

lemma bucket_of_frame [simp]:
  "bucket_of (h\<lparr>hm_buckets := b\<rparr>) = bucket_of h" "bucket_of (h\<lparr>hm_n_entries := n\<rparr>) = bucket_of h"
  by (simp_all add: bucket_of_def fun_eq_iff)

lemma put_fresh:
  assumes ok: "hm_ok h" and new: "map_of (hm_pairs h) k = None" and room: "length (hm_pairs h) + 1 < 2 ^ 32"
  shows "\<exists>h'. pa_hashmap_put h k v = Some (h', 0) \<and> hm_ok h' \<and> hm_pairs h' = hm_pairs h @ [(k, v)] \<and>
    hm_value_free h' = hm_value_free h \<and> hm_key_free h' = hm_key_free h"
proof -
  let ?e = "\<lparr>he_key = k, he_value = v\<rparr>" and ?i = "hash_of h k"
  let ?h = "h\<lparr>hm_buckets := (hm_buckets h)[?i := ?e # hm_buckets h ! ?i], hm_iterate := hm_iterate h @ [?e],
    hm_n_entries := (hm_n_entries h + 1) mod 2 ^ 32\<rparr>"
  have f: "find (\<lambda>e. he_key e = k) (hm_iterate h) = None"
    using new find_map_of [of k "hm_iterate h"] by (simp add: hm_pairs_def)
  have k: "k \<notin> he_key ` set (hm_iterate h)" using f by (auto simp: find_None_iff)
  have n: "(hm_n_entries h + 1) mod 2 ^ 32 = hm_n_entries h + 1"
    using ok room by (simp add: hm_ok_def hm_pairs_def)
  have b: "hm_buckets ?h = map (bucket_of ?h) [0..<NBUCKETS]"
  proof (rule nth_equalityI)
    show "length (hm_buckets ?h) = length (map (bucket_of ?h) [0..<NBUCKETS])" using ok by (simp add: hm_ok_def)
    show "hm_buckets ?h ! j = map (bucket_of ?h) [0..<NBUCKETS] ! j" if "j < length (hm_buckets ?h)" for j
      using that ok by (cases "j = ?i") (auto simp: hm_ok_def bucket_of_def)
  qed
  have "hm_ok ?h"
    unfolding hm_ok_def by (intro conjI b) (use ok k n room in \<open>simp_all add: hm_ok_def hm_pairs_def\<close>)
  moreover have "pa_hashmap_put h k v = Some (?h, 0)"
    using hash_scan_eq [OF ok, of k] f n by (simp add: pa_hashmap_put_def Let_def)
  ultimately show ?thesis by (auto simp: hm_pairs_def)
qed

lemma rev_remove1: "distinct xs \<Longrightarrow> rev (remove1 e xs) = remove1 e (rev xs)"
  by (induction xs) (auto simp: remove1_append remove1_idem)

lemma remove1_pairs:
  fixes xs :: "('k, 'v) hashmap_entry list"
  assumes "distinct (map he_key xs)" "e \<in> set xs"
  shows "map (\<lambda>e. (he_key e, he_value e)) (remove1 e xs) =
    filter (\<lambda>x. fst x \<noteq> he_key e) (map (\<lambda>e. (he_key e, he_value e)) xs)"
  using assms
proof (induction xs)
  case (Cons x xs)
  show ?case
  proof (cases "x = e")
    case True
    have "fst y \<noteq> he_key e" if "y \<in> set (map (\<lambda>e. (he_key e, he_value e)) xs)" for y
      using that Cons.prems(1) True by (auto simp: image_iff)
    then show ?thesis using True by (simp add: filter_True)
  next
    case False
    then show ?thesis using Cons by auto
  qed
qed simp

lemma remove_entry_ok:
  fixes h :: "('k, 'v) pa_hashmap"
  assumes ok: "hm_ok h" and e: "e \<in> set (hm_iterate h)"
  shows "\<exists>h'. remove_entry h e = Some (h', if hm_key_free h then [he_key e] else []) \<and> hm_ok h' \<and>
    hm_iterate h' = remove1 e (hm_iterate h) \<and> hm_pairs h' = filter (\<lambda>x. fst x \<noteq> he_key e) (hm_pairs h) \<and>
    hm_value_free h' = hm_value_free h \<and> hm_key_free h' = hm_key_free h"
proof -
  let ?i = "hash_of h (he_key e)"
  let ?h = "h\<lparr>hm_iterate := remove1 e (hm_iterate h), hm_buckets := (hm_buckets h)[?i := remove1 e (hm_buckets h ! ?i)],
    hm_n_entries := hm_n_entries h - 1\<rparr>"
  have d: "distinct (map he_key (hm_iterate h))" using ok by (simp add: hm_ok_def)
  then have di: "distinct (hm_iterate h)" by (simp add: distinct_map)
  have b: "hm_buckets ?h = map (bucket_of ?h) [0..<NBUCKETS]"
  proof (rule nth_equalityI)
    show "length (hm_buckets ?h) = length (map (bucket_of ?h) [0..<NBUCKETS])" using ok by (simp add: hm_ok_def)
    show "hm_buckets ?h ! j = map (bucket_of ?h) [0..<NBUCKETS] ! j" if "j < length (hm_buckets ?h)" for j
      using that ok di by (cases "j = ?i") (simp_all add: hm_ok_def bucket_of_def rev_remove1 filter_remove1 remove1_idem)
  qed
  have l: "length (remove1 e (hm_iterate h)) = length (hm_iterate h) - 1" using e by (simp add: length_remove1)
  have dk: "distinct (map he_key (remove1 e (hm_iterate h)))"
    using d by (meson distinct_map distinct_remove1 inj_on_subset set_remove1_subset)
  have "length (hm_iterate h) - 1 < 2 ^ 32" using ok unfolding hm_ok_def by (intro less_imp_diff_less) blast
  then have "hm_ok ?h"
    unfolding hm_ok_def by (intro conjI b) (use ok l dk in \<open>simp_all add: hm_ok_def\<close>)
  moreover note remove1_pairs [OF d e]
  moreover have "1 \<le> hm_n_entries h" using ok length_pos_if_in_set [OF e] unfolding hm_ok_def by linarith
  ultimately show ?thesis by (simp add: remove_entry_def Let_def hm_pairs_def)
qed

lemma remove_spec:
  assumes ok: "hm_ok h"
  shows "\<exists>h'. pa_hashmap_remove h k = Some (h', map_of (hm_pairs h) k,
      if hm_key_free h \<and> map_of (hm_pairs h) k \<noteq> None then [k] else []) \<and> hm_ok h' \<and>
    hm_pairs h' = filter (\<lambda>x. fst x \<noteq> k) (hm_pairs h) \<and> hm_value_free h' = hm_value_free h \<and>
    hm_key_free h' = hm_key_free h"
proof (cases "find (\<lambda>e. he_key e = k) (hm_iterate h)")
  case None
  then have "map_of (hm_pairs h) k = None" using find_map_of [of k "hm_iterate h"] by (simp add: hm_pairs_def)
  moreover from this have "filter (\<lambda>x. fst x \<noteq> k) (hm_pairs h) = hm_pairs h"
    by (auto simp: map_of_eq_None_iff intro!: filter_True)
  ultimately show ?thesis using None ok hash_scan_eq [OF ok, of k] by (simp add: pa_hashmap_remove_def)
next
  case (Some e)
  then have e: "e \<in> set (hm_iterate h)" "he_key e = k" by (auto simp: find_Some_iff)
  have "map_of (hm_pairs h) k = Some (he_value e)"
    using Some find_map_of [of k "hm_iterate h"] by (simp add: hm_pairs_def)
  then show ?thesis using Some remove_entry_ok [OF ok e(1)] e(2) hash_scan_eq [OF ok, of k]
    by (auto simp: pa_hashmap_remove_def)
qed

interpretation hashmap: ordered_map hm_ok hm_pairs pa_hashmap_put pa_hashmap_get pa_hashmap_remove
proof
  fix m :: "('k, 'v) pa_hashmap" and k v
  assume ok: "hm_ok m"
  show "distinct (map fst (hm_pairs m))" using ok by (simp add: hm_ok_def hm_pairs_def comp_def)
  show g: "pa_hashmap_get m k = Some (map_of (hm_pairs m) k)"
    using hash_scan_eq [OF ok, of k] by (simp add: pa_hashmap_get_def find_map_of hm_pairs_def)
  show "\<exists>m'. pa_hashmap_put m k v = Some (m', 0) \<and> hm_ok m' \<and> hm_pairs m' = hm_pairs m @ [(k, v)]"
    if "map_of (hm_pairs m) k = None" "length (hm_pairs m) + 1 < 2 ^ 32"
    using put_fresh [OF ok that] by blast
  show "pa_hashmap_put m k v = Some (m, - 1)" if "map_of (hm_pairs m) k \<noteq> None"
    using that hash_scan_eq [OF ok, of k] find_map_of [of k "hm_iterate m"]
    by (auto simp: pa_hashmap_put_def hm_pairs_def)
  show "\<exists>m' freed. pa_hashmap_remove m k = Some (m', map_of (hm_pairs m) k, freed) \<and> hm_ok m' \<and>
      hm_pairs m' = filter (\<lambda>x. fst x \<noteq> k) (hm_pairs m)"
    using remove_spec [OF ok] by blast
qed

text \<open>Emptying a map frees every key and value once, in the order of insertion.\<close>

lemma remove_all_spec:
  assumes "hm_ok h"
  shows "\<exists>h'. pa_hashmap_remove_all h = Some (h', if hm_key_free h then map fst (hm_pairs h) else [],
      if hm_value_free h then map snd (hm_pairs h) else []) \<and> hm_ok h' \<and> hm_pairs h' = [] \<and>
    hm_value_free h' = hm_value_free h \<and> hm_key_free h' = hm_key_free h"
  using assms
proof (induction "length (hm_iterate h)" arbitrary: h)
  case 0
  then show ?case by (subst pa_hashmap_remove_all.simps) (simp add: hm_pairs_def)
next
  case (Suc n)
  then obtain e xs where it: "hm_iterate h = e # xs" by (metis length_Suc_conv)
  then obtain h1 where h1: "remove_entry h e = Some (h1, if hm_key_free h then [he_key e] else [])" "hm_ok h1"
    "hm_iterate h1 = xs" "hm_value_free h1 = hm_value_free h" "hm_key_free h1 = hm_key_free h"
    using remove_entry_ok [OF Suc.prems, of e] by auto
  have "n = length (hm_iterate h1)" using Suc.hyps(2) it h1(3) by simp
  from Suc.hyps(1) [OF this h1(2)] show ?case
    using it h1 by (subst pa_hashmap_remove_all.simps) (auto simp: hm_pairs_def)
qed

text \<open>An iteration visits the pairs in order, and ends.\<close>

fun iterate_all :: "nat \<Rightarrow> ('k, 'v) pa_hashmap \<Rightarrow> ('k, 'v) hashmap_entry iter_state \<Rightarrow> ('k \<times> 'v) list option" where
  "iterate_all 0 h st = None"
| "iterate_all (Suc n) h st =
     (case pa_hashmap_iterate h st of
        None \<Rightarrow> None
      | Some (_, None) \<Rightarrow> Some []
      | Some (st', Some x) \<Rightarrow> map_option (Cons x) (iterate_all n h st'))"

lemma next_entry_split:
  "distinct (ys @ e # zs) \<Longrightarrow> next_entry (ys @ e # zs) e = Some (case zs of [] \<Rightarrow> None | y # _ \<Rightarrow> Some y)"
proof -
  assume "distinct (ys @ e # zs)"
  then have "dropWhile (\<lambda>x. x \<noteq> e) (ys @ e # zs) = e # zs" by (subst dropWhile_append2) auto
  then show ?thesis by (simp add: next_entry_def split: list.split)
qed

lemma iterate_from:
  assumes "hm_iterate h = ys @ e # zs" "distinct (hm_iterate h)" "length zs + 1 < n"
  shows "iterate_all n h (It_entry e) = Some (map (\<lambda>e. (he_key e, he_value e)) (e # zs))"
  using assms
proof (induction zs arbitrary: n ys e)
  case Nil
  obtain n' where n: "n = Suc (Suc n')" using Nil.prems(3) by (auto simp: less_iff_Suc_add)
  then show ?case using Nil next_entry_split [of ys e "[]"]
    by (simp add: pa_hashmap_iterate_def iterate_step_def)
next
  case (Cons y zs)
  then obtain n' where n: "n = Suc n'" by (cases n) auto
  have "iterate_all n' h (It_entry y) = Some (map (\<lambda>e. (he_key e, he_value e)) (y # zs))"
    using Cons.prems n by (intro Cons.IH [of "ys @ [e]"]) simp_all
  then show ?case using n Cons.prems next_entry_split [of ys e "y # zs"]
    by (simp add: pa_hashmap_iterate_def iterate_step_def)
qed

lemma iterate_all_pairs:
  assumes "hm_ok h"
  shows "iterate_all (length (hm_pairs h) + 2) h It_null = Some (hm_pairs h)"
proof (cases "hm_iterate h")
  case Nil
  then show ?thesis by (simp add: hm_pairs_def pa_hashmap_iterate_def iterate_step_def)
next
  case (Cons e zs)
  have d: "distinct (hm_iterate h)" using assms by (simp add: hm_ok_def distinct_map)
  have "iterate_all n h It_null = iterate_all n h (It_entry e)" for n
    by (cases n) (simp_all add: pa_hashmap_iterate_def iterate_step_def Cons)
  moreover have "iterate_all (length (hm_pairs h) + 2) h (It_entry e) = Some (map (\<lambda>e. (he_key e, he_value e)) (e # zs))"
    using Cons d by (intro iterate_from [of h "[]"]) (simp_all add: hm_pairs_def)
  ultimately show ?thesis using Cons by (simp only: hm_pairs_def)
qed


subsection \<open>Every run of the operations\<close>

datatype ('k, 'v) hm_op = Put 'k 'v | Get 'k | Remove 'k | Remove_and_free 'k | Steal_first | Remove_all | Size

datatype 'v hm_res = Res_int int | Res_val "'v option" | Res_none

text \<open>The code: the new map, the result, the freed keys and the freed values.\<close>

fun hm_step :: "('k, 'v) pa_hashmap \<Rightarrow> ('k, 'v) hm_op \<Rightarrow> (('k, 'v) pa_hashmap \<times> 'v hm_res \<times> 'k list \<times> 'v list) option" where
  "hm_step h (Put k v) = do { (h, r) \<leftarrow> pa_hashmap_put h k v; Some (h, Res_int r, [], []) }"
| "hm_step h (Get k) = do { r \<leftarrow> pa_hashmap_get h k; Some (h, Res_val r, [], []) }"
| "hm_step h (Remove k) = do { (h, r, ks) \<leftarrow> pa_hashmap_remove h k; Some (h, Res_val r, ks, []) }"
| "hm_step h (Remove_and_free k) = do { (h, r, ks, vs) \<leftarrow> pa_hashmap_remove_and_free h k; Some (h, Res_int r, ks, vs) }"
| "hm_step h Steal_first = do { (h, r, ks) \<leftarrow> pa_hashmap_steal_first h; Some (h, Res_val r, ks, []) }"
| "hm_step h Remove_all = do { (h, ks, vs) \<leftarrow> pa_hashmap_remove_all h; Some (h, Res_none, ks, vs) }"
| "hm_step h Size = Some (h, Res_int (int (pa_hashmap_size h)), [], [])"

text \<open>The specification on the list of pairs; \<open>kf\<close> and \<open>vf\<close> say whether keys and values are freed.\<close>

fun pairs_step :: "bool \<Rightarrow> bool \<Rightarrow> ('k \<times> 'v) list \<Rightarrow> ('k, 'v) hm_op \<Rightarrow> ('k \<times> 'v) list \<times> 'v hm_res \<times> 'k list \<times> 'v list" where
  "pairs_step kf vf ps (Put k v) =
     (if map_of ps k = None then (ps @ [(k, v)], Res_int 0, [], []) else (ps, Res_int (- 1), [], []))"
| "pairs_step kf vf ps (Get k) = (ps, Res_val (map_of ps k), [], [])"
| "pairs_step kf vf ps (Remove k) =
     (filter (\<lambda>x. fst x \<noteq> k) ps, Res_val (map_of ps k), if kf \<and> map_of ps k \<noteq> None then [k] else [], [])"
| "pairs_step kf vf ps (Remove_and_free k) =
     (case map_of ps k of
        None \<Rightarrow> (ps, Res_int (- 1), [], [])
      | Some v \<Rightarrow> (filter (\<lambda>x. fst x \<noteq> k) ps, Res_int 0, if kf then [k] else [], if vf then [v] else []))"
| "pairs_step kf vf ps Steal_first =
     (case ps of
        [] \<Rightarrow> ([], Res_val None, [], [])
      | (k, v) # qs \<Rightarrow> (qs, Res_val (Some v), if kf then [k] else [], []))"
| "pairs_step kf vf ps Remove_all =
     ([], Res_none, if kf then map fst ps else [], if vf then map snd ps else [])"
| "pairs_step kf vf ps Size = (ps, Res_int (int (length ps)), [], [])"

lemma filter_absent: "map_of ps k = None \<Longrightarrow> filter (\<lambda>x. fst x \<noteq> k) ps = ps"
  by (auto simp: map_of_eq_None_iff intro!: filter_True)

lemma steal_first_spec:
  assumes ok: "hm_ok h"
  shows "\<exists>h'. pa_hashmap_steal_first h = Some (h', map_option snd (case hm_pairs h of [] \<Rightarrow> None | x # _ \<Rightarrow> Some x),
      if hm_key_free h then map fst (take 1 (hm_pairs h)) else []) \<and> hm_ok h' \<and> hm_pairs h' = drop 1 (hm_pairs h) \<and>
    hm_value_free h' = hm_value_free h \<and> hm_key_free h' = hm_key_free h"
proof (cases "hm_iterate h")
  case Nil
  then show ?thesis using ok by (simp add: pa_hashmap_steal_first_def hm_pairs_def)
next
  case (Cons e xs)
  then obtain h' where h': "remove_entry h e = Some (h', if hm_key_free h then [he_key e] else [])" "hm_ok h'"
    "hm_iterate h' = xs" "hm_value_free h' = hm_value_free h" "hm_key_free h' = hm_key_free h"
    using remove_entry_ok [OF ok, of e] by auto
  then show ?thesis using Cons by (simp add: pa_hashmap_steal_first_def hm_pairs_def)
qed

lemma size_spec: "hm_ok h \<Longrightarrow> pa_hashmap_size h = length (hm_pairs h)"
  by (simp add: hm_ok_def hm_pairs_def pa_hashmap_size_def)

lemma hm_step_refines:
  assumes ok: "hm_ok h" and room: "length (hm_pairs h) + 1 < 2 ^ 32"
    and spec: "pairs_step (hm_key_free h) (hm_value_free h) (hm_pairs h) a = (ps, r, ks, vs)"
  shows "\<exists>h'. hm_step h a = Some (h', r, ks, vs) \<and> hm_ok h' \<and> hm_pairs h' = ps \<and>
    hm_key_free h' = hm_key_free h \<and> hm_value_free h' = hm_value_free h"
proof (cases a)
  case (Put k v)
  then show ?thesis using spec put_fresh [OF ok _ room, of k v] hashmap.put_old [OF ok, of k v] ok
    by (cases "map_of (hm_pairs h) k") auto
next
  case (Get k)
  then show ?thesis using spec hashmap.get_law [OF ok, of k] ok by auto
next
  case (Remove k)
  then show ?thesis using spec remove_spec [OF ok, of k] by auto
next
  case (Remove_and_free k)
  then show ?thesis using spec remove_spec [OF ok, of k] filter_absent [of "hm_pairs h" k]
    by (auto simp: pa_hashmap_remove_and_free_def split: option.splits)
next
  case Steal_first
  then show ?thesis using spec steal_first_spec [OF ok] by (auto split: list.splits)
next
  case Remove_all
  then show ?thesis using spec remove_all_spec [OF ok] by auto
next
  case Size
  then show ?thesis using spec size_spec [OF ok] ok by auto
qed

fun hm_run :: "('k, 'v) pa_hashmap \<Rightarrow> ('k, 'v) hm_op list \<Rightarrow>
    (('k, 'v) pa_hashmap \<times> ('v hm_res \<times> 'k list \<times> 'v list) list) option" where
  "hm_run h [] = Some (h, [])"
| "hm_run h (a # as) = do {
     (h, out) \<leftarrow> hm_step h a;
     (h, outs) \<leftarrow> hm_run h as;
     Some (h, out # outs) }"

fun pairs_run :: "bool \<Rightarrow> bool \<Rightarrow> ('k \<times> 'v) list \<Rightarrow> ('k, 'v) hm_op list \<Rightarrow>
    ('k \<times> 'v) list \<times> ('v hm_res \<times> 'k list \<times> 'v list) list" where
  "pairs_run kf vf ps [] = (ps, [])"
| "pairs_run kf vf ps (a # as) =
     (let (ps, out) = pairs_step kf vf ps a; (ps, outs) = pairs_run kf vf ps as in (ps, out # outs))"

lemma pairs_step_length: "pairs_step kf vf ps a = (qs, out) \<Longrightarrow> length qs \<le> length ps + 1"
  by (cases a) (auto split: option.splits if_splits list.splits intro: le_SucI)

lemma hm_run_refines:
  assumes "hm_ok h" "length (hm_pairs h) + length as < 2 ^ 32"
    "pairs_run (hm_key_free h) (hm_value_free h) (hm_pairs h) as = (ps, outs)"
  shows "\<exists>h'. hm_run h as = Some (h', outs) \<and> hm_ok h' \<and> hm_pairs h' = ps"
  using assms
proof (induction as arbitrary: h outs)
  case (Cons a as)
  obtain qs r ks vs where s: "pairs_step (hm_key_free h) (hm_value_free h) (hm_pairs h) a = (qs, r, ks, vs)"
    by (cases "pairs_step (hm_key_free h) (hm_value_free h) (hm_pairs h) a") auto
  obtain outs' where o: "pairs_run (hm_key_free h) (hm_value_free h) qs as = (ps, outs')" "outs = (r, ks, vs) # outs'"
    using Cons.prems(3) s by (auto split: prod.splits)
  have "length (hm_pairs h) + 1 < 2 ^ 32" using Cons.prems(2) by simp
  from hm_step_refines [OF Cons.prems(1) this s] obtain h' where h': "hm_step h a = Some (h', r, ks, vs)" "hm_ok h'"
    "hm_pairs h' = qs" "hm_key_free h' = hm_key_free h" "hm_value_free h' = hm_value_free h" by blast
  have "length (hm_pairs h') + length as < 2 ^ 32" using pairs_step_length [OF s] Cons.prems(2) h'(3) by simp
  from Cons.IH [OF h'(2) this] show ?case using h' o by auto
qed simp

text \<open>
  C18: \<open>hashmap.c\<close> implements an insertion-ordered map: every run of puts, lookups, removals, steals
  and clears on a new map never fails an assertion, gives the results and frees the keys and values
  that the list of pairs prescribes, and an iteration afterwards ends and visits exactly those pairs
  in the order they were put.
\<close>
theorem hashmap_refines_pairs:
  fixes ps :: "('k \<times> 'v) list"
  assumes "\<And>a b. compare_func a b = 0 \<longleftrightarrow> a = b" "length as < 2 ^ 32"
    "pairs_run kf vf [] as = (ps, outs)"
  shows "\<exists>h. hm_run (pa_hashmap_new_full hash_func compare_func kf vf) as = Some (h, outs) \<and>
    iterate_all (length ps + 2) h It_null = Some ps"
proof -
  define h0 :: "('k, 'v) pa_hashmap" where "h0 = pa_hashmap_new_full hash_func compare_func kf vf"
  have "hm_ok h0" "hm_pairs h0 = []" unfolding h0_def by (rule new_full_ok [OF assms(1)])+
  moreover have "hm_key_free h0 = kf" "hm_value_free h0 = vf" by (simp_all add: h0_def pa_hashmap_new_full_def)
  ultimately obtain h where "hm_run h0 as = Some (h, outs)" "hm_ok h" "hm_pairs h = ps"
    using hm_run_refines [of h0 as ps outs] assms(2,3) by auto
  then show ?thesis using iterate_all_pairs unfolding h0_def by blast
qed

text \<open>Two strings whose hashes, 1 and 128, fall into the same bucket.\<close>
theorem hashmap_refines_pairs_witness:
  "pairs_run True True [] [Put [1] (7 :: nat), Put [4, 4] 8, Put [1] 9, Get [4, 4], Remove [1], Steal_first] =
     ([], [(Res_int 0, [], []), (Res_int 0, [], []), (Res_int (- 1), [], []), (Res_val (Some 8), [], []),
       (Res_val (Some 7), [[1]], []), (Res_val (Some 8), [[4, 4 :: byte]], [])]) \<and>
   (\<exists>h. hm_run (pa_hashmap_new_full pa_idxset_string_hash_func pa_idxset_string_compare_func True True)
      [Put [1] (7 :: nat), Put [4, 4] 8, Put [1] 9, Get [4, 4], Remove [1], Steal_first] =
      Some (h, [(Res_int 0, [], []), (Res_int 0, [], []), (Res_int (- 1), [], []), (Res_val (Some 8), [], []),
       (Res_val (Some 7), [[1]], []), (Res_val (Some 8), [[4, 4 :: byte]], [])]) \<and>
     iterate_all 2 h It_null = Some [])"
proof -
  let ?as = "[Put [1] (7 :: nat), Put [4, 4] 8, Put [1] 9, Get [4, 4], Remove [1 :: byte], Steal_first]"
  let ?outs = "[(Res_int 0, [], []), (Res_int 0, [], []), (Res_int (- 1), [], []), (Res_val (Some 8), [], []),
       (Res_val (Some 7), [[1]], []), (Res_val (Some 8), [[4, 4 :: byte]], [])]"
  have r: "pairs_run True True [] ?as = ([], ?outs)" by simp
  have c: "pa_idxset_string_compare_func a b = 0 \<longleftrightarrow> a = b" for a b
    by (simp add: pa_idxset_string_compare_func_def strcmp_eq)
  have "length ?as < 2 ^ 32" by simp
  from hashmap_refines_pairs [OF c this r, of pa_idxset_string_hash_func] r show ?thesis
    by (simp only: list.size add_0_left simp_thms)
qed

end
