(* ===== verification/Bits.thy ===== *)
theory Bits
  imports Prelude
begin

text \<open>Masks and shifts of words as arithmetic on their values.\<close>

unbundle bit_operations_syntax

lemma unat_and_mask: "unat (b AND mask n) = unat b mod 2 ^ n" for b :: "'a :: len word"
  by (simp only: take_bit_eq_mask [symmetric] unsigned_take_bit_eq) (simp add: take_bit_eq_mod)

lemma unat_and_not_mask: "unat (b AND NOT (mask n)) = unat b div 2 ^ n * 2 ^ n" for b :: "'a :: len word"
proof -
  have e: "b AND NOT (mask n) = push_bit n (drop_bit n b)"
    by (rule bit_word_eqI) (auto simp: bit_simps)
  have "unat (push_bit n (drop_bit n b)) = (unat b div 2 ^ n * 2 ^ n) mod 2 ^ LENGTH('a)"
    by (simp only: unsigned_push_bit_eq unsigned_drop_bit_eq)
      (simp add: take_bit_eq_mod push_bit_eq_mult drop_bit_eq_div)
  also have "\<dots> = unat b div 2 ^ n * 2 ^ n"
    by (rule mod_less, rule le_less_trans [OF div_times_less_eq_dividend unsigned_less])
  finally show ?thesis by (simp add: e)
qed

lemma nat_div_eq_iff: "0 < d \<Longrightarrow> n div d = q \<longleftrightarrow> q * d \<le> n \<and> n < (q + 1) * d" for n d q :: nat
  by (metis Suc_eq_plus1 div_less_iff_less_mult le_antisym less_Suc_eq_le less_eq_div_iff_mult_less_eq order_refl)

end
