(* ===== verification/Utf8.thy ===== *)
theory Utf8
  imports Bits
begin

text \<open>
  The validation of UTF-8 and ASCII strings in \<open>src/pulse/utf8.c\<close>. A string is the list of its
  bytes before the terminating zero; reading the terminator gives 0.
\<close>

unbundle bit_operations_syntax

subsection \<open>Code\<close>

definition is_unicode_valid :: "32 word \<Rightarrow> bool" where
  "is_unicode_valid ch =
     (if ch \<ge> 0x110000 then False
      else if ch AND 0xFFFFF800 = 0xD800 then False
      else if ch \<ge> 0xFDD0 \<and> ch \<le> 0xFDEF then False
      else if ch AND 0xFFFE = 0xFFFE then False
      else True)"

definition is_continuation_char :: "byte \<Rightarrow> bool" where
  "is_continuation_char ch = (ch AND 0xc0 = 0x80)"

definition merge_continuation_char :: "32 word \<Rightarrow> byte \<Rightarrow> 32 word" where
  "merge_continuation_char u_ch ch = (push_bit 6 u_ch) OR (ucast ch AND 0x3f)"

text \<open>The byte at \<open>p[i]\<close>.\<close>

definition char_at :: "bytes \<Rightarrow> nat \<Rightarrow> byte" where
  "char_at s i = (if i < length s then s ! i else 0)"

text \<open>
  The labels of the loop body: \<open>remaining\<close> continuation bytes from position \<open>i\<close> on are merged
  into \<open>val\<close>; \<^term>\<open>None\<close> is the jump to \<open>error\<close>.
\<close>

fun continuation :: "bytes \<Rightarrow> nat \<Rightarrow> nat \<Rightarrow> 32 word \<Rightarrow> 32 word option" where
  "continuation s i 0 val = Some val"
| "continuation s i (Suc remaining) val =
     (if is_continuation_char (char_at s i)
      then continuation s (i + 1) remaining (merge_continuation_char val (char_at s i))
      else None)"

text \<open>The size of the multi-byte sequence at the start of \<open>s\<close>, if it is a valid one.\<close>

definition utf8_sequence :: "bytes \<Rightarrow> nat option" where
  "utf8_sequence s =
     (let c = char_at s 0
      in case (if c AND 0xe0 = 0xc0 then Some (2, 128, ucast (c AND 0x1e))
               else if c AND 0xf0 = 0xe0 then Some (3, 2 ^ 11, ucast (c AND 0x0f))
               else if c AND 0xf8 = 0xf0 then Some (4, 2 ^ 16, ucast (c AND 0x07))
               else None) of
           None \<Rightarrow> None
         | Some (n, lowest, val) \<Rightarrow>
             (case continuation s 1 (n - 1) val of
                None \<Rightarrow> None
              | Some val \<Rightarrow>
                  if val < lowest then None else if \<not> is_unicode_valid val then None else Some n))"

definition FILTER_CHAR :: byte where "FILTER_CHAR = 0x5f"

text \<open>
  \<open>utf8_validate\<close>: without an output buffer the first error ends the loop, with one the byte is
  replaced and the scan goes on behind it.
\<close>

function utf8_validate :: "bytes \<Rightarrow> bool \<Rightarrow> bytes option" where
  "utf8_validate [] output = Some []"
| "utf8_validate (c # cs) output =
     (if c < 128 then map_option (Cons c) (utf8_validate cs output)
      else
        (case utf8_sequence (c # cs) of
           Some n \<Rightarrow> map_option (append (take n (c # cs))) (utf8_validate (drop (n - 1) cs) output)
         | None \<Rightarrow> if output then map_option (Cons FILTER_CHAR) (utf8_validate cs output) else None))"
  by pat_completeness auto
termination by (relation "measure (\<lambda>(s, _). length s)") auto

definition pa_utf8_valid :: "bytes \<Rightarrow> bool" where
  "pa_utf8_valid str = (utf8_validate str False \<noteq> None)"

definition pa_utf8_filter :: "bytes \<Rightarrow> bytes option" where
  "pa_utf8_filter str = utf8_validate str True"

definition pa_ascii_valid :: "bytes \<Rightarrow> bool" where
  "pa_ascii_valid str = (\<forall>c \<in> set str. \<not> c \<ge> 128)"

definition pa_ascii_filter :: "bytes \<Rightarrow> bytes" where
  "pa_ascii_filter str = filter (\<lambda>c. c < 128) str"

subsection \<open>The tests of the code as arithmetic\<close>

lemma high_bits:
  fixes b :: byte
  shows "b AND 0xc0 = 0x80 \<longleftrightarrow> unat b div 64 = 2" "b AND 0xe0 = 0xc0 \<longleftrightarrow> unat b div 32 = 6"
    "b AND 0xf0 = 0xe0 \<longleftrightarrow> unat b div 16 = 14" "b AND 0xf8 = 0xf0 \<longleftrightarrow> unat b div 8 = 30"
proof -
  have m: "(0xc0 :: byte) = NOT (mask 6)" "(0xe0 :: byte) = NOT (mask 5)" "(0xf0 :: byte) = NOT (mask 4)"
    "(0xf8 :: byte) = NOT (mask 3)"
    by (simp_all add: mask_eq_decr_exp)
  have "b AND 0xc0 = 0x80 \<longleftrightarrow> unat (b AND 0xc0) = 0x80" "b AND 0xe0 = 0xc0 \<longleftrightarrow> unat (b AND 0xe0) = 0xc0"
    "b AND 0xf0 = 0xe0 \<longleftrightarrow> unat (b AND 0xf0) = 0xe0" "b AND 0xf8 = 0xf0 \<longleftrightarrow> unat (b AND 0xf8) = 0xf0"
    by (simp_all add: word_unat_eq_iff)
  moreover have "unat (b AND 0xc0) = unat b div 64 * 64" "unat (b AND 0xe0) = unat b div 32 * 32"
    "unat (b AND 0xf0) = unat b div 16 * 16" "unat (b AND 0xf8) = unat b div 8 * 8"
    unfolding m unat_and_not_mask by simp_all
  ultimately show "b AND 0xc0 = 0x80 \<longleftrightarrow> unat b div 64 = 2" "b AND 0xe0 = 0xc0 \<longleftrightarrow> unat b div 32 = 6"
    "b AND 0xf0 = 0xe0 \<longleftrightarrow> unat b div 16 = 14" "b AND 0xf8 = 0xf0 \<longleftrightarrow> unat b div 8 = 30"
    by simp_all
qed

lemma low_bits:
  fixes b :: byte
  shows "unat (b AND 0x0f) = unat b mod 16" "unat (b AND 0x07) = unat b mod 8"
    "unat (b AND 0x1e) = unat b mod 32 div 2 * 2"
proof -
  have m: "(0x0f :: byte) = mask 4" "(0x07 :: byte) = mask 3" "(0x1e :: byte) = mask 5 AND NOT (mask 1)"
    by (simp_all add: mask_eq_decr_exp)
  show "unat (b AND 0x0f) = unat b mod 16" "unat (b AND 0x07) = unat b mod 8"
    unfolding m unat_and_mask by simp_all
  show "unat (b AND 0x1e) = unat b mod 32 div 2 * 2"
    unfolding m and.assoc [symmetric] unat_and_not_mask unat_and_mask by simp
qed

lemma unat_merge:
  assumes "unat u < 67108864"
  shows "unat (merge_continuation_char u ch) = unat u * 64 + unat ch mod 64"
proof -
  have m: "(0x3f :: 32 word) = mask 6" by (simp add: mask_eq_decr_exp)
  have "push_bit 6 u OR (ucast ch AND mask 6) = push_bit 6 u + (ucast ch AND mask 6)"
    by (rule disjunctive_add [symmetric]) (auto simp: bit_simps)
  moreover have "unat (push_bit 6 u) = unat u * 64"
    using assms by (simp only: unsigned_push_bit_eq) (simp add: push_bit_eq_mult take_bit_eq_mod)
  moreover have "unat ch < 2 ^ 32" by (rule less_trans [OF unsigned_less]) simp
  then have "unat (ucast ch AND mask 6 :: 32 word) = unat ch mod 64"
    unfolding unat_and_mask by (simp add: unsigned_ucast_eq take_bit_eq_mod)
  ultimately show ?thesis using assms unfolding merge_continuation_char_def m
    by (simp add: unat_word_ariths)
qed

text \<open>The code points the validator admits.\<close>

definition scalar_ok :: "nat \<Rightarrow> bool" where
  "scalar_ok n \<longleftrightarrow> n < 0x110000 \<and> \<not> (0xD800 \<le> n \<and> n \<le> 0xDFFF) \<and> \<not> (0xFDD0 \<le> n \<and> n \<le> 0xFDEF) \<and>
     n mod 65536 < 0xFFFE"

lemma is_unicode_valid_iff: "is_unicode_valid ch \<longleftrightarrow> scalar_ok (unat ch)"
proof -
  have m: "(0xFFFFF800 :: 32 word) = NOT (mask 11)" "(0xFFFE :: 32 word) = mask 16 AND NOT (mask 1)"
    by (simp_all add: mask_eq_decr_exp)
  have "ch AND 0xFFFFF800 = 0xD800 \<longleftrightarrow> unat (ch AND 0xFFFFF800) = 0xD800" by (simp add: word_unat_eq_iff)
  also have "\<dots> \<longleftrightarrow> unat ch div 2048 = 27" unfolding m unat_and_not_mask by simp
  also have "\<dots> \<longleftrightarrow> 0xD800 \<le> unat ch \<and> unat ch \<le> 0xDFFF" by (subst nat_div_eq_iff) auto
  finally have s: "ch AND 0xFFFFF800 = 0xD800 \<longleftrightarrow> 0xD800 \<le> unat ch \<and> unat ch \<le> 0xDFFF" .
  have "ch AND 0xFFFE = 0xFFFE \<longleftrightarrow> unat (ch AND 0xFFFE) = 0xFFFE" by (simp add: word_unat_eq_iff)
  also have "unat (ch AND 0xFFFE) = unat ch mod 65536 div 2 * 2"
    unfolding m and.assoc [symmetric] unat_and_not_mask unat_and_mask by simp
  also have "unat ch mod 65536 div 2 * 2 = 0xFFFE \<longleftrightarrow> \<not> unat ch mod 65536 < 0xFFFE"
  proof -
    have "n div 2 = 32767 \<longleftrightarrow> \<not> n < 0xFFFE" if "n < 65536" for n :: nat
      using that by (subst nat_div_eq_iff) auto
    moreover have "n div 2 * 2 = 0xFFFE \<longleftrightarrow> n div 2 = 32767" for n :: nat by simp
    ultimately have "n div 2 * 2 = 0xFFFE \<longleftrightarrow> \<not> n < 0xFFFE" if "n < 65536" for n :: nat using that by blast
    then show ?thesis by simp
  qed
  finally have b: "ch AND 0xFFFE = 0xFFFE \<longleftrightarrow> \<not> unat ch mod 65536 < 0xFFFE" .
  show ?thesis unfolding is_unicode_valid_def s b scalar_ok_def by (auto simp: word_le_nat_alt)
qed

subsection \<open>Sequences\<close>

abbreviation B :: "bytes \<Rightarrow> nat \<Rightarrow> nat" where
  "B s i \<equiv> unat (char_at s i)"

definition seq2 :: "bytes \<Rightarrow> nat" where "seq2 s = B s 0 mod 32 * 64 + B s 1 mod 64"
definition seq3 :: "bytes \<Rightarrow> nat" where "seq3 s = (B s 0 mod 16 * 64 + B s 1 mod 64) * 64 + B s 2 mod 64"
definition seq4 :: "bytes \<Rightarrow> nat" where
  "seq4 s = ((B s 0 mod 8 * 64 + B s 1 mod 64) * 64 + B s 2 mod 64) * 64 + B s 3 mod 64"

lemma is_cont: "is_continuation_char (char_at s i) \<longleftrightarrow> B s i div 64 = 2"
  by (simp add: is_continuation_char_def high_bits)

lemma scalar_small: "n < 0xD800 \<Longrightarrow> scalar_ok n"
  by (simp add: scalar_ok_def)

lemma unat_ucast_byte: "unat (ucast (b :: byte) :: 32 word) = unat b"
proof -
  have "unat b < 2 ^ 32" by (rule less_trans [OF unsigned_less]) simp
  then show ?thesis by (simp add: unsigned_ucast_eq take_bit_eq_mod)
qed

lemma even_part_small:
  fixes a b :: nat
  assumes "b < 64"
  shows "a div 2 * 2 * 64 + b < 128 \<longleftrightarrow> a < 2"
proof (cases "a < 2")
  case False
  then have "1 \<le> a div 2" by (simp add: less_eq_div_iff_mult_less_eq)
  then have "\<not> a div 2 * 2 * 64 + b < 128" by linarith
  then show ?thesis using False by simp
qed (use assms in simp)

lemma utf8_sequence_2:
  assumes b: "B s 0 div 32 = 6"
  shows "utf8_sequence s = (if B s 1 div 64 = 2 \<and> 128 \<le> seq2 s then Some 2 else None)"
proof -
  let ?v = "ucast (char_at s 0 AND 0x1e) :: 32 word"
  let ?w = "merge_continuation_char ?v (char_at s 1)"
  have v: "unat ?v = B s 0 mod 32 div 2 * 2" unfolding unat_ucast_byte low_bits by (rule refl)
  have l: "B s 0 mod 32 < 32" by simp
  then have "unat ?v < 67108864" unfolding v by linarith
  then have w: "unat ?w = B s 0 mod 32 div 2 * 2 * 64 + B s 1 mod 64" by (simp only: unat_merge v)
  have m: "B s 1 mod 64 < 64" by simp
  have "unat ?w < 0xD800" unfolding w using l m by linarith
  then have u: "is_unicode_valid ?w" by (simp add: is_unicode_valid_iff scalar_small)
  have "?w < 128 \<longleftrightarrow> unat ?w < 128" by (simp add: word_less_nat_alt)
  also have "\<dots> \<longleftrightarrow> B s 0 mod 32 < 2" unfolding w using m by (rule even_part_small)
  also have "\<dots> \<longleftrightarrow> \<not> 128 \<le> seq2 s" unfolding seq2_def using m by linarith
  finally have "?w < 128 \<longleftrightarrow> \<not> 128 \<le> seq2 s" .
  then show ?thesis using b u
    by (simp add: utf8_sequence_def Let_def high_bits is_cont)
qed

lemma utf8_sequence_3:
  assumes b: "B s 0 div 16 = 14"
  shows "utf8_sequence s =
    (if B s 1 div 64 = 2 \<and> B s 2 div 64 = 2 \<and> 2048 \<le> seq3 s \<and> scalar_ok (seq3 s) then Some 3 else None)"
proof -
  let ?v = "ucast (char_at s 0 AND 0x0f) :: 32 word"
  let ?w = "merge_continuation_char ?v (char_at s 1)"
  let ?x = "merge_continuation_char ?w (char_at s 2)"
  have v: "unat ?v = B s 0 mod 16" unfolding unat_ucast_byte low_bits by (rule refl)
  have l: "B s 0 mod 16 < 16" "B s 1 mod 64 < 64" by simp_all
  have "unat ?v < 67108864" unfolding v using l by linarith
  then have w: "unat ?w = B s 0 mod 16 * 64 + B s 1 mod 64" by (simp only: unat_merge v)
  have "unat ?w < 67108864" unfolding w using l by linarith
  then have x: "unat ?x = seq3 s" by (simp only: unat_merge w seq3_def)
  have "?x < 2048 \<longleftrightarrow> seq3 s < 2048" using x by (simp add: word_less_nat_alt)
  moreover have "is_unicode_valid ?x = scalar_ok (seq3 s)" by (simp only: is_unicode_valid_iff x)
  moreover have "\<not> B s 0 div 32 = 6" using b by (simp add: nat_div_eq_iff)
  ultimately show ?thesis using b
    by (simp add: utf8_sequence_def Let_def high_bits is_cont numeral_2_eq_2)
qed

lemma utf8_sequence_4:
  assumes b: "B s 0 div 8 = 30"
  shows "utf8_sequence s = (if B s 1 div 64 = 2 \<and> B s 2 div 64 = 2 \<and> B s 3 div 64 = 2 \<and> 65536 \<le> seq4 s \<and>
    scalar_ok (seq4 s) then Some 4 else None)"
proof -
  let ?v = "ucast (char_at s 0 AND 0x07) :: 32 word"
  let ?w = "merge_continuation_char ?v (char_at s 1)"
  let ?x = "merge_continuation_char ?w (char_at s 2)"
  let ?y = "merge_continuation_char ?x (char_at s 3)"
  have v: "unat ?v = B s 0 mod 8" unfolding unat_ucast_byte low_bits by (rule refl)
  have l: "B s 0 mod 8 < 8" "B s 1 mod 64 < 64" "B s 2 mod 64 < 64" by simp_all
  have "unat ?v < 67108864" unfolding v using l by linarith
  then have w: "unat ?w = B s 0 mod 8 * 64 + B s 1 mod 64" by (simp only: unat_merge v)
  have "unat ?w < 67108864" unfolding w using l by linarith
  then have x: "unat ?x = (B s 0 mod 8 * 64 + B s 1 mod 64) * 64 + B s 2 mod 64" by (simp only: unat_merge w)
  have "(a * 64 + b) * 64 + c < 67108864" if "a < 8" "b < 64" "c < 64" for a b c :: nat
    using that by (simp add: less_trans [of _ 32768])
  from this [OF l] have "unat ?x < 67108864" unfolding x .
  then have y: "unat ?y = seq4 s" by (simp only: unat_merge x seq4_def)
  have "?y < 65536 \<longleftrightarrow> seq4 s < 65536" using y by (simp add: word_less_nat_alt)
  moreover have "is_unicode_valid ?y = scalar_ok (seq4 s)" by (simp only: is_unicode_valid_iff y)
  moreover have "\<not> B s 0 div 32 = 6" "\<not> B s 0 div 16 = 14" using b by (simp_all add: nat_div_eq_iff)
  ultimately show ?thesis using b
    by (simp add: utf8_sequence_def Let_def high_bits is_cont numeral_2_eq_2 numeral_3_eq_3)
qed

lemma utf8_sequence_other:
  assumes "B s 0 div 32 \<noteq> 6" "B s 0 div 16 \<noteq> 14" "B s 0 div 8 \<noteq> 30"
  shows "utf8_sequence s = None"
  using assms by (simp add: utf8_sequence_def Let_def high_bits)

subsection \<open>The encoding of a code point\<close>

definition utf8_encode :: "nat \<Rightarrow> bytes" where
  "utf8_encode n =
     (if n < 128 then [of_nat n]
      else if n < 2048 then [of_nat (192 + n div 64), of_nat (128 + n mod 64)]
      else if n < 65536 then [of_nat (224 + n div 4096), of_nat (128 + n div 64 mod 64), of_nat (128 + n mod 64)]
      else [of_nat (240 + n div 262144), of_nat (128 + n div 4096 mod 64), of_nat (128 + n div 64 mod 64),
            of_nat (128 + n mod 64)])"

lemma unat_byte: "n < 256 \<Longrightarrow> unat (of_nat n :: byte) = n"
  by (simp add: unat_of_nat)

lemma byte_parts:
  fixes q d n :: nat
  assumes "n < d" "q * d + d \<le> 256"
  shows "unat (of_nat (q * d + n) :: byte) div d = q" "unat (of_nat (q * d + n) :: byte) mod d = n"
  using assms by (simp_all add: unat_byte del: of_nat_add of_nat_mult)

lemmas lead_cont_bytes =
  byte_parts [where d = 64 and q = 2, simplified] byte_parts [where d = 32 and q = 6, simplified]
  byte_parts [where d = 16 and q = 14, simplified] byte_parts [where d = 8 and q = 30, simplified]

lemma byte_split: "unat c div d = q \<Longrightarrow> c = of_nat (q * d + unat c mod d)" for c :: byte
  using div_mult_mod_eq [of "unat c" d] by (simp del: of_nat_add of_nat_mult)

lemma char_at_inside: "B s i div 64 = 2 \<Longrightarrow> i < length s"
  by (cases "i < length s") (auto simp: char_at_def)

lemma scalar_less: "scalar_ok n \<Longrightarrow> n < 0x110000"
  by (simp add: scalar_ok_def)

lemma digits_join:
  fixes n :: nat
  shows "(n div 4096 * 64 + n div 64 mod 64) * 64 + n mod 64 = n"
    "((n div 262144 * 64 + n div 4096 mod 64) * 64 + n div 64 mod 64) * 64 + n mod 64 = n"
proof -
  have d: "n div 4096 = n div 64 div 64" "n div 262144 = n div 64 div 64 div 64"
    by (simp_all add: div_mult2_eq [symmetric])
  show "(n div 4096 * 64 + n div 64 mod 64) * 64 + n mod 64 = n"
    "((n div 262144 * 64 + n div 4096 mod 64) * 64 + n div 64 mod 64) * 64 + n mod 64 = n"
    unfolding d div_mult_mod_eq by (rule refl)+
qed

lemma encode_sequence:
  assumes "scalar_ok n" "128 \<le> n"
  shows "utf8_sequence (utf8_encode n @ r) = Some (length (utf8_encode n))"
proof -
  consider "n < 2048" | "2048 \<le> n" "n < 65536" | "65536 \<le> n" by linarith
  then show ?thesis
  proof cases
    case 1
    then have "n div 64 < 32" by (simp add: div_less_iff_less_mult)
    then show ?thesis using 1 assms
      by (subst utf8_sequence_2) (simp_all add: utf8_encode_def char_at_def seq2_def lead_cont_bytes)
  next
    case 2
    then have "n div 4096 < 16" by (simp add: div_less_iff_less_mult)
    then have "seq3 (utf8_encode n @ r) = n" using 2 digits_join(1) [of n]
      by (simp add: utf8_encode_def char_at_def seq3_def lead_cont_bytes)
    then show ?thesis using 2 assms \<open>n div 4096 < 16\<close>
      by (subst utf8_sequence_3) (simp_all add: utf8_encode_def char_at_def lead_cont_bytes)
  next
    case 3
    then have "n div 262144 < 8" using scalar_less [OF assms(1)] by (simp add: div_less_iff_less_mult)
    then have "seq4 (utf8_encode n @ r) = n" using 3 digits_join(2) [of n]
      by (simp add: utf8_encode_def char_at_def seq4_def lead_cont_bytes)
    then show ?thesis using 3 assms \<open>n div 262144 < 8\<close>
      by (subst utf8_sequence_4) (simp_all add: utf8_encode_def char_at_def lead_cont_bytes)
  qed
qed


lemma digits_split:
  fixes a b c d :: nat
  assumes "b < 64" "c < 64" "d < 64"
  shows "(a * 64 + b) div 64 = a" "(a * 64 + b) mod 64 = b"
    "((a * 64 + b) * 64 + c) div 4096 = a" "((a * 64 + b) * 64 + c) div 64 mod 64 = b"
    "(((a * 64 + b) * 64 + c) * 64 + d) div 262144 = a" "(((a * 64 + b) * 64 + c) * 64 + d) div 4096 mod 64 = b"
    "(((a * 64 + b) * 64 + c) * 64 + d) div 64 mod 64 = c"
proof -
  have e: "n div 4096 = n div 64 div 64" "n div 262144 = n div 64 div 64 div 64" for n :: nat
    by (simp_all add: div_mult2_eq [symmetric])
  have s: "(x * 64 + y) div 64 = x" "(x * 64 + y) mod 64 = y" if "y < 64" for x y :: nat using that by simp_all
  show "(a * 64 + b) div 64 = a" "(a * 64 + b) mod 64 = b"
    "((a * 64 + b) * 64 + c) div 4096 = a" "((a * 64 + b) * 64 + c) div 64 mod 64 = b"
    "(((a * 64 + b) * 64 + c) * 64 + d) div 262144 = a" "(((a * 64 + b) * 64 + c) * 64 + d) div 4096 mod 64 = b"
    "(((a * 64 + b) * 64 + c) * 64 + d) div 64 mod 64 = c"
    unfolding e s [OF assms(3)] s [OF assms(2)] s [OF assms(1)] by (rule refl)+
qed

lemma take_chars: "n \<le> length s \<Longrightarrow> take n s = map (char_at s) [0..<n]"
  by (rule nth_equalityI) (auto simp: char_at_def)

lemma take_few:
  "1 < length s \<Longrightarrow> take 2 s = [char_at s 0, char_at s 1]"
  "2 < length s \<Longrightarrow> take 3 s = [char_at s 0, char_at s 1, char_at s 2]"
  "3 < length s \<Longrightarrow> take 4 s = [char_at s 0, char_at s 1, char_at s 2, char_at s 3]"
  by (simp_all add: take_chars upt_rec numeral_2_eq_2 numeral_3_eq_3)

lemma three_digits: "a < 16 \<Longrightarrow> b < 64 \<Longrightarrow> c < 64 \<Longrightarrow> (a * 64 + b) * 64 + c < 65536" for a b c :: nat
  by simp

lemma sequence_encode:
  assumes "utf8_sequence s = Some n"
  shows "\<exists>cp. scalar_ok cp \<and> 128 \<le> cp \<and> n = length (utf8_encode cp) \<and> take n s = utf8_encode cp"
proof -
  have c: "char_at s i = of_nat (128 + B s i mod 64)" if "B s i div 64 = 2" for i
    using byte_split [OF that] by simp
  have m: "B s i mod 64 < 64" for i by simp
  consider "B s 0 div 32 = 6" | "B s 0 div 16 = 14" | "B s 0 div 8 = 30"
    using assms utf8_sequence_other by fastforce
  then show ?thesis
  proof cases
    case 1
    then have b: "B s 1 div 64 = 2" "128 \<le> seq2 s" "n = 2"
      using assms by (simp_all add: utf8_sequence_2 split: if_splits)
    have "B s 0 mod 32 < 32" by simp
    then have k: "seq2 s < 2048" unfolding seq2_def using m [of 1] by linarith
    have "take n s = [char_at s 0, char_at s 1]" using b(3) char_at_inside [OF b(1)] by (simp add: take_few)
    also have "\<dots> = utf8_encode (seq2 s)"
      using b k c [OF b(1)] byte_split [OF 1] by (simp add: utf8_encode_def) (simp add: seq2_def)
    finally show ?thesis using b k by (intro exI [of _ "seq2 s"]) (simp add: scalar_small utf8_encode_def)
  next
    case 2
    then have b: "B s 1 div 64 = 2" "B s 2 div 64 = 2" "2048 \<le> seq3 s" "scalar_ok (seq3 s)" "n = 3"
      using assms by (simp_all add: utf8_sequence_3 split: if_splits)
    have "B s 0 mod 16 < 16" by simp
    then have k: "seq3 s < 65536" unfolding seq3_def using m [of 1] m [of 2] by (rule three_digits)
    have t: "take n s = [char_at s 0, char_at s 1, char_at s 2]"
      using b(5) char_at_inside [OF b(2)] by (simp add: take_few)
    have "seq3 s div 4096 = B s 0 mod 16" "seq3 s div 64 mod 64 = B s 1 mod 64" "seq3 s mod 64 = B s 2 mod 64"
      unfolding seq3_def by (rule digits_split [OF m m m])+
    then have "[char_at s 0, char_at s 1, char_at s 2] = utf8_encode (seq3 s)"
      using b(3) k c [OF b(1)] c [OF b(2)] byte_split [OF 2] by (simp add: utf8_encode_def)
    with t show ?thesis using b k by (intro exI [of _ "seq3 s"]) (simp add: utf8_encode_def)
  next
    case 3
    then have b: "B s 1 div 64 = 2" "B s 2 div 64 = 2" "B s 3 div 64 = 2" "65536 \<le> seq4 s" "scalar_ok (seq4 s)" "n = 4"
      using assms by (simp_all add: utf8_sequence_4 split: if_splits)
    have t: "take n s = [char_at s 0, char_at s 1, char_at s 2, char_at s 3]"
      using b(6) char_at_inside [OF b(3)] by (simp add: take_few)
    have "seq4 s div 262144 = B s 0 mod 8" "seq4 s div 4096 mod 64 = B s 1 mod 64"
      "seq4 s div 64 mod 64 = B s 2 mod 64" "seq4 s mod 64 = B s 3 mod 64"
      unfolding seq4_def by (rule digits_split [OF m m m])+
    then have "[char_at s 0, char_at s 1, char_at s 2, char_at s 3] = utf8_encode (seq4 s)"
      using b(4) c [OF b(1)] c [OF b(2)] c [OF b(3)] byte_split [OF 3] by (simp add: utf8_encode_def)
    with t show ?thesis using b by (intro exI [of _ "seq4 s"]) (simp add: utf8_encode_def)
  qed
qed


subsection \<open>The loop\<close>

lemma utf8_encode_ascii: "n < 128 \<Longrightarrow> utf8_encode n = [of_nat n]"
  by (simp add: utf8_encode_def)

lemma byte_less_128: "c < 128 \<longleftrightarrow> unat c < 128" for c :: byte
  by (simp add: word_less_nat_alt)

lemma encode_lead:
  assumes "scalar_ok n" "128 \<le> n"
  obtains c cs where "utf8_encode n = c # cs" "\<not> c < 128"
proof -
  have "n < 2048 \<Longrightarrow> n div 64 < 32" "n < 65536 \<Longrightarrow> n div 4096 < 16" "n div 262144 < 8"
    using scalar_less [OF assms(1)] by (simp_all add: div_less_iff_less_mult)
  then show thesis using assms that
    by (cases "n < 2048"; cases "n < 65536")
      (auto simp: utf8_encode_def byte_less_128 unat_byte simp del: of_nat_add)
qed

lemma validate_encode:
  assumes "scalar_ok n"
  shows "utf8_validate (utf8_encode n @ r) out = map_option (append (utf8_encode n)) (utf8_validate r out)"
proof (cases "n < 128")
  case True
  have "append [of_nat n :: byte] = Cons (of_nat n)" by auto
  with True show ?thesis by (simp add: utf8_encode_ascii byte_less_128 unat_byte)
next
  case False
  then obtain c cs where e: "utf8_encode n = c # cs" "\<not> c < 128" using assms encode_lead by (metis leI)
  then show ?thesis using encode_sequence [OF assms, of r] False by simp
qed

lemma validate_encodes:
  assumes "\<forall>n \<in> set cps. scalar_ok n"
  shows "utf8_validate (concat (map utf8_encode cps) @ r) out =
    map_option (append (concat (map utf8_encode cps))) (utf8_validate r out)"
  using assms
proof (induction cps)
  case Nil
  show ?case by (cases "utf8_validate r out") auto
qed (auto simp: validate_encode option.map_comp comp_def intro!: option.map_cong)

lemma scalar_ascii: "c < 128 \<Longrightarrow> scalar_ok (unat c) \<and> utf8_encode (unat c) = [c]" for c :: byte
  by (simp add: byte_less_128 utf8_encode_ascii scalar_small)

lemma validate_decodes:
  "utf8_validate s out = Some t \<Longrightarrow>
    (\<exists>cps. (\<forall>n \<in> set cps. scalar_ok n) \<and> t = concat (map utf8_encode cps)) \<and> (\<not> out \<longrightarrow> t = s)"
proof (induction s out arbitrary: t rule: utf8_validate.induct)
  case (1 out)
  then show ?case by (auto intro: exI [of _ "[]"])
next
  case (2 c cs out)
  consider (a) "c < 128" | (m) n where "\<not> c < 128" "utf8_sequence (c # cs) = Some n"
    | (e) "\<not> c < 128" "utf8_sequence (c # cs) = None" by fastforce
  then show ?case
  proof cases
    case a
    then obtain u where u: "utf8_validate cs out = Some u" "t = c # u" using "2.prems" by auto
    from "2.IH"(1) [OF a u(1)] obtain cps where "\<forall>n \<in> set cps. scalar_ok n" "u = concat (map utf8_encode cps)"
      and "\<not> out \<longrightarrow> u = cs" by blast
    then show ?thesis using scalar_ascii [OF a] u by (intro conjI exI [of _ "unat c # cps"]) auto
  next
    case m
    then obtain u where u: "utf8_validate (drop (n - 1) cs) out = Some u" "t = take n (c # cs) @ u"
      using "2.prems" by auto
    from sequence_encode [OF m(2)] obtain cp where cp: "scalar_ok cp" "n = length (utf8_encode cp)" "128 \<le> cp"
      "take n (c # cs) = utf8_encode cp" by blast
    then have "0 < n" by (metis encode_lead length_greater_0_conv list.discI)
    then have d: "drop n (c # cs) = drop (n - 1) cs" by (cases n) auto
    from "2.IH"(3) [OF m u(1)] obtain cps where "\<forall>n \<in> set cps. scalar_ok n" "u = concat (map utf8_encode cps)"
      and "\<not> out \<longrightarrow> u = drop (n - 1) cs" by blast
    then show ?thesis using cp u append_take_drop_id [of n "c # cs"] unfolding d
      by (intro conjI exI [of _ "cp # cps"]) auto
  next
    case e
    then obtain u where u: "utf8_validate cs out = Some u" "t = FILTER_CHAR # u" "out"
      using "2.prems" by (auto split: if_splits)
    from "2.IH"(2) [OF e u(3) u(1)] obtain cps where "\<forall>n \<in> set cps. scalar_ok n" "u = concat (map utf8_encode cps)"
      by blast
    moreover have "FILTER_CHAR < 128" by (simp add: FILTER_CHAR_def)
    ultimately show ?thesis using scalar_ascii [OF \<open>FILTER_CHAR < 128\<close>] u
      by (intro conjI exI [of _ "unat FILTER_CHAR # cps"]) auto
  qed
qed

lemma validate_output: "utf8_validate s True \<noteq> None"
  by (induction s True rule: utf8_validate.induct) (auto split: option.splits)

text \<open>
  C19: \<open>pa_utf8_valid\<close> accepts exactly the concatenations of UTF-8 encodings of admitted code points.
\<close>
theorem utf8_valid_iff_encoded:
  "pa_utf8_valid s \<longleftrightarrow> (\<exists>cps. (\<forall>n \<in> set cps. scalar_ok n) \<and> s = concat (map utf8_encode cps))"
proof
  assume "pa_utf8_valid s"
  then obtain t where "utf8_validate s False = Some t" by (auto simp: pa_utf8_valid_def)
  from validate_decodes [OF this] show "\<exists>cps. (\<forall>n \<in> set cps. scalar_ok n) \<and> s = concat (map utf8_encode cps)" by auto
next
  assume "\<exists>cps. (\<forall>n \<in> set cps. scalar_ok n) \<and> s = concat (map utf8_encode cps)"
  then obtain cps where "\<forall>n \<in> set cps. scalar_ok n" "s = concat (map utf8_encode cps)" by blast
  then show "pa_utf8_valid s" using validate_encodes [of cps "[]" False] by (simp add: pa_utf8_valid_def)
qed

theorem utf8_valid_iff_encoded_witness:
  "pa_utf8_valid [0x61, 0xe2, 0x82, 0xac] \<and>
   (\<exists>cps. (\<forall>n \<in> set cps. scalar_ok n) \<and> [0x61, 0xe2, 0x82, 0xac] = concat (map utf8_encode cps))"
proof -
  have "scalar_ok 0x61 \<and> scalar_ok 0x20ac \<and> [0x61, 0xe2, 0x82, 0xac] = concat (map utf8_encode [0x61, 0x20ac])"
    by (simp add: scalar_ok_def utf8_encode_def)
  then have "\<exists>cps. (\<forall>n \<in> set cps. scalar_ok n) \<and> [0x61, 0xe2, 0x82, 0xac] = concat (map utf8_encode cps)"
    by (intro exI [of _ "[0x61, 0x20ac]"]) simp
  then show ?thesis using utf8_valid_iff_encoded [of "[0x61, 0xe2, 0x82, 0xac]"] by simp
qed

text \<open>
  \<open>pa_utf8_filter\<close> always returns, its result is valid, and it returns valid strings unchanged.
\<close>
lemma utf8_filter_valid:
  "\<exists>t. pa_utf8_filter s = Some t \<and> pa_utf8_valid t \<and> (pa_utf8_valid s \<longrightarrow> t = s)"
proof -
  obtain t where t: "utf8_validate s True = Some t" using validate_output [of s] by blast
  from validate_decodes [OF t] obtain cps where "\<forall>n \<in> set cps. scalar_ok n" "t = concat (map utf8_encode cps)" by blast
  then have "pa_utf8_valid t" using validate_encodes [of cps "[]" False] by (simp add: pa_utf8_valid_def)
  moreover have "t = s" if v: "pa_utf8_valid s"
  proof -
    obtain u where "utf8_validate s False = Some u" using v by (auto simp: pa_utf8_valid_def)
    from validate_decodes [OF this] obtain cps where "\<forall>n \<in> set cps. scalar_ok n" "s = concat (map utf8_encode cps)"
      by blast
    then show ?thesis using validate_encodes [of cps "[]" True] t by simp
  qed
  ultimately show ?thesis using t by (simp add: pa_utf8_filter_def)
qed

end
