(* ===== verification/Text_Util.thy ===== *)
theory Text_Util
  imports Bits
begin

text \<open>
  The string helpers of \<open>src/pulsecore/core-util.c\<close> and \<open>src/pulse/xmalloc.c\<close> that the property
  lists use: hexadecimal texts, backslash escapes and bounded copies.
\<close>

unbundle bit_operations_syntax

subsection \<open>Code\<close>

definition pa_xstrndup :: "bytes \<Rightarrow> nat \<Rightarrow> bytes" where
  "pa_xstrndup s l = takeWhile (\<lambda>c. c \<noteq> 0) (take l s)"

text \<open>The digit \<open>hex[n]\<close> of the table \<open>0123456789abcdef\<close>.\<close>

definition hex_digit :: "byte \<Rightarrow> byte" where
  "hex_digit n = (if n < 10 then 0x30 + n else 0x61 + (n - 10))"

fun hexstr_loop :: "nat \<Rightarrow> nat \<Rightarrow> bytes \<Rightarrow> bytes" where
  "hexstr_loop slength j [] = []"
| "hexstr_loop slength j (d # ds) =
     (if j + 2 < slength
      then hex_digit (drop_bit 4 d) # hex_digit (d AND 0xF) # hexstr_loop slength (j + 2) ds
      else [])"

definition pa_hexstr :: "bytes \<Rightarrow> nat \<Rightarrow> bytes option" where
  "pa_hexstr d slength = do {
     pa_assert (slength > 0);
     Some (hexstr_loop slength 0 d) }"

definition hexc :: "byte \<Rightarrow> int" where
  "hexc c =
     (if c \<ge> 0x30 \<and> c \<le> 0x39 then uint (c - 0x30)
      else if c \<ge> 0x41 \<and> c \<le> 0x46 then uint (c - 0x41 + 10)
      else if c \<ge> 0x61 \<and> c \<le> 0x66 then uint (c - 0x61 + 10)
      else - 1)"

text \<open>The parsed bytes; \<^term>\<open>None\<close> is the return value \<open>(size_t) -1\<close>.\<close>

fun parsehex_loop :: "nat \<Rightarrow> nat \<Rightarrow> bytes \<Rightarrow> bytes option" where
  "parsehex_loop dlength j [] = Some []"
| "parsehex_loop dlength j [c] = (if j < dlength then None else Some [])"
| "parsehex_loop dlength j (c # c' # p) =
     (if j < dlength then
        if hexc c < 0 then None
        else if hexc c' < 0 then None
        else map_option (Cons (push_bit 4 (of_int (hexc c)) OR of_int (hexc c'))) (parsehex_loop dlength (j + 1) p)
      else Some [])"

definition pa_parsehex :: "bytes \<Rightarrow> nat \<Rightarrow> bytes option" where
  "pa_parsehex p dlength = parsehex_loop dlength 0 p"

fun pa_escape :: "bytes \<Rightarrow> bytes \<Rightarrow> bytes" where
  "pa_escape [] chars = []"
| "pa_escape (s # ss) chars =
     (if s = 0x5c \<or> s \<in> set chars then 0x5c # s # pa_escape ss chars else s # pa_escape ss chars)"

fun unescape_loop :: "bool \<Rightarrow> bytes \<Rightarrow> bytes" where
  "unescape_loop escaped [] = []"
| "unescape_loop escaped (s # ss) =
     (if \<not> escaped \<and> s = 0x5c then unescape_loop True ss else s # unescape_loop False ss)"

definition pa_unescape :: "bytes \<Rightarrow> bytes" where
  "pa_unescape p = unescape_loop False p"

text \<open>The white space of the C locale.\<close>

definition isspace :: "byte \<Rightarrow> bool" where
  "isspace c = (c = 0x20 \<or> (0x09 \<le> c \<and> c \<le> 0x0d))"

subsection \<open>Round trips\<close>

lemma nibbles: "drop_bit 4 d < (16 :: byte)" "d AND 0xF < (16 :: byte)"
  "push_bit 4 (drop_bit 4 d) OR (d AND 0xF) = (d :: byte)"
proof -
  have m: "(0xF :: byte) = mask 4" by (simp add: mask_eq_decr_exp)
  have "unat d < 256" using unsigned_less [of d] by simp
  then have "unat d div 16 < 16" by (simp add: div_less_iff_less_mult)
  then show "drop_bit 4 d < (16 :: byte)"
    unfolding word_less_nat_alt by (simp only: unsigned_drop_bit_eq) (simp add: drop_bit_eq_div take_bit_eq_mod)
  show "d AND 0xF < (16 :: byte)" unfolding m word_less_nat_alt unat_and_mask by simp
  show "push_bit 4 (drop_bit 4 d) OR (d AND 0xF) = (d :: byte)"
    unfolding m by (rule bit_word_eqI) (auto simp: bit_simps)
qed

lemma nat_less_16_cases:
  "n < 16 \<Longrightarrow> n \<in> {0, 1, 2, 3, 4, 5, 6, 7, 8, 9, 10, 11, 12, 13, 14, 15}" for n :: nat
  by (simp add: numeral_eq_Suc less_Suc_eq)

lemma byte_cases_16:
  assumes "n < (16 :: byte)"
  obtains k where "n = of_nat k" "k < 16"
  using assms that [of "unat n"] by (simp add: word_less_nat_alt)

lemma hexc_digit: "n < 16 \<Longrightarrow> hexc (hex_digit n) = uint n" "n < 16 \<Longrightarrow> hex_digit n \<noteq> 0 \<and> \<not> isspace (hex_digit n)"
  for n :: byte
  by (erule byte_cases_16, drule nat_less_16_cases, fastforce simp: hex_digit_def hexc_def isspace_def)+


lemma hexstr_parsehex:
  assumes "j * 2 + 2 * length d < slength" "j + length d \<le> dlength"
  shows "parsehex_loop dlength j (hexstr_loop slength (j * 2) d) = Some d"
  using assms
proof (induction d arbitrary: j)
  case (Cons b d)
  have "parsehex_loop dlength (j + 1) (hexstr_loop slength ((j + 1) * 2) d) = Some d"
    using Cons.prems by (intro Cons.IH) simp_all
  then show ?case using Cons.prems by (simp add: hexc_digit nibbles)
qed simp

text \<open>The texts of \<open>pa_hexstr\<close> are read back by \<open>pa_parsehex\<close>.\<close>

lemma hex_roundtrip:
  "\<exists>s. pa_hexstr d (length d * 2 + 1) = Some s \<and> length s = 2 * length d \<and>
     (\<forall>n \<ge> length d. pa_parsehex s n = Some d) \<and> (\<forall>c \<in> set s. 0 \<le> hexc c)"
proof -
  have l: "length (hexstr_loop (j + 2 * length d + 1) j d) = 2 * length d \<and>
      (\<forall>c \<in> set (hexstr_loop (j + 2 * length d + 1) j d). 0 \<le> hexc c)" for j
  proof (induction d arbitrary: j)
    case (Cons b d)
    show ?case using Cons.IH [of "j + 2"] by (simp add: hexc_digit nibbles)
  qed simp
  have "pa_parsehex (hexstr_loop (length d * 2 + 1) 0 d) n = Some d" if "length d \<le> n" for n
    using hexstr_parsehex [of 0 d "length d * 2 + 1" n] that by (simp add: pa_parsehex_def)
  then show ?thesis using l [of 0] by (simp add: pa_hexstr_def mult.commute)
qed

lemma escape_roundtrip: "pa_unescape (pa_escape s chars) = s"
  unfolding pa_unescape_def by (induction s) auto

end
