(* ===== verification/Strbuf.thy ===== *)
theory Strbuf
  imports Prelude
begin

text \<open>
  The string buffer \<open>src/pulsecore/strbuf.c\<close>: the texts of the linked chunks from \<open>head\<close> to
  \<open>tail\<close>, and the running \<open>length\<close>. A formatted text of \<open>pa_strbuf_printf\<close> is an argument: it is
  what \<open>vsnprintf\<close> makes of the format and its arguments.
\<close>

record pa_strbuf =
  sb_length :: nat
  sb_chunks :: "bytes list"

definition pa_strbuf_new :: pa_strbuf where
  "pa_strbuf_new = \<lparr>sb_length = 0, sb_chunks = []\<rparr>"

definition append_chunk :: "pa_strbuf \<Rightarrow> bytes \<Rightarrow> pa_strbuf" where
  "append_chunk sb c = sb\<lparr>sb_chunks := sb_chunks sb @ [c], sb_length := sb_length sb + length c\<rparr>"

text \<open>\<open>pa_strbuf_putsn\<close> copies \<open>l\<close> bytes; reading beyond \<open>t\<close> and its terminator is \<^term>\<open>None\<close>.\<close>

definition pa_strbuf_putsn :: "pa_strbuf \<Rightarrow> bytes \<Rightarrow> nat \<Rightarrow> pa_strbuf option" where
  "pa_strbuf_putsn sb t l =
     (if l = 0 then Some sb
      else if l \<le> length t + 1 then Some (append_chunk sb (take l (t @ [0])))
      else None)"

definition pa_strbuf_puts :: "pa_strbuf \<Rightarrow> bytes \<Rightarrow> pa_strbuf option" where
  "pa_strbuf_puts sb t = pa_strbuf_putsn sb t (length t)"

definition pa_strbuf_putc :: "pa_strbuf \<Rightarrow> byte \<Rightarrow> pa_strbuf option" where
  "pa_strbuf_putc sb c = pa_strbuf_putsn sb [c] 1"

text \<open>
  \<open>vsnprintf\<close> writes at most \<open>size - 1\<close> characters and returns the length of the whole text, or
  a negative number when that is no \<open>int\<close>.
\<close>

definition vsnprintf :: "bytes \<Rightarrow> nat \<Rightarrow> bytes \<times> int" where
  "vsnprintf text sz = (take (sz - 1) text, if length text < 2 ^ 31 then int (length text) else - 1)"

partial_function (option) printf_loop :: "pa_strbuf \<Rightarrow> bytes \<Rightarrow> nat \<Rightarrow> (pa_strbuf \<times> nat) option" where
  "printf_loop sb text sz =
     (let (written, r) = vsnprintf text sz
      in if r > - 1 \<and> nat r < sz then Some (append_chunk sb (take (nat r) written), nat r)
         else if r > - 1 then printf_loop sb text (nat r + 1)
         else printf_loop sb text (sz * 2))"

definition pa_strbuf_printf :: "pa_strbuf \<Rightarrow> bytes \<Rightarrow> (pa_strbuf \<times> nat) option" where
  "pa_strbuf_printf sb text = printf_loop sb text 100"

definition pa_strbuf_isempty :: "pa_strbuf \<Rightarrow> bool" where
  "pa_strbuf_isempty sb = (sb_length sb \<le> 0)"

text \<open>The copy loop: \<open>t\<close> holds what has been written so far.\<close>

fun copy_chunks :: "pa_strbuf \<Rightarrow> bytes \<Rightarrow> bytes list \<Rightarrow> bytes option" where
  "copy_chunks sb t [] = Some t"
| "copy_chunks sb t (c # cs) = do {
     pa_assert (length t \<le> sb_length sb);
     copy_chunks sb (t @ c) cs }"

definition pa_strbuf_to_string :: "pa_strbuf \<Rightarrow> bytes option" where
  "pa_strbuf_to_string sb = do {
     t \<leftarrow> copy_chunks sb [] (sb_chunks sb);
     pa_assert (length t = sb_length sb);
     Some t }"

definition pa_strbuf_to_string_free :: "pa_strbuf \<Rightarrow> bytes option" where
  "pa_strbuf_to_string_free sb = pa_strbuf_to_string sb"

subsection \<open>The buffer holds the concatenation\<close>

definition sb_text :: "pa_strbuf \<Rightarrow> bytes" where
  "sb_text sb = concat (sb_chunks sb)"

definition sb_ok :: "pa_strbuf \<Rightarrow> bool" where
  "sb_ok sb \<longleftrightarrow> sb_length sb = length (sb_text sb)"

lemma sb_new [simp]: "sb_ok pa_strbuf_new" "sb_text pa_strbuf_new = []"
  by (simp_all add: sb_ok_def sb_text_def pa_strbuf_new_def)

lemma append_chunk_ok: "sb_ok sb \<Longrightarrow> sb_ok (append_chunk sb c) \<and> sb_text (append_chunk sb c) = sb_text sb @ c"
  by (simp add: sb_ok_def sb_text_def append_chunk_def)

lemma sb_empty: "sb_ok sb \<Longrightarrow> pa_strbuf_isempty sb \<longleftrightarrow> sb_text sb = []"
  by (simp add: sb_ok_def pa_strbuf_isempty_def)

lemma putsn_ok:
  assumes "sb_ok sb" "l \<le> length t"
  shows "\<exists>sb'. pa_strbuf_putsn sb t l = Some sb' \<and> sb_ok sb' \<and> sb_text sb' = sb_text sb @ take l t"
  using assms append_chunk_ok by (auto simp: pa_strbuf_putsn_def)

lemma puts_ok:
  assumes "sb_ok sb"
  shows "\<exists>sb'. pa_strbuf_puts sb t = Some sb' \<and> sb_ok sb' \<and> sb_text sb' = sb_text sb @ t"
  using putsn_ok [OF assms, of "length t" t] by (simp add: pa_strbuf_puts_def)

lemma printf_ok:
  assumes "sb_ok sb" "length text < 2 ^ 31"
  shows "\<exists>sb'. pa_strbuf_printf sb text = Some (sb', length text) \<and> sb_ok sb' \<and> sb_text sb' = sb_text sb @ text"
proof -
  have e: "printf_loop sb text sz = Some (append_chunk sb text, length text)" if "length text < sz" for sz
    using assms(2) that by (subst printf_loop.simps) (simp add: vsnprintf_def)
  have "pa_strbuf_printf sb text = Some (append_chunk sb text, length text)"
  proof (cases "length text < 100")
    case False
    then have "printf_loop sb text 100 = printf_loop sb text (length text + 1)"
      using assms(2) by (subst printf_loop.simps) (simp add: vsnprintf_def)
    then show ?thesis using e by (simp add: pa_strbuf_printf_def)
  qed (simp add: pa_strbuf_printf_def e)
  then show ?thesis using append_chunk_ok [OF assms(1)] by simp
qed

lemma copy_chunks_eq:
  "length (t @ concat cs) \<le> sb_length sb \<Longrightarrow> copy_chunks sb t cs = Some (t @ concat cs)"
  by (induction cs arbitrary: t) auto

lemma to_string_ok: "sb_ok sb \<Longrightarrow> pa_strbuf_to_string_free sb = Some (sb_text sb)"
  by (simp add: pa_strbuf_to_string_free_def pa_strbuf_to_string_def copy_chunks_eq sb_ok_def sb_text_def)

end
