(* ===== verification/Proplist.thy ===== *)
theory Proplist
  imports Hashmap_Props Utf8 Text_Util Strbuf "HOL-Library.AList"
begin

text \<open>
  Property lists, \<open>src/pulse/proplist.c\<close>: a hash map from keys to \<open>struct property\<close> objects, which
  the operations change in place. The objects live in a heap of their own; a freed object is
  \<^term>\<open>None\<close> there, and using or freeing it again is the abnormal end of an operation. The bytes
  \<open>pr_value\<close> are the \<open>nbytes\<close> bytes of a value (the code keeps a zero behind them).
\<close>

subsection \<open>State\<close>

record property =
  pr_key :: bytes
  pr_value :: bytes

record pa_proplist =
  pl_map :: "(bytes, nat) pa_hashmap"
  pl_heap :: "property option list"

definition deref :: "pa_proplist \<Rightarrow> nat \<Rightarrow> property option" where
  "deref p a = (if a < length (pl_heap p) then pl_heap p ! a else None)"

definition property_free :: "nat \<Rightarrow> property option list \<Rightarrow> property option list option" where
  "property_free a heap = (if a < length heap \<and> heap ! a \<noteq> None then Some (heap[a := None]) else None)"

fun free_values :: "nat list \<Rightarrow> property option list \<Rightarrow> property option list option" where
  "free_values [] heap = Some heap"
| "free_values (a # as) heap = do { heap \<leftarrow> property_free a heap; free_values as heap }"

subsection \<open>Setting and getting\<close>

definition pa_proplist_key_valid :: "bytes \<Rightarrow> bool" where
  "pa_proplist_key_valid key = (if \<not> pa_ascii_valid key then False else if length key \<le> 0 then False else True)"

definition pa_proplist_new :: pa_proplist where
  "pa_proplist_new =
     \<lparr>pl_map = pa_hashmap_new_full pa_idxset_string_hash_func pa_idxset_string_compare_func False True, pl_heap = []\<rparr>"

definition pa_proplist_free :: "pa_proplist \<Rightarrow> property option list option" where
  "pa_proplist_free p = do {
     (keys, values) \<leftarrow> pa_hashmap_free (pl_map p);
     free_values values (pl_heap p) }"

text \<open>
  The common part of the setters: the object of the key is looked up, or made and put into the
  map, and its value replaced.
\<close>

definition set_value :: "pa_proplist \<Rightarrow> bytes \<Rightarrow> bytes \<Rightarrow> pa_proplist option" where
  "set_value p key value = do {
     prop \<leftarrow> pa_hashmap_get (pl_map p) key;
     (case prop of
        None \<Rightarrow> do {
          (h, r) \<leftarrow> pa_hashmap_put (pl_map p) key (length (pl_heap p));
          Some \<lparr>pl_map = h, pl_heap = pl_heap p @ [Some \<lparr>pr_key = key, pr_value = value\<rparr>]\<rparr> }
      | Some a \<Rightarrow> do {
          prop \<leftarrow> deref p a;
          Some (p\<lparr>pl_heap := (pl_heap p)[a := Some (prop\<lparr>pr_value := value\<rparr>)]\<rparr>) }) }"

definition pa_proplist_sets :: "pa_proplist \<Rightarrow> bytes \<Rightarrow> bytes \<Rightarrow> (pa_proplist \<times> int) option" where
  "pa_proplist_sets p key value =
     (if \<not> pa_proplist_key_valid key \<or> \<not> pa_utf8_valid value then Some (p, - 1)
      else do { p \<leftarrow> set_value p key (value @ [0]); Some (p, 0) })"

definition proplist_setn :: "pa_proplist \<Rightarrow> bytes \<Rightarrow> nat \<Rightarrow> bytes \<Rightarrow> nat \<Rightarrow> (pa_proplist \<times> int) option" where
  "proplist_setn p key key_length value value_length =
     (let k = pa_xstrndup key key_length; v = pa_xstrndup value value_length
      in if \<not> pa_proplist_key_valid k \<or> \<not> pa_utf8_valid v then Some (p, - 1)
         else do { p \<leftarrow> set_value p k (v @ [0]); Some (p, 0) })"

definition pa_proplist_setp :: "pa_proplist \<Rightarrow> bytes \<Rightarrow> (pa_proplist \<times> int) option" where
  "pa_proplist_setp p pair =
     (let t = length (takeWhile (\<lambda>c. c \<noteq> 0x3d) pair)
      in if t = length pair then Some (p, - 1)
         else proplist_setn p pair t (drop (t + 1) pair) (length pair - t - 1))"

definition proplist_sethex :: "pa_proplist \<Rightarrow> bytes \<Rightarrow> nat \<Rightarrow> bytes \<Rightarrow> nat \<Rightarrow> (pa_proplist \<times> int) option" where
  "proplist_sethex p key key_length value value_length =
     (let k = pa_xstrndup key key_length
      in if \<not> pa_proplist_key_valid k then Some (p, - 1)
         else
           (case pa_parsehex (pa_xstrndup value value_length) (value_length * 2) of
              None \<Rightarrow> Some (p, - 1)
            | Some d \<Rightarrow> do { p \<leftarrow> set_value p k d; Some (p, 0) }))"

text \<open>\<open>text\<close> is what \<open>pa_vsprintf_malloc\<close> makes of the format and the arguments.\<close>

definition pa_proplist_setf :: "pa_proplist \<Rightarrow> bytes \<Rightarrow> bytes \<Rightarrow> bytes \<Rightarrow> (pa_proplist \<times> int) option" where
  "pa_proplist_setf p key format text =
     (if \<not> pa_proplist_key_valid key \<or> \<not> pa_utf8_valid format then Some (p, - 1)
      else if \<not> pa_utf8_valid text then Some (p, - 1)
      else do { p \<leftarrow> set_value p key (text @ [0]); Some (p, 0) })"

definition pa_proplist_set :: "pa_proplist \<Rightarrow> bytes \<Rightarrow> bytes \<Rightarrow> (pa_proplist \<times> int) option" where
  "pa_proplist_set p key data =
     (if \<not> pa_proplist_key_valid key then Some (p, - 1)
      else do { p \<leftarrow> set_value p key data; Some (p, 0) })"

text \<open>The text of a value, NULL if it is no zero-terminated UTF-8 string.\<close>

definition value_text :: "bytes \<Rightarrow> bytes option" where
  "value_text value =
     (let nbytes = length value; text = takeWhile (\<lambda>c. c \<noteq> 0) value
      in if nbytes \<le> 0 then None
         else if value ! (nbytes - 1) \<noteq> 0 then None
         else if length text \<noteq> nbytes - 1 then None
         else if \<not> pa_utf8_valid text then None
         else Some text)"

text \<open>The result is \<^term>\<open>Some None\<close> for NULL.\<close>

definition pa_proplist_gets :: "pa_proplist \<Rightarrow> bytes \<Rightarrow> bytes option option" where
  "pa_proplist_gets p key =
     (if \<not> pa_proplist_key_valid key then Some None
      else do {
        a \<leftarrow> pa_hashmap_get (pl_map p) key;
        (case a of
           None \<Rightarrow> Some None
         | Some a \<Rightarrow> do { prop \<leftarrow> deref p a; Some (value_text (pr_value prop)) }) })"

text \<open>The value for the return value 0, \<^term>\<open>Some None\<close> for -1.\<close>

definition pa_proplist_get :: "pa_proplist \<Rightarrow> bytes \<Rightarrow> bytes option option" where
  "pa_proplist_get p key =
     (if \<not> pa_proplist_key_valid key then Some None
      else do {
        a \<leftarrow> pa_hashmap_get (pl_map p) key;
        (case a of
           None \<Rightarrow> Some None
         | Some a \<Rightarrow> do { prop \<leftarrow> deref p a; Some (Some (pr_value prop)) }) })"

definition pa_proplist_contains :: "pa_proplist \<Rightarrow> bytes \<Rightarrow> int option" where
  "pa_proplist_contains p key =
     (if \<not> pa_proplist_key_valid key then Some (- 1)
      else do {
        a \<leftarrow> pa_hashmap_get (pl_map p) key;
        Some (if a = None then 0 else 1) })"

subsection \<open>Removing\<close>

definition pa_proplist_unset :: "pa_proplist \<Rightarrow> bytes \<Rightarrow> (pa_proplist \<times> int) option" where
  "pa_proplist_unset p key =
     (if \<not> pa_proplist_key_valid key then Some (p, - 1)
      else do {
        (h, r, keys, values) \<leftarrow> pa_hashmap_remove_and_free (pl_map p) key;
        heap \<leftarrow> free_values values (pl_heap p);
        Some (\<lparr>pl_map = h, pl_heap = heap\<rparr>, if r < 0 then - 2 else 0) })"

fun unset_loop :: "pa_proplist \<Rightarrow> bytes list \<Rightarrow> int \<Rightarrow> (pa_proplist \<times> int) option" where
  "unset_loop p [] n = Some (p, n)"
| "unset_loop p (k # ks) n = do {
     (p, r) \<leftarrow> pa_proplist_unset p k;
     unset_loop p ks (if r \<ge> 0 then n + 1 else n) }"

definition pa_proplist_unset_many :: "pa_proplist \<Rightarrow> bytes list \<Rightarrow> (pa_proplist \<times> int) option" where
  "pa_proplist_unset_many p keys =
     (if \<not> list_all pa_proplist_key_valid keys then Some (p, - 1) else unset_loop p keys 0)"

definition pa_proplist_clear :: "pa_proplist \<Rightarrow> pa_proplist option" where
  "pa_proplist_clear p = do {
     (h, keys, values) \<leftarrow> pa_hashmap_remove_all (pl_map p);
     heap \<leftarrow> free_values values (pl_heap p);
     Some \<lparr>pl_map = h, pl_heap = heap\<rparr> }"

definition pa_proplist_size :: "pa_proplist \<Rightarrow> nat" where
  "pa_proplist_size p = pa_hashmap_size (pl_map p)"

definition pa_proplist_isempty :: "pa_proplist \<Rightarrow> bool" where
  "pa_proplist_isempty p = pa_hashmap_isempty (pl_map p)"

subsection \<open>Loops over a list\<close>

text \<open>
  The loop \<open>while ((prop = pa_hashmap_iterate(h, &state, &key)))\<close>: the body returns from the
  function (\<^term>\<open>Inl r\<close>) or goes on with new locals (\<^term>\<open>Inr acc\<close>).
\<close>

partial_function (option) iterate_loop ::
    "('k, 'v) pa_hashmap \<Rightarrow> ('acc \<Rightarrow> 'k \<Rightarrow> 'v \<Rightarrow> ('r + 'acc) option) \<Rightarrow>
       ('k, 'v) hashmap_entry iter_state \<Rightarrow> 'acc \<Rightarrow> ('r + 'acc) option" where
  "iterate_loop h body state acc =
     (case pa_hashmap_iterate h state of
        None \<Rightarrow> None
      | Some (state', None) \<Rightarrow> Some (Inr acc)
      | Some (state', Some (k, v)) \<Rightarrow>
          (case body acc k v of
             None \<Rightarrow> None
           | Some (Inl r) \<Rightarrow> Some (Inl r)
           | Some (Inr acc') \<Rightarrow> iterate_loop h body state' acc'))"

datatype pa_update_mode = PA_UPDATE_SET | PA_UPDATE_MERGE | PA_UPDATE_REPLACE

definition update_body ::
    "pa_update_mode \<Rightarrow> pa_proplist \<Rightarrow> pa_proplist \<Rightarrow> bytes \<Rightarrow> nat \<Rightarrow> (unit + pa_proplist) option" where
  "update_body mode other p key a = do {
     prop \<leftarrow> deref other a;
     c \<leftarrow> (if mode = PA_UPDATE_MERGE then pa_proplist_contains p (pr_key prop) else Some 0);
     (if c \<noteq> 0 then Some (Inr p)
      else do {
        (p, r) \<leftarrow> pa_proplist_set p (pr_key prop) (pr_value prop);
        pa_assert (r = 0);
        Some (Inr p) }) }"

definition pa_proplist_update :: "pa_proplist \<Rightarrow> pa_update_mode \<Rightarrow> pa_proplist \<Rightarrow> pa_proplist option" where
  "pa_proplist_update p mode other = do {
     p \<leftarrow> (if mode = PA_UPDATE_SET then pa_proplist_clear p else Some p);
     r \<leftarrow> iterate_loop (pl_map other) (update_body mode other) It_null p;
     (case r of Inl () \<Rightarrow> None | Inr p \<Rightarrow> Some p) }"

definition pa_proplist_copy :: "pa_proplist option \<Rightarrow> pa_proplist option" where
  "pa_proplist_copy p =
     (case p of
        None \<Rightarrow> Some pa_proplist_new
      | Some p \<Rightarrow> pa_proplist_update pa_proplist_new PA_UPDATE_REPLACE p)"

definition equal_body :: "pa_proplist \<Rightarrow> pa_proplist \<Rightarrow> unit \<Rightarrow> bytes \<Rightarrow> nat \<Rightarrow> (int + unit) option" where
  "equal_body a b u key v = do {
     a_prop \<leftarrow> deref a v;
     w \<leftarrow> pa_hashmap_get (pl_map b) key;
     (case w of
        None \<Rightarrow> Some (Inl 0)
      | Some w \<Rightarrow> do {
          b_prop \<leftarrow> deref b w;
          Some (if length (pr_value a_prop) \<noteq> length (pr_value b_prop) then Inl 0
                else if pr_value a_prop \<noteq> pr_value b_prop then Inl 0
                else Inr ()) }) }"

text \<open>\<open>same\<close> says whether the two pointers are equal.\<close>

definition pa_proplist_equal :: "bool \<Rightarrow> pa_proplist \<Rightarrow> pa_proplist \<Rightarrow> int option" where
  "pa_proplist_equal same a b =
     (if same then Some 1
      else if pa_proplist_size a \<noteq> pa_proplist_size b then Some 0
      else do {
        r \<leftarrow> iterate_loop (pl_map a) (equal_body a b) It_null ();
        Some (case r of Inl x \<Rightarrow> x | Inr _ \<Rightarrow> 1) })"

definition pa_proplist_iterate ::
    "pa_proplist \<Rightarrow> (bytes, nat) hashmap_entry iter_state \<Rightarrow>
       ((bytes, nat) hashmap_entry iter_state \<times> bytes option) option" where
  "pa_proplist_iterate p state = do {
     (state, r) \<leftarrow> pa_hashmap_iterate (pl_map p) state;
     (case r of
        None \<Rightarrow> Some (state, None)
      | Some (_, a) \<Rightarrow> do { prop \<leftarrow> deref p a; Some (state, Some (pr_key prop)) }) }"

subsection \<open>Printing\<close>

text \<open>The loop over \<open>t\<close> that writes the value with a backslash before every double quote.\<close>

function put_quoted :: "pa_strbuf \<Rightarrow> bytes \<Rightarrow> pa_strbuf option" where
  "put_quoted buf t =
     (let h = length (takeWhile (\<lambda>c. c \<noteq> 0x22) t)
      in case (if h > 0 then pa_strbuf_putsn buf t h else Some buf) of
           None \<Rightarrow> None
         | Some buf \<Rightarrow>
             (case drop h t of
                [] \<Rightarrow> Some buf
              | c # t' \<Rightarrow>
                  if c \<noteq> 0x22 then None
                  else
                    (case pa_strbuf_puts buf [0x5c, 0x22] of
                       None \<Rightarrow> None
                     | Some buf \<Rightarrow> put_quoted buf t')))"
  by pat_completeness auto
termination
proof (relation "measure (\<lambda>(_, t). length t)", goal_cases)
  case (2 buf t h buf' c t')
  then have "length (drop h t) = Suc (length t')" by simp
  then show ?case by simp
qed simp

declare put_quoted.simps [simp del]

definition to_string_body :: "pa_proplist \<Rightarrow> bytes \<Rightarrow> pa_strbuf \<Rightarrow> bytes \<Rightarrow> pa_strbuf option" where
  "to_string_body p sep buf key = do {
     buf \<leftarrow> (if \<not> pa_strbuf_isempty buf then pa_strbuf_puts buf sep else Some buf);
     v \<leftarrow> pa_proplist_gets p key;
     (case v of
        Some v \<Rightarrow> do {
          (buf, r) \<leftarrow> pa_strbuf_printf buf (key @ [0x20, 0x3d, 0x20, 0x22]);
          buf \<leftarrow> put_quoted buf v;
          pa_strbuf_puts buf [0x22] }
      | None \<Rightarrow> do {
          value \<leftarrow> pa_proplist_get p key;
          value \<leftarrow> value;
          c \<leftarrow> pa_hexstr value (length value * 2 + 1);
          (buf, r) \<leftarrow> pa_strbuf_printf buf (key @ [0x20, 0x3d, 0x20, 0x68, 0x65, 0x78, 0x3a] @ c);
          Some buf }) }"

partial_function (option) to_string_loop ::
    "pa_proplist \<Rightarrow> bytes \<Rightarrow> (bytes, nat) hashmap_entry iter_state \<Rightarrow> pa_strbuf \<Rightarrow> pa_strbuf option" where
  "to_string_loop p sep state buf =
     (case pa_proplist_iterate p state of
        None \<Rightarrow> None
      | Some (state', None) \<Rightarrow> Some buf
      | Some (state', Some key) \<Rightarrow>
          (case to_string_body p sep buf key of
             None \<Rightarrow> None
           | Some buf' \<Rightarrow> to_string_loop p sep state' buf'))"

definition pa_proplist_to_string_sep :: "pa_proplist \<Rightarrow> bytes \<Rightarrow> bytes option" where
  "pa_proplist_to_string_sep p sep = do {
     buf \<leftarrow> to_string_loop p sep It_null pa_strbuf_new;
     pa_strbuf_to_string_free buf }"

definition pa_proplist_to_string :: "pa_proplist \<Rightarrow> bytes option" where
  "pa_proplist_to_string p = do {
     s \<leftarrow> pa_proplist_to_string_sep p [0x0a];
     Some (s @ [0x0a]) }"

subsection \<open>Parsing\<close>

datatype parse_state =
    WHITESPACE | KEY | AFTER_KEY | VALUE_START | VALUE_SIMPLE | VALUE_DOUBLE_QUOTES
  | VALUE_DOUBLE_QUOTES_ESCAPE | VALUE_TICKS | VALUE_TICKS_ESCAPED | VALUE_HEX

definition parse_fail :: "pa_proplist \<Rightarrow> pa_proplist option option" where
  "parse_fail pl = do { heap \<leftarrow> pa_proplist_free pl; Some None }"

text \<open>A quoted value at its closing quote.\<close>

definition set_quoted :: "pa_proplist \<Rightarrow> bytes \<Rightarrow> bytes \<Rightarrow> (pa_proplist \<times> int) option" where
  "set_quoted pl key value =
     (let v = pa_unescape (pa_xstrndup value (length value))
      in proplist_setn pl key (length key) v (length v))"

text \<open>
  The loop of \<open>pa_proplist_from_string\<close>. The pairs \<open>key\<close>, \<open>key_len\<close> and \<open>value\<close>, \<open>value_len\<close> are
  the strings they delimit in the input; the last argument is the string at \<open>p\<close>, empty at the
  terminator. The result is the list, or NULL after the list was freed.
\<close>

function parse_loop :: "parse_state \<Rightarrow> bytes \<Rightarrow> bytes \<Rightarrow> pa_proplist \<Rightarrow> bytes \<Rightarrow> pa_proplist option option" where
  "parse_loop WHITESPACE key value pl [] = Some (Some pl)"
| "parse_loop WHITESPACE key value pl (c # p) =
     (if c = 0x3d then parse_fail pl
      else if \<not> isspace c then parse_loop KEY [c] value pl p
      else parse_loop WHITESPACE key value pl p)"
| "parse_loop KEY key value pl [] = parse_fail pl"
| "parse_loop KEY key value pl (c # p) =
     (if c = 0x3d then parse_loop VALUE_START key value pl p
      else if isspace c then parse_loop AFTER_KEY key value pl p
      else parse_loop KEY (key @ [c]) value pl p)"
| "parse_loop AFTER_KEY key value pl [] = parse_fail pl"
| "parse_loop AFTER_KEY key value pl (c # p) =
     (if c = 0x3d then parse_loop VALUE_START key value pl p
      else if \<not> isspace c then parse_fail pl
      else parse_loop AFTER_KEY key value pl p)"
| "parse_loop VALUE_START key value pl [] = parse_fail pl"
| "parse_loop VALUE_START key value pl (c # p) =
     (if take 4 (c # p) = [0x68, 0x65, 0x78, 0x3a] then parse_loop VALUE_HEX key [] pl (drop 3 p)
      else if c = 0x27 then parse_loop VALUE_TICKS key [] pl p
      else if c = 0x22 then parse_loop VALUE_DOUBLE_QUOTES key [] pl p
      else if \<not> isspace c then parse_loop VALUE_SIMPLE key [c] pl p
      else parse_loop VALUE_START key value pl p)"
| "parse_loop VALUE_SIMPLE key value pl [] =
     (case proplist_setn pl key (length key) value (length value) of
        None \<Rightarrow> None
      | Some (pl, r) \<Rightarrow> if r < 0 then parse_fail pl else Some (Some pl))"
| "parse_loop VALUE_SIMPLE key value pl (c # p) =
     (if isspace c then
        (case proplist_setn pl key (length key) value (length value) of
           None \<Rightarrow> None
         | Some (pl, r) \<Rightarrow> if r < 0 then parse_fail pl else parse_loop WHITESPACE key value pl p)
      else parse_loop VALUE_SIMPLE key (value @ [c]) pl p)"
| "parse_loop VALUE_DOUBLE_QUOTES key value pl [] = parse_fail pl"
| "parse_loop VALUE_DOUBLE_QUOTES key value pl (c # p) =
     (if c = 0x22 then
        (case set_quoted pl key value of
           None \<Rightarrow> None
         | Some (pl, r) \<Rightarrow> if r < 0 then parse_fail pl else parse_loop WHITESPACE key value pl p)
      else if c = 0x5c then parse_loop VALUE_DOUBLE_QUOTES_ESCAPE key (value @ [c]) pl p
      else parse_loop VALUE_DOUBLE_QUOTES key (value @ [c]) pl p)"
| "parse_loop VALUE_DOUBLE_QUOTES_ESCAPE key value pl [] = parse_fail pl"
| "parse_loop VALUE_DOUBLE_QUOTES_ESCAPE key value pl (c # p) = parse_loop VALUE_DOUBLE_QUOTES key (value @ [c]) pl p"
| "parse_loop VALUE_TICKS key value pl [] = parse_fail pl"
| "parse_loop VALUE_TICKS key value pl (c # p) =
     (if c = 0x27 then
        (case set_quoted pl key value of
           None \<Rightarrow> None
         | Some (pl, r) \<Rightarrow> if r < 0 then parse_fail pl else parse_loop WHITESPACE key value pl p)
      else if c = 0x5c then parse_loop VALUE_TICKS_ESCAPED key (value @ [c]) pl p
      else parse_loop VALUE_TICKS key (value @ [c]) pl p)"
| "parse_loop VALUE_TICKS_ESCAPED key value pl [] = parse_fail pl"
| "parse_loop VALUE_TICKS_ESCAPED key value pl (c # p) = parse_loop VALUE_TICKS key (value @ [c]) pl p"
| "parse_loop VALUE_HEX key value pl [] =
     (case proplist_sethex pl key (length key) value (length value) of
        None \<Rightarrow> None
      | Some (pl, r) \<Rightarrow> if r < 0 then parse_fail pl else Some (Some pl))"
| "parse_loop VALUE_HEX key value pl (c # p) =
     (if (c \<ge> 0x30 \<and> c \<le> 0x39) \<or> (c \<ge> 0x41 \<and> c \<le> 0x46) \<or> (c \<ge> 0x61 \<and> c \<le> 0x66)
      then parse_loop VALUE_HEX key (value @ [c]) pl p
      else if isspace c then
        (case proplist_sethex pl key (length key) value (length value) of
           None \<Rightarrow> None
         | Some (pl, r) \<Rightarrow> if r < 0 then parse_fail pl else parse_loop WHITESPACE key value pl p)
      else parse_fail pl)"
  by pat_completeness auto
termination by (relation "measure (\<lambda>(_, _, _, _, p). length p)") auto

definition pa_proplist_from_string :: "bytes \<Rightarrow> pa_proplist option option" where
  "pa_proplist_from_string s = parse_loop WHITESPACE [] [] pa_proplist_new s"

end
