(* ===== verification/Proplist_Props.thy ===== *)
theory Proplist_Props
  imports Proplist
begin

text \<open>
  Correctness of property lists: a list stands for the pairs of its keys and values, in the order
  the keys were first set. The invariant \<open>pl_ok\<close> excludes dangling and leaked properties; the
  setters, unsetters, updates, copies and comparisons are the operations on pairs.
\<close>

subsection \<open>The list of pairs\<close>

definition pl_pairs :: "pa_proplist \<Rightarrow> (bytes \<times> bytes) list" where
  "pl_pairs p = map (\<lambda>(k, a). (k, pr_value (the (deref p a)))) (hm_pairs (pl_map p))"

text \<open>
  Well-formedness: the map is one, it frees its values, every address in it is a live object with
  the key it is filed under, no two keys share an object, and every live object is in the map.
\<close>

definition pl_ok :: "pa_proplist \<Rightarrow> bool" where
  "pl_ok p \<longleftrightarrow> hm_ok (pl_map p) \<and> hm_value_free (pl_map p) \<and> \<not> hm_key_free (pl_map p) \<and>
     distinct (map snd (hm_pairs (pl_map p))) \<and>
     (\<forall>(k, a) \<in> set (hm_pairs (pl_map p)). pa_proplist_key_valid k \<and>
        (\<exists>v. deref p a = Some \<lparr>pr_key = k, pr_value = v\<rparr>)) \<and>
     (\<forall>a. deref p a \<noteq> None \<longrightarrow> a \<in> snd ` set (hm_pairs (pl_map p)))"

lemma pl_pairs_fst: "map fst (pl_pairs p) = map fst (hm_pairs (pl_map p))"
  by (simp add: pl_pairs_def comp_def case_prod_unfold)

lemma pl_pairs_length: "length (pl_pairs p) = length (hm_pairs (pl_map p))"
  by (simp add: pl_pairs_def)

lemma pl_pairs_map_of: "map_of (pl_pairs p) k = map_option (\<lambda>a. pr_value (the (deref p a))) (map_of (hm_pairs (pl_map p)) k)"
  unfolding pl_pairs_def by (induction "hm_pairs (pl_map p)") (auto simp: map_of_map comp_def)

lemma pl_pairs_distinct: "pl_ok p \<Longrightarrow> distinct (map fst (pl_pairs p))"
  unfolding pl_pairs_fst by (simp add: pl_ok_def hashmap.distinct_keys)

lemma pl_pairs_key_valid: "pl_ok p \<Longrightarrow> (k, v) \<in> set (pl_pairs p) \<Longrightarrow> pa_proplist_key_valid k"
  by (auto simp: pl_ok_def pl_pairs_def)

lemma pl_get:
  assumes "pl_ok p"
  shows "pa_hashmap_get (pl_map p) k = Some (map_of (hm_pairs (pl_map p)) k)"
    "map_of (hm_pairs (pl_map p)) k = Some a \<Longrightarrow>
      \<exists>v. map_of (pl_pairs p) k = Some v \<and> deref p a = Some \<lparr>pr_key = k, pr_value = v\<rparr> \<and> pa_proplist_key_valid k"
    "map_of (hm_pairs (pl_map p)) k = None \<longleftrightarrow> map_of (pl_pairs p) k = None"
proof -
  show "pa_hashmap_get (pl_map p) k = Some (map_of (hm_pairs (pl_map p)) k)"
    using assms by (simp add: pl_ok_def hashmap.get_law)
  show "map_of (hm_pairs (pl_map p)) k = None \<longleftrightarrow> map_of (pl_pairs p) k = None" by (simp add: pl_pairs_map_of)
  show "\<exists>v. map_of (pl_pairs p) k = Some v \<and> deref p a = Some \<lparr>pr_key = k, pr_value = v\<rparr> \<and> pa_proplist_key_valid k"
    if "map_of (hm_pairs (pl_map p)) k = Some a"
    using map_of_SomeD [OF that] assms that by (fastforce simp: pl_ok_def pl_pairs_map_of)
qed

lemma proplist_new_ok: "pl_ok pa_proplist_new" "pl_pairs pa_proplist_new = []"
proof -
  define h :: "(bytes, nat) pa_hashmap" where
    "h = pa_hashmap_new_full pa_idxset_string_hash_func pa_idxset_string_compare_func False True"
  have "hm_ok h" "hm_pairs h = []" unfolding h_def
    by (intro new_full_ok; simp add: pa_idxset_string_compare_func_def strcmp_eq)+
  moreover have "hm_value_free h" "\<not> hm_key_free h" by (simp_all add: h_def pa_hashmap_new_full_def)
  ultimately show "pl_ok pa_proplist_new" "pl_pairs pa_proplist_new = []"
    by (simp_all add: pl_ok_def pl_pairs_def pa_proplist_new_def h_def [symmetric] deref_def)
qed

lemma update_absent: "map_of ps k = None \<Longrightarrow> AList.update k v ps = ps @ [(k, v)]"
  by (induction ps) (auto split: if_splits)

lemma update_present:
  "distinct (map fst ps) \<Longrightarrow> map_of ps k \<noteq> None \<Longrightarrow>
    AList.update k v ps = map (\<lambda>(k', v'). (k', if k' = k then v else v')) ps"
proof (induction ps)
  case (Cons x ps)
  show ?case
  proof (cases "fst x = k")
    case True
    then have "k \<notin> fst ` set ps" using Cons.prems(1) by auto
    then have "map (\<lambda>(k', v'). (k', if k' = k then v else v')) ps = ps" by (intro map_idI) (auto simp: rev_image_eqI)
    then show ?thesis using True by (cases x) auto
  next
    case False
    then show ?thesis using Cons by (cases x) auto
  qed
qed simp

lemma set_value_new:
  assumes ok: "pl_ok p" and k: "pa_proplist_key_valid k" and n: "map_of (pl_pairs p) k = None"
    and room: "length (pl_pairs p) + 1 < 2 ^ 32"
  shows "\<exists>p'. set_value p k v = Some p' \<and> pl_ok p' \<and> pl_pairs p' = AList.update k v (pl_pairs p)"
proof -
  have m: "map_of (hm_pairs (pl_map p)) k = None" using n pl_get(3) [OF ok] by blast
  let ?a = "length (pl_heap p)"
  obtain h where h: "pa_hashmap_put (pl_map p) k ?a = Some (h, 0)" "hm_ok h" "hm_pairs h = hm_pairs (pl_map p) @ [(k, ?a)]"
    "hm_value_free h" "\<not> hm_key_free h"
    using put_fresh [of "pl_map p" k ?a] ok m room unfolding pl_ok_def pl_pairs_length by auto
  let ?p = "\<lparr>pl_map = h, pl_heap = pl_heap p @ [Some \<lparr>pr_key = k, pr_value = v\<rparr>]\<rparr>"
  have d: "deref ?p a = (if a = ?a then Some \<lparr>pr_key = k, pr_value = v\<rparr> else deref p a)" for a
    by (auto simp: deref_def nth_append)
  have live: "a \<noteq> ?a" "\<exists>w. deref p a = Some \<lparr>pr_key = j, pr_value = w\<rparr>" if "(j, a) \<in> set (hm_pairs (pl_map p))" for j a
    using ok that by (fastforce simp: pl_ok_def deref_def split: if_splits)+
  have "?a \<notin> snd ` set (hm_pairs (pl_map p))" using live(1) by force
  then have "pl_ok ?p" unfolding pl_ok_def pa_proplist.simps d h(3)
    using ok k h live by (auto simp: pl_ok_def)
  moreover have "pl_pairs ?p = pl_pairs p @ [(k, v)]"
    unfolding pl_pairs_def pa_proplist.simps d h(3) using live(1) by auto
  moreover have "set_value p k v = Some ?p" using pl_get(1) [OF ok] m h(1) by (simp add: set_value_def)
  ultimately show ?thesis using update_absent [OF n] by auto
qed

lemma set_value_old:
  assumes ok: "pl_ok p" and n: "map_of (pl_pairs p) k \<noteq> None"
  shows "\<exists>p'. set_value p k v = Some p' \<and> pl_ok p' \<and> pl_pairs p' = AList.update k v (pl_pairs p)"
proof -
  obtain a where a: "map_of (hm_pairs (pl_map p)) k = Some a" using n pl_get(3) [OF ok, of k] by auto
  then obtain w where w: "deref p a = Some \<lparr>pr_key = k, pr_value = w\<rparr>" using pl_get(2) [OF ok] by blast
  then have al: "a < length (pl_heap p)" by (auto simp: deref_def split: if_splits)
  let ?p = "p\<lparr>pl_heap := (pl_heap p)[a := Some \<lparr>pr_key = k, pr_value = v\<rparr>]\<rparr>"
  have d: "deref ?p b = (if b = a then Some \<lparr>pr_key = k, pr_value = v\<rparr> else deref p b)" for b
    using al by (auto simp: deref_def)
  have inj: "b = a \<longleftrightarrow> j = k" if "(j, b) \<in> set (hm_pairs (pl_map p))" for j b
  proof
    assume "b = a"
    then show "j = k" using ok that w by (fastforce simp: pl_ok_def)
  next
    assume "j = k"
    then show "b = a" using ok that a hashmap.distinct_keys [of "pl_map p"]
      by (metis (no_types) map_of_is_SomeI option.inject pl_ok_def)
  qed
  have ps: "pl_pairs ?p = map (\<lambda>(k', v'). (k', if k' = k then v else v')) (pl_pairs p)"
    unfolding pl_pairs_def using inj by (auto simp: d)
  have keys: "\<exists>v. deref ?p b = Some \<lparr>pr_key = j, pr_value = v\<rparr>" if "(j, b) \<in> set (hm_pairs (pl_map p))" for j b
    using ok that inj [OF that] unfolding d by (fastforce simp: pl_ok_def)
  have live: "b \<in> snd ` set (hm_pairs (pl_map p))" if "deref ?p b \<noteq> None" for b
    using that w ok unfolding d by (cases "b = a") (auto simp: pl_ok_def)
  have "pl_ok ?p" unfolding pl_ok_def using ok keys live by (auto simp: pl_ok_def)
  moreover have "set_value p k v = Some ?p" using pl_get(1) [OF ok] a w by (simp add: set_value_def)
  ultimately show ?thesis using update_present [OF pl_pairs_distinct [OF ok] n] ps by auto
qed

lemma set_value_ok:
  assumes "pl_ok p" "pa_proplist_key_valid k" "length (pl_pairs p) + 1 < 2 ^ 32"
  shows "\<exists>p'. set_value p k v = Some p' \<and> pl_ok p' \<and> pl_pairs p' = AList.update k v (pl_pairs p)"
  using set_value_new [OF assms(1,2) _ assms(3)] set_value_old [OF assms(1)] by blast

subsection \<open>Removing\<close>

lemma free_values_ok:
  "distinct as \<Longrightarrow> \<forall>a \<in> set as. a < length heap \<and> heap ! a \<noteq> None \<Longrightarrow>
    \<exists>heap'. free_values as heap = Some heap' \<and> length heap' = length heap \<and>
      (\<forall>i < length heap. heap' ! i = (if i \<in> set as then None else heap ! i))"
proof (induction as arbitrary: heap)
  case (Cons a as)
  then have "\<exists>heap'. free_values as (heap[a := None]) = Some heap' \<and> length heap' = length (heap[a := None]) \<and>
      (\<forall>i < length (heap[a := None]). heap' ! i = (if i \<in> set as then None else heap[a := None] ! i))"
    by (intro Cons.IH) (auto simp: nth_list_update)
  then show ?case using Cons.prems by (auto simp: property_free_def nth_list_update)
qed simp

lemma pl_entry: "pl_ok p \<Longrightarrow> (j, b) \<in> set (hm_pairs (pl_map p)) \<Longrightarrow> \<exists>v. deref p b = Some \<lparr>pr_key = j, pr_value = v\<rparr>"
  by (auto simp: pl_ok_def)

lemma live_address: "deref p a = Some x \<Longrightarrow> a < length (pl_heap p) \<and> pl_heap p ! a \<noteq> None"
  by (auto simp: deref_def split: if_splits)

lemma pl_free_values:
  assumes ok: "pl_ok p" and as: "set as \<subseteq> snd ` set (hm_pairs (pl_map p))" "distinct as"
  shows "\<exists>heap'. free_values as (pl_heap p) = Some heap' \<and>
    (\<forall>m i. deref \<lparr>pl_map = m, pl_heap = heap'\<rparr> i = (if i \<in> set as then None else deref p i))"
proof -
  have "a < length (pl_heap p) \<and> pl_heap p ! a \<noteq> None" if in_as: "a \<in> set as" for a
  proof -
    obtain k where "(k, a) \<in> set (hm_pairs (pl_map p))" using subsetD [OF as(1) in_as] by auto
    then show ?thesis using ok live_address by (fastforce simp: pl_ok_def)
  qed
  then show ?thesis using free_values_ok [OF as(2), of "pl_heap p"] by (auto simp: deref_def)
qed

lemma unset_ok:
  assumes ok: "pl_ok p" and k: "pa_proplist_key_valid k"
  shows "\<exists>p'. pa_proplist_unset p k = Some (p', if map_of (pl_pairs p) k = None then - 2 else 0) \<and> pl_ok p' \<and>
    pl_pairs p' = AList.delete k (pl_pairs p)"
proof (cases "map_of (pl_pairs p) k")
  case None
  then have m: "map_of (hm_pairs (pl_map p)) k = None" using pl_get(3) [OF ok] by blast
  then obtain h where h: "pa_hashmap_remove (pl_map p) k = Some (h, None, [])" "hm_ok h" "hm_value_free h"
    "hm_pairs h = hm_pairs (pl_map p)" "\<not> hm_key_free h"
    using remove_spec [of "pl_map p" k] ok filter_absent [OF m] by (auto simp: pl_ok_def)
  have d: "deref \<lparr>pl_map = h, pl_heap = pl_heap p\<rparr> = deref p" by (simp add: deref_def fun_eq_iff)
  then have "pl_ok \<lparr>pl_map = h, pl_heap = pl_heap p\<rparr>" using ok h by (simp add: pl_ok_def)
  moreover have "AList.delete k (pl_pairs p) = pl_pairs p" using None by (simp add: delete_id map_of_eq_None_iff)
  ultimately show ?thesis using k None h d
    by (simp add: pa_proplist_unset_def pa_hashmap_remove_and_free_def pl_pairs_def)
next
  case (Some v)
  then obtain a where a: "map_of (hm_pairs (pl_map p)) k = Some a" using pl_get(3) [OF ok, of k] by auto
  then obtain h where h: "pa_hashmap_remove (pl_map p) k = Some (h, Some a, [])" "hm_ok h" "hm_value_free h"
    "hm_pairs h = filter (\<lambda>x. fst x \<noteq> k) (hm_pairs (pl_map p))" "\<not> hm_key_free h"
    using remove_spec [of "pl_map p" k] ok by (auto simp: pl_ok_def)
  have in_map: "(k, a) \<in> set (hm_pairs (pl_map p))" by (rule map_of_SomeD [OF a])
  then have "set [a] \<subseteq> snd ` set (hm_pairs (pl_map p))" by force
  then obtain heap where heap: "free_values [a] (pl_heap p) = Some heap"
    "\<And>m i. deref \<lparr>pl_map = m, pl_heap = heap\<rparr> i = (if i = a then None else deref p i)"
    using pl_free_values [OF ok, of "[a]"] by auto
  have inj: "b \<noteq> a" if "(j, b) \<in> set (hm_pairs (pl_map p))" "j \<noteq> k" for j b
    using pl_entry [OF ok that(1)] pl_entry [OF ok in_map] that(2) by auto
  let ?p = "\<lparr>pl_map = h, pl_heap = heap\<rparr>"
  have d: "distinct (map snd (filter (\<lambda>x. fst x \<noteq> k) (hm_pairs (pl_map p))))"
    using ok by (simp add: pl_ok_def distinct_map_filter)
  have rest: "b \<in> snd ` {x \<in> set (hm_pairs (pl_map p)). fst x \<noteq> k}" if b: "deref p b \<noteq> None" "b \<noteq> a" for b
  proof -
    obtain j where "(j, b) \<in> set (hm_pairs (pl_map p))" using ok b(1) by (fastforce simp: pl_ok_def)
    moreover from this have "j \<noteq> k" using a b(2) ok hashmap.distinct_keys [of "pl_map p"]
      by (metis (no_types) map_of_is_SomeI option.inject pl_ok_def)
    ultimately show ?thesis by force
  qed
  have "pl_ok ?p" unfolding pl_ok_def pa_proplist.simps h(4) heap(2)
    using ok h inj d rest by (auto simp: pl_ok_def)
  moreover have "pl_pairs ?p = AList.delete k (pl_pairs p)"
    unfolding pl_pairs_def pa_proplist.simps h(4) heap(2) AList.delete_eq filter_map
    by (auto simp: comp_def case_prod_unfold intro!: map_cong filter_cong dest: inj)
  ultimately show ?thesis using k Some h heap(1)
    by (simp add: pa_proplist_unset_def pa_hashmap_remove_and_free_def)
qed

lemma clear_ok:
  assumes ok: "pl_ok p"
  shows "\<exists>p'. pa_proplist_clear p = Some p' \<and> pl_ok p' \<and> pl_pairs p' = []"
    and "\<exists>heap. pa_proplist_free p = Some heap \<and> (\<forall>x \<in> set heap. x = None)"
proof -
  obtain h where h: "pa_hashmap_remove_all (pl_map p) = Some (h, [], map snd (hm_pairs (pl_map p)))" "hm_ok h"
    "hm_pairs h = []" "hm_value_free h" "\<not> hm_key_free h"
    using remove_all_spec [of "pl_map p"] ok by (auto simp: pl_ok_def)
  obtain heap where heap: "free_values (map snd (hm_pairs (pl_map p))) (pl_heap p) = Some heap"
    "\<And>m i. deref \<lparr>pl_map = m, pl_heap = heap\<rparr> i = (if i \<in> snd ` set (hm_pairs (pl_map p)) then None else deref p i)"
    using pl_free_values [OF ok, of "map snd (hm_pairs (pl_map p))"] ok by (auto simp: pl_ok_def)
  have dead: "deref \<lparr>pl_map = m, pl_heap = heap\<rparr> i = None" for m i
    unfolding heap(2) using ok by (auto simp: pl_ok_def)
  then have "pl_ok \<lparr>pl_map = h, pl_heap = heap\<rparr>" using h by (simp add: pl_ok_def)
  then show "\<exists>p'. pa_proplist_clear p = Some p' \<and> pl_ok p' \<and> pl_pairs p' = []"
    using h heap(1) by (simp add: pa_proplist_clear_def pl_pairs_def)
  have "heap ! i = None" if "i < length heap" for i
    using dead [of h i] that by (simp add: deref_def)
  then show "\<exists>heap. pa_proplist_free p = Some heap \<and> (\<forall>x \<in> set heap. x = None)"
    using h(1) heap(1) by (auto simp: pa_proplist_free_def pa_hashmap_free_def in_set_conv_nth)
qed

subsection \<open>Reading\<close>

lemma takeWhile_whole: "length (takeWhile P xs) = length xs \<longleftrightarrow> (\<forall>x \<in> set xs. P x)"
proof (induction xs)
  case (Cons x xs)
  then show ?case using length_takeWhile_le [of P xs] by auto
qed simp

lemma value_text_Some: "value_text v = Some t \<longleftrightarrow> v = t @ [0] \<and> 0 \<notin> set t \<and> pa_utf8_valid t"
proof (cases v rule: rev_cases)
  case (snoc xs x)
  have "length (takeWhile (\<lambda>c. c \<noteq> 0) xs) = length xs \<longleftrightarrow> 0 \<notin> set xs" unfolding takeWhile_whole by auto
  moreover have "takeWhile (\<lambda>c. c \<noteq> 0) xs = xs" if "0 \<notin> set xs" using that by (auto simp: takeWhile_eq_all_conv)
  moreover have "takeWhile (\<lambda>c. c \<noteq> 0) (xs @ [0]) = takeWhile (\<lambda>c. c \<noteq> 0) xs" by (simp add: takeWhile_tail)
  ultimately show ?thesis using snoc by (auto simp: value_text_def Let_def nth_append)
qed (simp add: value_text_def)

lemma gets_ok:
  assumes "pl_ok p"
  shows "pa_proplist_gets p k = Some (Option.bind (map_of (pl_pairs p) k) value_text)"
    "pa_proplist_get p k = Some (map_of (pl_pairs p) k)"
proof -
  have n: "map_of (pl_pairs p) k = None" if "\<not> pa_proplist_key_valid k"
    using that pl_pairs_key_valid [OF assms] by (auto simp: map_of_eq_None_iff)
  show "pa_proplist_gets p k = Some (Option.bind (map_of (pl_pairs p) k) value_text)"
  proof (cases "map_of (hm_pairs (pl_map p)) k")
    case None
    then show ?thesis using pl_get [OF assms, of k] by (simp add: pa_proplist_gets_def)
  next
    case (Some a)
    then obtain v where v: "map_of (pl_pairs p) k = Some v" "deref p a = Some \<lparr>pr_key = k, pr_value = v\<rparr>"
      "pa_proplist_key_valid k" using pl_get(2) [OF assms] by blast
    then show ?thesis using Some pl_get(1) [OF assms, of k] by (simp add: pa_proplist_gets_def)
  qed
  show "pa_proplist_get p k = Some (map_of (pl_pairs p) k)"
    using pl_get [OF assms, of k] n
    by (cases "map_of (hm_pairs (pl_map p)) k") (auto simp: pa_proplist_get_def)
qed

lemma contains_ok:
  assumes "pl_ok p" "pa_proplist_key_valid k"
  shows "pa_proplist_contains p k = Some (if map_of (pl_pairs p) k = None then 0 else 1)"
  using pl_get [OF assms(1), of k] assms(2) by (simp add: pa_proplist_contains_def)

lemma size_ok: "pl_ok p \<Longrightarrow> pa_proplist_size p = length (pl_pairs p)"
  by (simp add: pa_proplist_size_def size_spec pl_ok_def pl_pairs_length)

subsection \<open>Iteration ends and visits the pairs\<close>

definition it_at :: "'e list \<Rightarrow> 'e iter_state" where
  "it_at zs = (case zs of [] \<Rightarrow> It_end | e # _ \<Rightarrow> It_entry e)"

lemma iterate_at:
  assumes "hm_ok h" "hm_iterate h = ys @ zs"
  shows "pa_hashmap_iterate h (it_at zs) =
    Some (case zs of [] \<Rightarrow> (It_end, None) | e # zs' \<Rightarrow> (it_at zs', Some (he_key e, he_value e)))"
proof (cases zs)
  case Nil
  then show ?thesis by (simp add: it_at_def pa_hashmap_iterate_def iterate_step_def)
next
  case (Cons e zs')
  have "distinct (ys @ e # zs')" using assms Cons by (auto simp: hm_ok_def distinct_map)
  from next_entry_split [OF this] show ?thesis using assms Cons
    by (auto simp: it_at_def pa_hashmap_iterate_def iterate_step_def split: list.split)
qed

lemma iterate_null: "pa_hashmap_iterate h It_null = pa_hashmap_iterate h (it_at (hm_iterate h))"
  by (auto simp: it_at_def pa_hashmap_iterate_def iterate_step_def split: list.split)

fun fold_pairs :: "('acc \<Rightarrow> 'k \<Rightarrow> 'v \<Rightarrow> ('r + 'acc) option) \<Rightarrow> ('k \<times> 'v) list \<Rightarrow> 'acc \<Rightarrow> ('r + 'acc) option" where
  "fold_pairs body [] acc = Some (Inr acc)"
| "fold_pairs body ((k, v) # ps) acc =
     (case body acc k v of
        None \<Rightarrow> None
      | Some (Inl r) \<Rightarrow> Some (Inl r)
      | Some (Inr acc') \<Rightarrow> fold_pairs body ps acc')"

lemma iterate_loop_pairs:
  assumes "hm_ok h"
  shows "iterate_loop h body It_null acc = fold_pairs body (hm_pairs h) acc"
proof -
  have at: "iterate_loop h body (it_at zs) acc = fold_pairs body (map (\<lambda>e. (he_key e, he_value e)) zs) acc"
    if "hm_iterate h = ys @ zs" for ys zs acc
    using that
  proof (induction zs arbitrary: ys acc)
    case Nil
    then show ?case using iterate_at [OF assms Nil] by (subst iterate_loop.simps) simp
  next
    case (Cons e zs)
    then show ?case using iterate_at [OF assms Cons.prems] Cons.IH [of "ys @ [e]"]
      by (subst iterate_loop.simps) (simp split: option.split sum.split)
  qed
  have "iterate_loop h body It_null acc = iterate_loop h body (it_at (hm_iterate h)) acc"
    by (subst (1 2) iterate_loop.simps) (simp only: iterate_null)
  then show ?thesis using at [of "[]"] by (simp add: hm_pairs_def)
qed

subsection \<open>Updating, copying, comparing\<close>

definition merge_pair :: "pa_update_mode \<Rightarrow> (bytes \<times> bytes) list \<Rightarrow> bytes \<times> bytes \<Rightarrow> (bytes \<times> bytes) list" where
  "merge_pair mode ps x =
     (if mode = PA_UPDATE_MERGE \<and> map_of ps (fst x) \<noteq> None then ps else AList.update (fst x) (snd x) ps)"

definition merge_pairs :: "pa_update_mode \<Rightarrow> (bytes \<times> bytes) list \<Rightarrow> (bytes \<times> bytes) list \<Rightarrow> (bytes \<times> bytes) list" where
  "merge_pairs mode ps qs = foldl (merge_pair mode) (if mode = PA_UPDATE_SET then [] else ps) qs"

lemma update_length: "length (AList.update k v ps) \<le> length ps + 1"
  by (induction ps) auto

lemma set_ok:
  assumes "pl_ok p" "pa_proplist_key_valid k" "length (pl_pairs p) + 1 < 2 ^ 32"
  shows "\<exists>p'. pa_proplist_set p k v = Some (p', 0) \<and> pl_ok p' \<and> pl_pairs p' = AList.update k v (pl_pairs p)"
  using set_value_ok [OF assms, of v] assms(2) by (auto simp: pa_proplist_set_def)

lemma update_loop_ok:
  assumes "pl_ok other" "pl_ok p" "set as \<subseteq> set (hm_pairs (pl_map other))" "length (pl_pairs p) + length as < 2 ^ 32"
  shows "\<exists>p'. fold_pairs (update_body mode other) as p = Some (Inr p') \<and> pl_ok p' \<and>
    pl_pairs p' = foldl (merge_pair mode) (pl_pairs p) (map (\<lambda>(k, a). (k, pr_value (the (deref other a)))) as)"
  using assms(2-4)
proof (induction as arbitrary: p)
  case (Cons x as)
  obtain k a where x: "x = (k, a)" by (cases x)
  then have "(k, a) \<in> set (hm_pairs (pl_map other))" using Cons.prems(2) by simp
  with assms(1) obtain v where v: "deref other a = Some \<lparr>pr_key = k, pr_value = v\<rparr>" "pa_proplist_key_valid k"
    by (fastforce simp: pl_ok_def)
  show ?case
  proof (cases "mode = PA_UPDATE_MERGE \<and> map_of (pl_pairs p) k \<noteq> None")
    case True
    then have "update_body mode other p k a = Some (Inr p)"
      using v contains_ok [OF Cons.prems(1) v(2)] by (auto simp: update_body_def)
    then show ?thesis using x v True Cons.IH [OF Cons.prems(1)] Cons.prems(2,3) by (auto simp: merge_pair_def)
  next
    case False
    obtain p' where p': "pa_proplist_set p k v = Some (p', 0)" "pl_ok p'" "pl_pairs p' = AList.update k v (pl_pairs p)"
      using set_ok [OF Cons.prems(1) v(2), of v] Cons.prems(3) by auto
    then have "update_body mode other p k a = Some (Inr p')"
      using v False contains_ok [OF Cons.prems(1) v(2)] by (auto simp: update_body_def)
    moreover have "length (pl_pairs p') + length as < 2 ^ 32"
      using update_length [of k v "pl_pairs p"] Cons.prems(3) p'(3) by simp
    ultimately show ?thesis using x v False p' Cons.IH [OF p'(2)] Cons.prems(2) by (auto simp: merge_pair_def)
  qed
qed simp

lemma update_ok:
  assumes "pl_ok other" "pl_ok p" "length (pl_pairs p) + length (pl_pairs other) < 2 ^ 32"
  shows "\<exists>p'. pa_proplist_update p mode other = Some p' \<and> pl_ok p' \<and>
    pl_pairs p' = merge_pairs mode (pl_pairs p) (pl_pairs other)"
proof -
  obtain q where q: "(if mode = PA_UPDATE_SET then pa_proplist_clear p else Some p) = Some q" "pl_ok q"
    "pl_pairs q = (if mode = PA_UPDATE_SET then [] else pl_pairs p)"
    using clear_ok(1) [OF assms(2)] assms(2) by (cases "mode = PA_UPDATE_SET") auto
  have "length (pl_pairs q) + length (hm_pairs (pl_map other)) < 2 ^ 32"
    using assms(3) q(3) by (auto simp: pl_pairs_length)
  from update_loop_ok [OF assms(1) q(2) order_refl this, of mode]
  obtain p' where p': "fold_pairs (update_body mode other) (hm_pairs (pl_map other)) q = Some (Inr p')" "pl_ok p'"
    "pl_pairs p' = merge_pairs mode (pl_pairs p) (pl_pairs other)"
    unfolding q(3) merge_pairs_def by (auto simp: pl_pairs_def)
  have "iterate_loop (pl_map other) (update_body mode other) It_null q = Some (Inr p')"
    using iterate_loop_pairs [of "pl_map other" "update_body mode other" q] assms(1) p'(1) by (simp add: pl_ok_def)
  then show ?thesis using p' q(1) unfolding pa_proplist_update_def by (simp only:) simp
qed

lemma merge_fresh: "distinct (map fst (ps @ qs)) \<Longrightarrow> foldl (merge_pair mode) ps qs = ps @ qs"
proof (induction qs arbitrary: ps)
  case (Cons x qs)
  then have n: "map_of ps (fst x) = None" by (auto simp: map_of_eq_None_iff)
  have "distinct (map fst ((ps @ [x]) @ qs))" using Cons.prems by simp
  from Cons.IH [OF this] show ?case using n update_absent [OF n] by (simp add: merge_pair_def)
qed simp

lemma merge_new: "distinct (map fst qs) \<Longrightarrow> merge_pairs PA_UPDATE_SET ps qs = qs"
  "distinct (map fst qs) \<Longrightarrow> merge_pairs mode [] qs = qs"
  by (simp_all add: merge_pairs_def merge_fresh)

lemma merge_map_of:
  assumes "distinct (map fst qs)"
  shows "map_of (merge_pairs PA_UPDATE_REPLACE ps qs) = map_of ps ++ map_of qs"
    "map_of (merge_pairs PA_UPDATE_MERGE ps qs) = map_of qs ++ map_of ps"
proof -
  have "map_of (foldl (merge_pair PA_UPDATE_REPLACE) ps qs) = map_of ps ++ map_of qs" using assms
  proof (induction qs arbitrary: ps)
    case (Cons x qs)
    then have "map_of qs (fst x) = None" by (auto simp: map_of_eq_None_iff)
    then show ?case using Cons by (auto simp: merge_pair_def update_conv' map_add_def fun_eq_iff split: option.split)
  qed simp
  moreover have "map_of (foldl (merge_pair PA_UPDATE_MERGE) ps qs) = map_of qs ++ map_of ps"
  proof (induction qs arbitrary: ps)
    case (Cons x qs)
    show ?case unfolding foldl_Cons Cons.IH
      by (cases x) (auto simp: merge_pair_def update_conv' map_add_def fun_eq_iff split: option.split)
  qed simp
  ultimately show "map_of (merge_pairs PA_UPDATE_REPLACE ps qs) = map_of ps ++ map_of qs"
    "map_of (merge_pairs PA_UPDATE_MERGE ps qs) = map_of qs ++ map_of ps" by (simp_all add: merge_pairs_def)
qed

lemma merge_length: "length (merge_pairs mode ps qs) \<le> length ps + length qs"
proof -
  have "length (foldl (merge_pair mode) ps qs) \<le> length ps + length qs" for ps
  proof (induction qs arbitrary: ps)
    case (Cons x qs)
    have "length (merge_pair mode ps x) \<le> length ps + 1" using update_length [of "fst x" "snd x" ps] by (simp add: merge_pair_def)
    then show ?case using Cons.IH [of "merge_pair mode ps x"] by simp
  qed simp
  from this [of "[]"] this [of ps] show ?thesis by (auto simp: merge_pairs_def)
qed

lemma copy_ok:
  assumes "pl_ok p" "length (pl_pairs p) < 2 ^ 32"
  shows "\<exists>q. pa_proplist_copy (Some p) = Some q \<and> pl_ok q \<and> pl_pairs q = pl_pairs p"
  using update_ok [OF assms(1) proplist_new_ok(1), of PA_UPDATE_REPLACE] assms(2) merge_new(2) [OF pl_pairs_distinct [OF assms(1)]]
  by (auto simp: pa_proplist_copy_def proplist_new_ok(2))

lemma equal_loop:
  assumes "pl_ok a" "pl_ok b" "set xs \<subseteq> set (hm_pairs (pl_map a))"
  shows "fold_pairs (equal_body a b) xs () =
    Some (if \<forall>(k, v) \<in> set (map (\<lambda>(k, i). (k, pr_value (the (deref a i)))) xs). map_of (pl_pairs b) k = Some v then Inr () else Inl 0)"
  using assms(3)
proof (induction xs)
  case (Cons x xs)
  obtain k i where x: "x = (k, i)" by (cases x)
  then have "(k, i) \<in> set (hm_pairs (pl_map a))" using Cons.prems by simp
  then obtain v where v: "deref a i = Some \<lparr>pr_key = k, pr_value = v\<rparr>" using pl_entry [OF assms(1)] by blast
  have "equal_body a b () k i = Some (if map_of (pl_pairs b) k = Some v then Inr () else Inl 0)"
  proof (cases "map_of (hm_pairs (pl_map b)) k")
    case None
    then show ?thesis using v pl_get [OF assms(2), of k] by (simp add: equal_body_def)
  next
    case (Some j)
    then show ?thesis using v pl_get(1) [OF assms(2), of k] pl_get(2) [OF assms(2) Some] by (auto simp: equal_body_def)
  qed
  then show ?case using Cons x v by auto
qed simp

lemma distinct_length: "distinct (map fst ps) \<Longrightarrow> card (set ps) = length ps"
  by (simp add: distinct_map distinct_card)

lemma same_map:
  assumes "distinct (map fst ps)" "distinct (map fst qs)" "length ps = length qs"
  shows "(\<forall>(k, v) \<in> set ps. map_of qs k = Some v) \<longleftrightarrow> map_of ps = map_of qs"
proof
  assume a: "\<forall>(k, v) \<in> set ps. map_of qs k = Some v"
  then have "set ps \<subseteq> set qs" by (auto dest: map_of_SomeD)
  then have "set ps = set qs" using assms(3) distinct_length [OF assms(1)] distinct_length [OF assms(2)]
    by (intro card_subset_eq) simp_all
  then show "map_of ps = map_of qs" using map_of_inject_set [OF assms(1,2)] by blast
next
  assume "map_of ps = map_of qs"
  then show "\<forall>(k, v) \<in> set ps. map_of qs k = Some v" using assms(1) by (auto dest: map_of_is_SomeI)
qed

lemma equal_ok:
  assumes "pl_ok a" "pl_ok b"
  shows "pa_proplist_equal False a b = Some (if map_of (pl_pairs a) = map_of (pl_pairs b) then 1 else 0)"
proof (cases "length (pl_pairs a) = length (pl_pairs b)")
  case True
  have "iterate_loop (pl_map a) (equal_body a b) It_null () =
      Some (if \<forall>(k, v) \<in> set (pl_pairs a). map_of (pl_pairs b) k = Some v then Inr () else Inl 0)"
    using iterate_loop_pairs [of "pl_map a" "equal_body a b" "()"] equal_loop [OF assms order_refl] assms(1)
    by (simp add: pl_ok_def pl_pairs_def)
  then show ?thesis using True same_map [OF pl_pairs_distinct [OF assms(1)] pl_pairs_distinct [OF assms(2)] True]
    by (simp add: pa_proplist_equal_def size_ok assms)
next
  case False
  then have "map_of (pl_pairs a) \<noteq> map_of (pl_pairs b)"
    using map_of_inject_set [OF pl_pairs_distinct [OF assms(1)] pl_pairs_distinct [OF assms(2)]]
      distinct_length [OF pl_pairs_distinct [OF assms(1)]] distinct_length [OF pl_pairs_distinct [OF assms(2)]] by auto
  then show ?thesis using False by (simp add: pa_proplist_equal_def size_ok assms)
qed

subsection \<open>Every run of the operations\<close>

datatype pl_op =
    Sets bytes bytes | Setp bytes | Setf bytes bytes bytes | Set_data bytes bytes
  | Unset bytes | Unset_many "bytes list" | Clear | Update pa_update_mode pa_proplist

fun pl_step :: "pa_proplist \<Rightarrow> pl_op \<Rightarrow> (pa_proplist \<times> int) option" where
  "pl_step p (Sets k v) = pa_proplist_sets p k v"
| "pl_step p (Setp pair) = pa_proplist_setp p pair"
| "pl_step p (Setf k format text) = pa_proplist_setf p k format text"
| "pl_step p (Set_data k d) = pa_proplist_set p k d"
| "pl_step p (Unset k) = pa_proplist_unset p k"
| "pl_step p (Unset_many ks) = pa_proplist_unset_many p ks"
| "pl_step p Clear = do { p \<leftarrow> pa_proplist_clear p; Some (p, 0) }"
| "pl_step p (Update mode other) = do { p \<leftarrow> pa_proplist_update p mode other; Some (p, 0) }"

definition set_pair :: "(bytes \<times> bytes) list \<Rightarrow> bytes \<Rightarrow> bytes \<Rightarrow> bool \<Rightarrow> (bytes \<times> bytes) list \<times> int" where
  "set_pair ps k v valid = (if pa_proplist_key_valid k \<and> valid then (AList.update k v ps, 0) else (ps, - 1))"

text \<open>The specification on the pairs; strings carry their terminator.\<close>

fun pl_spec :: "(bytes \<times> bytes) list \<Rightarrow> pl_op \<Rightarrow> (bytes \<times> bytes) list \<times> int" where
  "pl_spec ps (Sets k v) = set_pair ps k (v @ [0]) (pa_utf8_valid v)"
| "pl_spec ps (Setp pair) =
     (let k = takeWhile (\<lambda>c. c \<noteq> 0x3d) pair; v = drop (length k + 1) pair
      in if 0x3d \<in> set pair then set_pair ps k (v @ [0]) (pa_utf8_valid v) else (ps, - 1))"
| "pl_spec ps (Setf k format text) = set_pair ps k (text @ [0]) (pa_utf8_valid format \<and> pa_utf8_valid text)"
| "pl_spec ps (Set_data k d) = set_pair ps k d True"
| "pl_spec ps (Unset k) =
     (if pa_proplist_key_valid k then (AList.delete k ps, if map_of ps k = None then - 2 else 0) else (ps, - 1))"
| "pl_spec ps (Unset_many ks) =
     (if list_all pa_proplist_key_valid ks
      then (fold AList.delete ks ps, int (card (set ks \<inter> fst ` set ps)))
      else (ps, - 1))"
| "pl_spec ps Clear = ([], 0)"
| "pl_spec ps (Update mode other) = (merge_pairs mode ps (pl_pairs other), 0)"

text \<open>Arguments are C strings, and the other list of an update is a list.\<close>

fun op_ok :: "pl_op \<Rightarrow> bool" where
  "op_ok (Sets k v) = (0 \<notin> set k \<and> 0 \<notin> set v)"
| "op_ok (Setp pair) = (0 \<notin> set pair)"
| "op_ok (Setf k format text) = (0 \<notin> set k \<and> 0 \<notin> set format \<and> 0 \<notin> set text)"
| "op_ok (Set_data k d) = (0 \<notin> set k)"
| "op_ok (Unset k) = (0 \<notin> set k)"
| "op_ok (Unset_many ks) = (\<forall>k \<in> set ks. 0 \<notin> set k)"
| "op_ok Clear = True"
| "op_ok (Update mode other) = pl_ok other"

fun op_new_keys :: "pl_op \<Rightarrow> nat" where
  "op_new_keys (Update mode other) = length (pl_pairs other)"
| "op_new_keys _ = 1"

lemma strndup_whole: "0 \<notin> set s \<Longrightarrow> pa_xstrndup s (length s) = s"
  by (auto simp: pa_xstrndup_def takeWhile_eq_all_conv)

lemma strndup_prefix: "0 \<notin> set s \<Longrightarrow> pa_xstrndup s n = take n s"
  by (auto simp: pa_xstrndup_def takeWhile_eq_all_conv dest: in_set_takeD)

lemma set_pair_ok:
  assumes "pl_ok p" "length (pl_pairs p) + 1 < 2 ^ 32"
  shows "\<exists>p'. (if \<not> pa_proplist_key_valid k \<or> \<not> valid then Some (p, - 1)
      else do { p \<leftarrow> set_value p k v; Some (p, 0) }) = Some (p', snd (set_pair (pl_pairs p) k v valid)) \<and>
    pl_ok p' \<and> pl_pairs p' = fst (set_pair (pl_pairs p) k v valid)"
  using set_value_ok [OF assms(1) _ assms(2), of k v] assms(1)
  by (cases "pa_proplist_key_valid k \<and> valid") (auto simp: set_pair_def)

lemma setn_ok:
  assumes "pl_ok p" "length (pl_pairs p) + 1 < 2 ^ 32" "0 \<notin> set k" "0 \<notin> set v" "n = length v"
  shows "\<exists>p'. proplist_setn p k (length k) v n = Some (p', snd (set_pair (pl_pairs p) k (v @ [0]) (pa_utf8_valid v))) \<and>
    pl_ok p' \<and> pl_pairs p' = fst (set_pair (pl_pairs p) k (v @ [0]) (pa_utf8_valid v))"
  using set_pair_ok [OF assms(1,2), of k "pa_utf8_valid v" "v @ [0]"] assms(3-5)
  by (simp add: proplist_setn_def strndup_whole Let_def)

lemma setp_ok:
  assumes "pl_ok p" "length (pl_pairs p) + 1 < 2 ^ 32" "0 \<notin> set pair"
  shows "\<exists>p'. pa_proplist_setp p pair = Some (p', snd (pl_spec (pl_pairs p) (Setp pair))) \<and> pl_ok p' \<and>
    pl_pairs p' = fst (pl_spec (pl_pairs p) (Setp pair))"
proof -
  let ?k = "takeWhile (\<lambda>c. c \<noteq> 0x3d) pair"
  have m: "length ?k = length pair \<longleftrightarrow> 0x3d \<notin> set pair" unfolding takeWhile_whole by auto
  have k: "take (length ?k) pair = ?k" by (metis takeWhile_eq_take)
  have z: "0 \<notin> set ?k" "0 \<notin> set (drop (length ?k + 1) pair)"
    using assms(3) by (auto dest: set_takeWhileD in_set_dropD)
  have "proplist_setn p pair (length ?k) = proplist_setn p ?k (length ?k)"
    using strndup_prefix [OF assms(3)] strndup_whole [OF z(1)] by (simp add: proplist_setn_def fun_eq_iff k)
  then show ?thesis
    using setn_ok [OF assms(1,2) z refl] m assms(1) by (simp add: pa_proplist_setp_def Let_def)
qed

lemma delete_key_set: "fst ` set (AList.delete k ps) = fst ` set ps - {k}"
  using arg_cong [OF AList.delete_keys [of k ps], of set] by simp

lemma unset_loop_ok:
  assumes "pl_ok p" "list_all pa_proplist_key_valid ks"
  shows "\<exists>p'. unset_loop p ks n = Some (p', n + int (card (set ks \<inter> fst ` set (pl_pairs p)))) \<and> pl_ok p' \<and>
    pl_pairs p' = fold AList.delete ks (pl_pairs p)"
  using assms
proof (induction ks arbitrary: p n)
  case (Cons k ks)
  obtain p' where p': "pa_proplist_unset p k = Some (p', if map_of (pl_pairs p) k = None then - 2 else 0)" "pl_ok p'"
    "pl_pairs p' = AList.delete k (pl_pairs p)"
    using unset_ok [OF Cons.prems(1), of k] Cons.prems(2) by auto
  have i: "set (k # ks) \<inter> fst ` set (pl_pairs p) =
      (if map_of (pl_pairs p) k = None then {} else {k}) \<union> (set ks \<inter> fst ` set (pl_pairs p'))"
    unfolding p'(3) delete_key_set by (auto simp: map_of_eq_None_iff)
  have "k \<notin> set ks \<inter> fst ` set (pl_pairs p')" unfolding p'(3) delete_key_set by simp
  then have "int (card (set (k # ks) \<inter> fst ` set (pl_pairs p))) =
      (if map_of (pl_pairs p) k = None then 0 else 1) + int (card (set ks \<inter> fst ` set (pl_pairs p')))"
    unfolding i by simp
  then show ?case using p' Cons.IH [OF p'(2), of "if map_of (pl_pairs p) k = None then n else n + 1"] Cons.prems(2)
    by (cases "map_of (pl_pairs p) k") (auto simp: add.assoc)
qed simp

lemma pl_step_ok:
  assumes "pl_ok p" "op_ok a" "length (pl_pairs p) + op_new_keys a < 2 ^ 32"
  shows "\<exists>p'. pl_step p a = Some (p', snd (pl_spec (pl_pairs p) a)) \<and> pl_ok p' \<and> pl_pairs p' = fst (pl_spec (pl_pairs p) a)"
proof (cases a)
  case (Sets k v)
  then show ?thesis using set_pair_ok [OF assms(1), of k "pa_utf8_valid v" "v @ [0]"] assms(3)
    by (simp add: pa_proplist_sets_def)
next
  case (Setp pair)
  then show ?thesis using setp_ok [OF assms(1), of pair] assms(2,3) by simp
next
  case (Setf k f t)
  then show ?thesis using set_pair_ok [OF assms(1), of k "pa_utf8_valid f \<and> pa_utf8_valid t" "t @ [0]"] assms(3)
    by (auto simp: pa_proplist_setf_def split: if_splits)
next
  case (Set_data k d)
  then show ?thesis using set_pair_ok [OF assms(1), of k True d] assms(3) by (simp add: pa_proplist_set_def)
next
  case (Unset k)
  then show ?thesis using unset_ok [OF assms(1), of k] assms(1) by (auto simp: pa_proplist_unset_def)
next
  case (Unset_many ks)
  then show ?thesis using unset_loop_ok [OF assms(1), of ks 0] assms(1) by (auto simp: pa_proplist_unset_many_def)
next
  case Clear
  then show ?thesis using clear_ok(1) [OF assms(1)] by auto
next
  case (Update mode other)
  then show ?thesis using update_ok [of other p mode] assms by auto
qed

fun pl_run :: "pa_proplist \<Rightarrow> pl_op list \<Rightarrow> (pa_proplist \<times> int list) option" where
  "pl_run p [] = Some (p, [])"
| "pl_run p (a # as) = do {
     (p, r) \<leftarrow> pl_step p a;
     (p, rs) \<leftarrow> pl_run p as;
     Some (p, r # rs) }"

fun pl_spec_run :: "(bytes \<times> bytes) list \<Rightarrow> pl_op list \<Rightarrow> (bytes \<times> bytes) list \<times> int list" where
  "pl_spec_run ps [] = (ps, [])"
| "pl_spec_run ps (a # as) =
     (let (ps, r) = pl_spec ps a; (ps, rs) = pl_spec_run ps as in (ps, r # rs))"

lemma delete_length: "length (AList.delete k ps) \<le> length ps"
  by (simp add: AList.delete_eq)

lemma fold_delete_length: "length (fold AList.delete ks ps) \<le> length ps"
proof (induction ks arbitrary: ps)
  case (Cons k ks)
  then show ?case using order_trans [OF Cons.IH [of "AList.delete k ps"] delete_length] by simp
qed simp

lemma set_pair_length: "length (fst (set_pair ps k v valid)) \<le> length ps + 1"
  using update_length [of k v ps] by (simp add: set_pair_def)

lemma pl_spec_length: "length (fst (pl_spec ps a)) \<le> length ps + op_new_keys a"
  using set_pair_length merge_length fold_delete_length [of _ ps] delete_length [of _ ps]
  by (cases a) (auto simp: Let_def intro: le_SucI)

lemma proplist_iterate_at:
  assumes "pl_ok p" "hm_iterate (pl_map p) = ys @ e # zs"
  shows "pa_proplist_iterate p (it_at (e # zs)) = Some (it_at zs, Some (he_key e))"
proof -
  have h: "hm_ok (pl_map p)" using assms(1) by (simp add: pl_ok_def)
  have "(he_key e, he_value e) \<in> set (hm_pairs (pl_map p))" by (simp add: hm_pairs_def assms(2))
  then obtain v where "deref p (he_value e) = Some \<lparr>pr_key = he_key e, pr_value = v\<rparr>" using pl_entry [OF assms(1)] by blast
  then show ?thesis using iterate_at [OF h assms(2)] by (simp add: pa_proplist_iterate_def)
qed

lemma pl_run_ok:
  assumes "pl_ok p" "list_all op_ok as" "length (pl_pairs p) + sum_list (map op_new_keys as) < 2 ^ 32"
  shows "\<exists>p'. pl_run p as = Some (p', snd (pl_spec_run (pl_pairs p) as)) \<and> pl_ok p' \<and>
    pl_pairs p' = fst (pl_spec_run (pl_pairs p) as)"
  using assms
proof (induction as arbitrary: p)
  case (Cons a as)
  obtain p' where p': "pl_step p a = Some (p', snd (pl_spec (pl_pairs p) a))" "pl_ok p'"
    "pl_pairs p' = fst (pl_spec (pl_pairs p) a)"
    using pl_step_ok [OF Cons.prems(1), of a] Cons.prems(2,3) by auto
  have "length (pl_pairs p') + sum_list (map op_new_keys as) < 2 ^ 32"
    using pl_spec_length [of "pl_pairs p" a] Cons.prems(3) p'(3) by simp
  with Cons.IH [OF p'(2)] Cons.prems(2) show ?case using p' by (auto simp: case_prod_unfold Let_def)
qed simp

text \<open>
  C17: A property list behaves as the list of its pairs: every run of setters, unsetters, clears and
  updates on a new list never fails an assertion, never uses a freed property, returns what the
  specification on pairs returns; afterwards the list holds the specified pairs, every lookup
  returns the specified bytes and text, and freeing it releases every property it allocated.
\<close>
theorem proplist_refines_pairs:
  assumes "list_all op_ok as" "sum_list (map op_new_keys as) < 2 ^ 32" "pl_spec_run [] as = (ps, rs)"
  shows "\<exists>p. pl_run pa_proplist_new as = Some (p, rs) \<and> pl_ok p \<and> pl_pairs p = ps \<and>
    pa_proplist_get p k = Some (map_of ps k) \<and> pa_proplist_gets p k = Some (Option.bind (map_of ps k) value_text) \<and>
    (\<exists>heap. pa_proplist_free p = Some heap \<and> (\<forall>x \<in> set heap. x = None))"
  using pl_run_ok [OF proplist_new_ok(1) assms(1)] assms(2,3) gets_ok clear_ok(2) unfolding proplist_new_ok(2) by fastforce

lemma text_simps: "pa_utf8_valid [0x62]" "pa_proplist_key_valid [0x61]" "pa_proplist_key_valid [0x63]"
  "\<not> pa_proplist_key_valid []"
  by (simp_all add: pa_utf8_valid_def pa_proplist_key_valid_def pa_ascii_valid_def)

theorem proplist_refines_pairs_witness:
  "list_all op_ok [Sets [0x61] [0x62], Setp [0x63, 0x3d, 0x62], Set_data [] [1], Unset [0x61]] \<and>
   pl_spec_run [] [Sets [0x61] [0x62], Setp [0x63, 0x3d, 0x62], Set_data [] [1], Unset [0x61]] =
     ([([0x63], [0x62, 0])], [0, 0, - 1, 0]) \<and>
   (\<exists>p. pl_run pa_proplist_new [Sets [0x61] [0x62], Setp [0x63, 0x3d, 0x62], Set_data [] [1], Unset [0x61]] =
        Some (p, [0, 0, - 1, 0]) \<and> pl_ok p \<and> pl_pairs p = [([0x63], [0x62, 0])] \<and>
      pa_proplist_get p [0x63] = Some (Some [0x62, 0]) \<and> pa_proplist_gets p [0x63] = Some (Some [0x62]) \<and>
      (\<exists>heap. pa_proplist_free p = Some heap \<and> (\<forall>x \<in> set heap. x = None)))"
proof -
  let ?as = "[Sets [0x61] [0x62], Setp [0x63, 0x3d, 0x62], Set_data [] [1], Unset [0x61]]"
  have a: "list_all op_ok ?as" by simp
  have s: "pl_spec_run [] ?as = ([([0x63], [0x62, 0])], [0, 0, - 1, 0])"
    by (simp add: set_pair_def text_simps)
  have n: "sum_list (map op_new_keys ?as) < 2 ^ 32" by simp
  have v: "value_text [0x62, 0] = Some [0x62]" by (simp add: value_text_Some text_simps)
  from proplist_refines_pairs [OF a n s, of "[0x63]"] show ?thesis using a s v by simp
qed

end
