(* ===== verification/Proplist_Text.thy ===== *)
theory Proplist_Text
  imports Proplist_Props
begin

text \<open>
  The text form of property lists: \<open>pa_proplist_from_string\<close> returns on every input, and reads back
  what \<open>pa_proplist_to_string\<close> prints, up to backslashes.
\<close>

subsection \<open>Parsing always ends with a list or NULL\<close>

definition plain_key :: "bytes \<Rightarrow> bool" where
  "plain_key k \<longleftrightarrow> (\<forall>c \<in> set k. \<not> isspace c \<and> c \<noteq> 0x3d)"

definition pl_parsed :: "pa_proplist \<Rightarrow> bool" where
  "pl_parsed pl \<longleftrightarrow> pl_ok pl \<and> (\<forall>(k, v) \<in> set (pl_pairs pl). plain_key k)"

lemma parse_fail_ok: "pl_parsed pl \<Longrightarrow> parse_fail pl = Some None"
  using clear_ok(2) [of pl] by (auto simp: parse_fail_def pl_parsed_def)

lemma plain_key_ndup: "plain_key k \<Longrightarrow> plain_key (pa_xstrndup k n)"
  by (auto simp: plain_key_def pa_xstrndup_def dest!: set_takeWhileD in_set_takeD)

lemma set_pair_parsed:
  assumes "pl_parsed p" "length (pl_pairs p) + 1 < 2 ^ 32" "plain_key k"
  shows "\<exists>p' r. (if \<not> pa_proplist_key_valid k \<or> \<not> valid then Some (p, - 1)
      else do { p \<leftarrow> set_value p k v; Some (p, 0) }) = Some (p', r :: int) \<and>
    pl_parsed p' \<and> length (pl_pairs p') \<le> length (pl_pairs p) + 1"
proof -
  have "pl_ok p" using assms(1) by (simp add: pl_parsed_def)
  from set_pair_ok [OF this assms(2), of k valid v]
  obtain p' r where p': "(if \<not> pa_proplist_key_valid k \<or> \<not> valid then Some (p, - 1)
      else do { p \<leftarrow> set_value p k v; Some (p, 0) }) = Some (p', r :: int)"
    "pl_ok p'" "pl_pairs p' = fst (set_pair (pl_pairs p) k v valid)" by blast
  have "fst ` set (pl_pairs p') \<subseteq> insert k (fst ` set (pl_pairs p))"
    unfolding p'(3) set_pair_def using dom_update [of k v "pl_pairs p"] by (auto simp: dom_map_of_conv_image_fst)
  then have "pl_parsed p'" using p'(2) assms(1,3) by (fastforce simp: pl_parsed_def)
  then show ?thesis using p' set_pair_length [of "pl_pairs p" k v valid] by auto
qed

lemma setters_parsed:
  assumes "pl_parsed p" "length (pl_pairs p) + 1 < 2 ^ 32" "plain_key key"
  shows "\<exists>p' r. proplist_setn p key n value m = Some (p', r) \<and> pl_parsed p' \<and> length (pl_pairs p') \<le> length (pl_pairs p) + 1"
    "\<exists>p' r. proplist_sethex p key n value m = Some (p', r) \<and> pl_parsed p' \<and> length (pl_pairs p') \<le> length (pl_pairs p) + 1"
    "\<exists>p' r. set_quoted p key value = Some (p', r) \<and> pl_parsed p' \<and> length (pl_pairs p') \<le> length (pl_pairs p) + 1"
proof -
  note s = set_pair_parsed [OF assms(1,2) plain_key_ndup [OF assms(3)]]
  show n: "\<exists>p' r. proplist_setn p key n value m = Some (p', r) \<and> pl_parsed p' \<and>
      length (pl_pairs p') \<le> length (pl_pairs p) + 1" for n m "value"
    unfolding proplist_setn_def Let_def by (rule s)
  show "\<exists>p' r. set_quoted p key value = Some (p', r) \<and> pl_parsed p' \<and> length (pl_pairs p') \<le> length (pl_pairs p) + 1"
    unfolding set_quoted_def Let_def by (rule n)
  show "\<exists>p' r. proplist_sethex p key n value m = Some (p', r) \<and> pl_parsed p' \<and> length (pl_pairs p') \<le> length (pl_pairs p) + 1"
    using s [of n True] assms(1)
    by (auto simp: proplist_sethex_def Let_def split: option.split)
qed

definition parse_good :: "pa_proplist option option \<Rightarrow> bool" where
  "parse_good r \<longleftrightarrow> (\<exists>x. r = Some x \<and> (\<forall>pl. x = Some pl \<longrightarrow> pl_parsed pl))"

lemma parse_good_simps [simp]: "parse_good (Some None)" "parse_good (Some (Some pl)) = pl_parsed pl"
  by (simp_all add: parse_good_def)

lemma set_then_good:
  assumes "\<exists>p' r. m = Some (p', r :: int) \<and> pl_parsed p' \<and> length (pl_pairs p') \<le> n + 1"
    and "\<And>p' r. m = Some (p', r) \<Longrightarrow> \<not> r < 0 \<Longrightarrow> pl_parsed p' \<Longrightarrow> length (pl_pairs p') \<le> n + 1 \<Longrightarrow> parse_good (f p')"
  shows "parse_good (case m of None \<Rightarrow> None | Some (pl, r) \<Rightarrow> if r < 0 then parse_fail pl else f pl)"
proof -
  obtain p' r where "m = Some (p', r)" "pl_parsed p'" "length (pl_pairs p') \<le> n + 1" using assms(1) by blast
  then show ?thesis using assms(2) [of p' r] parse_fail_ok [of p'] by simp
qed

lemma plain_key_simps [simp]: "plain_key [c] \<longleftrightarrow> \<not> isspace c \<and> c \<noteq> 0x3d"
  "plain_key (k @ [c]) \<longleftrightarrow> plain_key k \<and> \<not> isspace c \<and> c \<noteq> 0x3d"
  by (auto simp: plain_key_def)

lemma parse_loop_good:
  "pl_parsed pl \<Longrightarrow> st = WHITESPACE \<or> plain_key key \<Longrightarrow> length (pl_pairs pl) + length s + 1 < 2 ^ 32 \<Longrightarrow>
    parse_good (parse_loop st key v pl s)"
proof (induction st key v pl s rule: parse_loop.induct, simp_all add: parse_fail_ok, goal_cases)
  case (1 key v pl)
  then show ?case by (intro set_then_good [OF setters_parsed(1)]) simp_all
next
  case (2 key v pl c p)
  then show ?case by (intro impI set_then_good [OF setters_parsed(1)]) simp_all
next
  case (3 key v pl c p)
  then show ?case by (intro impI set_then_good [OF setters_parsed(3)]) simp_all
next
  case (4 key v pl c p)
  then show ?case by (intro impI set_then_good [OF setters_parsed(3)]) simp_all
next
  case (5 key v pl)
  then show ?case by (intro set_then_good [OF setters_parsed(2)]) simp_all
next
  case (6 key v pl c p)
  then show ?case by (intro impI set_then_good [OF setters_parsed(2)]) simp_all
qed



subsection \<open>The printed text\<close>

definition quote :: "bytes \<Rightarrow> bytes" where
  "quote t = concat (map (\<lambda>c. if c = 0x22 then [0x5c, 0x22] else [c]) t)"

definition hex_text :: "bytes \<Rightarrow> bytes" where
  "hex_text v = the (pa_hexstr v (length v * 2 + 1))"

definition entry_text :: "bytes \<times> bytes \<Rightarrow> bytes" where
  "entry_text x =
     (case value_text (snd x) of
        Some t \<Rightarrow> fst x @ [0x20, 0x3d, 0x20, 0x22] @ quote t @ [0x22]
      | None \<Rightarrow> fst x @ [0x20, 0x3d, 0x20, 0x68, 0x65, 0x78, 0x3a] @ hex_text (snd x))"

definition short_entry :: "bytes \<times> bytes \<Rightarrow> bool" where
  "short_entry x \<longleftrightarrow> length (fst x) + 2 * length (snd x) + 7 < 2 ^ 31"

lemma hex_text_ok: "pa_hexstr v (length v * 2 + 1) = Some (hex_text v)" "length (hex_text v) = 2 * length v"
  "length v \<le> n \<Longrightarrow> pa_parsehex (hex_text v) n = Some v" "c \<in> set (hex_text v) \<Longrightarrow> 0 \<le> hexc c"
  using hex_roundtrip [of v] by (auto simp: hex_text_def)

lemma put_quoted_ok:
  "sb_ok buf \<Longrightarrow> \<exists>buf'. put_quoted buf t = Some buf' \<and> sb_ok buf' \<and> sb_text buf' = sb_text buf @ quote t"
proof (induction "length t" arbitrary: t buf rule: less_induct)
  case less
  let ?h = "takeWhile (\<lambda>c. c \<noteq> 0x22) t"
  have t: "t = ?h @ drop (length ?h) t" by (metis append_take_drop_id takeWhile_eq_take)
  have q: "quote ?h = ?h" unfolding quote_def
    by (induction t) auto
  have th: "take (length ?h) t = ?h" by (metis takeWhile_eq_take)
  obtain b where b: "(if length ?h > 0 then pa_strbuf_putsn buf t (length ?h) else Some buf) = Some b" "sb_ok b"
    "sb_text b = sb_text buf @ ?h"
    using putsn_ok [OF less.prems, of "length ?h" t] length_takeWhile_le [of _ t] less.prems
    by (cases "?h = []") (auto simp: th)
  show ?case
  proof (cases "drop (length ?h) t")
    case Nil
    then have "quote t = ?h" using t q by (metis append_Nil2)
    then show ?thesis using b Nil by (subst put_quoted.simps) (simp add: Let_def)
  next
    case (Cons c t')
    then have "length ?h < length t" by (metis drop_all list.discI not_le)
    then have c: "c = 0x22" using nth_length_takeWhile [of "\<lambda>c. c \<noteq> 0x22" t] Cons by (simp add: Cons_nth_drop_Suc [symmetric])
    obtain b' where b': "pa_strbuf_puts b [0x5c, 0x22] = Some b'" "sb_ok b'" "sb_text b' = sb_text b @ [0x5c, 0x22]"
      using puts_ok [OF b(2)] by blast
    have "length t' < length t" using Cons by (metis length_Cons length_drop lessI less_le_trans diff_le_self)
    from less.hyps [OF this b'(2)] obtain b'' where b'': "put_quoted b' t' = Some b''" "sb_ok b''"
      "sb_text b'' = sb_text b' @ quote t'" by blast
    have "quote t = ?h @ [0x5c, 0x22] @ quote t'"
    proof -
      have "quote t = quote ?h @ quote (c # t')" by (subst t) (simp add: quote_def Cons)
      then show ?thesis using q c by (simp add: quote_def)
    qed
    then show ?thesis using b Cons c b' b'' by (subst put_quoted.simps) (simp add: Let_def)
  qed
qed

lemma to_string_body_ok:
  assumes ok: "pl_ok p" and b: "sb_ok buf" and x: "map_of (pl_pairs p) k = Some v" "short_entry (k, v)"
  shows "\<exists>buf'. to_string_body p sep buf k = Some buf' \<and> sb_ok buf' \<and>
    sb_text buf' = (if sb_text buf = [] then [] else sb_text buf @ sep) @ entry_text (k, v)"
proof -
  obtain b1 where b1: "(if \<not> pa_strbuf_isempty buf then pa_strbuf_puts buf sep else Some buf) = Some b1" "sb_ok b1"
    "sb_text b1 = (if sb_text buf = [] then [] else sb_text buf @ sep)"
    using puts_ok [OF b, of sep] sb_empty [OF b] b by (cases "sb_text buf = []") auto
  show ?thesis
  proof (cases "value_text v")
    case (Some t)
    have "length (k @ [0x20, 0x3d, 0x20, 0x22]) < 2 ^ 31" using x(2) by (simp add: short_entry_def)
    from printf_ok [OF b1(2) this] obtain b2 where b2: "pa_strbuf_printf b1 (k @ [0x20, 0x3d, 0x20, 0x22]) = Some (b2, length k + 4)"
      "sb_ok b2" "sb_text b2 = sb_text b1 @ k @ [0x20, 0x3d, 0x20, 0x22]" by auto
    obtain b3 where b3: "put_quoted b2 t = Some b3" "sb_ok b3" "sb_text b3 = sb_text b2 @ quote t"
      using put_quoted_ok [OF b2(2)] by blast
    obtain b4 where b4: "pa_strbuf_puts b3 [0x22] = Some b4" "sb_ok b4" "sb_text b4 = sb_text b3 @ [0x22]"
      using puts_ok [OF b3(2)] by blast
    show ?thesis using b1 b2 b3 b4 gets_ok(1) [OF ok, of k] x(1) Some
      unfolding to_string_body_def by (simp add: entry_text_def)
  next
    case None
    have "length (k @ [0x20, 0x3d, 0x20, 0x68, 0x65, 0x78, 0x3a] @ hex_text v) < 2 ^ 31"
      using x(2) by (simp add: short_entry_def hex_text_ok)
    from printf_ok [OF b1(2) this] obtain b2 r where
      "pa_strbuf_printf b1 (k @ [0x20, 0x3d, 0x20, 0x68, 0x65, 0x78, 0x3a] @ hex_text v) = Some (b2, r)"
      "sb_ok b2" "sb_text b2 = sb_text b1 @ k @ [0x20, 0x3d, 0x20, 0x68, 0x65, 0x78, 0x3a] @ hex_text v" by blast
    then show ?thesis using b1 gets_ok [OF ok, of k] x(1) None
      unfolding to_string_body_def by (simp add: entry_text_def hex_text_ok(1) [simplified])
  qed
qed

fun join_text :: "bytes \<Rightarrow> bytes \<Rightarrow> (bytes \<times> bytes) list \<Rightarrow> bytes" where
  "join_text sep b [] = b"
| "join_text sep b (x # xs) = join_text sep ((if b = [] then [] else b @ sep) @ entry_text x) xs"

lemma to_string_loop_ok:
  assumes ok: "pl_ok p" and short: "\<forall>x \<in> set (pl_pairs p). short_entry x"
    and it: "hm_iterate (pl_map p) = ys @ zs" and b: "sb_ok buf"
  shows "\<exists>buf'. to_string_loop p sep (it_at zs) buf = Some buf' \<and> sb_ok buf' \<and>
    sb_text buf' = join_text sep (sb_text buf) (map (\<lambda>e. (he_key e, pr_value (the (deref p (he_value e))))) zs)"
  using it b
proof (induction zs arbitrary: ys buf)
  case Nil
  have "pa_proplist_iterate p (it_at []) = Some (It_end, None)"
    using iterate_at [of "pl_map p" ys "[]"] ok Nil by (simp add: pl_ok_def pa_proplist_iterate_def)
  then show ?case using Nil by (subst to_string_loop.simps) simp
next
  case (Cons e zs)
  let ?x = "(he_key e, pr_value (the (deref p (he_value e))))"
  have x: "?x \<in> set (pl_pairs p)" using Cons.prems(1) by (simp add: pl_pairs_def hm_pairs_def)
  have m: "map_of (pl_pairs p) (he_key e) = Some (pr_value (the (deref p (he_value e))))"
    using x by (rule map_of_is_SomeI [OF pl_pairs_distinct [OF ok]])
  from x short have "short_entry ?x" by blast
  from to_string_body_ok [OF ok Cons.prems(2) m this] obtain b' where b': "to_string_body p sep buf (he_key e) = Some b'"
    "sb_ok b'" "sb_text b' = (if sb_text buf = [] then [] else sb_text buf @ sep) @ entry_text ?x" by blast
  from Cons.IH [of "ys @ [e]" b'] Cons.prems(1) b'(2) show ?case
    using proplist_iterate_at [OF ok Cons.prems(1)] b' by (subst to_string_loop.simps) simp
qed

lemma to_string_sep_ok:
  assumes ok: "pl_ok p" and short: "\<forall>x \<in> set (pl_pairs p). short_entry x"
  shows "pa_proplist_to_string_sep p sep = Some (join_text sep [] (pl_pairs p))"
proof -
  have "to_string_loop p sep It_null b = to_string_loop p sep (it_at (hm_iterate (pl_map p))) b" for b
    by (subst (1 2) to_string_loop.simps) (simp only: pa_proplist_iterate_def iterate_null)
  moreover have "pl_pairs p = map (\<lambda>e. (he_key e, pr_value (the (deref p (he_value e))))) (hm_iterate (pl_map p))"
    by (simp add: pl_pairs_def hm_pairs_def)
  ultimately show ?thesis using to_string_loop_ok [OF ok short append_Nil [symmetric] sb_new(1), of sep] to_string_ok
    by (auto simp: pa_proplist_to_string_sep_def)
qed

subsection \<open>Parsing the printed text\<close>

text \<open>What can be read back: keys without white space and equals signs, texts without backslash.\<close>

definition printable :: "bytes \<times> bytes \<Rightarrow> bool" where
  "printable x \<longleftrightarrow> plain_key (fst x) \<and> 0 \<notin> set (fst x) \<and> short_entry x \<and>
     (case value_text (snd x) of None \<Rightarrow> True | Some t \<Rightarrow> 0x5c \<notin> set t)"

lemma parse_key_chars: "plain_key k \<Longrightarrow> parse_loop KEY acc v pl (k @ rest) = parse_loop KEY (acc @ k) v pl rest"
  by (induction k arbitrary: acc) (auto simp: plain_key_def)

lemma parse_key:
  assumes "plain_key k" "k \<noteq> []"
  shows "parse_loop WHITESPACE key v pl (k @ rest) = parse_loop KEY k v pl rest"
proof (cases k)
  case (Cons c cs)
  then have "plain_key cs" "\<not> isspace c" "c \<noteq> 0x3d" using assms(1) by (auto simp: plain_key_def)
  then show ?thesis using Cons parse_key_chars [of cs "[c]" v pl rest] by simp
qed (use assms in simp)

lemma isspace_simps [simp]: "isspace 0x20" "isspace 0x0a" "\<not> isspace 0x3d" "\<not> isspace 0x22"
  by (simp_all add: isspace_def)

lemma parse_equals:
  "parse_loop KEY k v pl ([0x20, 0x3d, 0x20, 0x22] @ rest) = parse_loop VALUE_DOUBLE_QUOTES k [] pl rest"
  "parse_loop KEY k v pl ([0x20, 0x3d, 0x20, 0x68, 0x65, 0x78, 0x3a] @ rest) = parse_loop VALUE_HEX k [] pl rest"
  by simp_all

lemma quote_simps [simp]: "quote [] = []" "quote (c # t) = (if c = 0x22 then [0x5c, 0x22] else [c]) @ quote t"
  by (simp_all add: quote_def)

lemma parse_quoted:
  "0x5c \<notin> set t \<Longrightarrow> parse_loop VALUE_DOUBLE_QUOTES k acc pl (quote t @ rest) =
     parse_loop VALUE_DOUBLE_QUOTES k (acc @ quote t) pl rest"
  by (induction t arbitrary: acc) auto

lemma unescape_quote: "0x5c \<notin> set t \<Longrightarrow> pa_unescape (quote t) = t"
  unfolding pa_unescape_def by (induction t) auto

lemma quote_zero: "0 \<notin> set t \<Longrightarrow> 0 \<notin> set (quote t)"
  by (induction t) auto

lemma hexc_range: "0 \<le> hexc c \<Longrightarrow> (c \<ge> 0x30 \<and> c \<le> 0x39) \<or> (c \<ge> 0x41 \<and> c \<le> 0x46) \<or> (c \<ge> 0x61 \<and> c \<le> 0x66)"
  by (auto simp: hexc_def split: if_splits)

lemma parse_hex_chars:
  "\<forall>c \<in> set h. 0 \<le> hexc c \<Longrightarrow> parse_loop VALUE_HEX k acc pl (h @ rest) = parse_loop VALUE_HEX k (acc @ h) pl rest"
proof (induction h arbitrary: acc)
  case (Cons c h)
  then show ?case using hexc_range [of c] by simp
qed simp

lemma hex_text_zero: "0 \<notin> set (hex_text v)"
  using hex_text_ok(4) [of 0 v] by (auto simp: hexc_def)

lemma parse_entry:
  assumes ok: "pl_ok pl" and room: "length (pl_pairs pl) + 1 < 2 ^ 32" and x: "printable (k, v)" "pa_proplist_key_valid k"
  shows "\<exists>pl' v'. parse_loop WHITESPACE key v0 pl (entry_text (k, v) @ 0x0a # rest) = parse_loop WHITESPACE k v' pl' rest \<and>
    pl_ok pl' \<and> pl_pairs pl' = AList.update k v (pl_pairs pl)"
proof -
  have k: "plain_key k" "k \<noteq> []" "0 \<notin> set k" using x by (auto simp: printable_def pa_proplist_key_valid_def split: if_splits)
  obtain pl' where pl': "set_value pl k v = Some pl'" "pl_ok pl'" "pl_pairs pl' = AList.update k v (pl_pairs pl)"
    using set_value_ok [OF ok x(2) room] by blast
  show ?thesis
  proof (cases "value_text v")
    case (Some t)
    then have t: "v = t @ [0]" "0 \<notin> set t" "pa_utf8_valid t" "0x5c \<notin> set t"
      using x(1) value_text_Some [of v t] by (auto simp: printable_def)
    have "set_quoted pl k (quote t) = Some (pl', 0)"
      using t x(2) pl'(1) k quote_zero
      by (simp add: set_quoted_def strndup_whole unescape_quote proplist_setn_def Let_def)
    then have "parse_loop WHITESPACE key v0 pl (entry_text (k, v) @ 0x0a # rest) = parse_loop WHITESPACE k (quote t) pl' rest"
      using Some parse_key [OF k(1,2)] parse_quoted [OF t(4), of k "[]" pl "0x22 # 0x0a # rest"] parse_equals(1)
      by (simp add: entry_text_def)
    then show ?thesis using pl' by blast
  next
    case None
    have "proplist_sethex pl k (length k) (hex_text v) (length (hex_text v)) = Some (pl', 0)"
      unfolding proplist_sethex_def strndup_whole [OF hex_text_zero] strndup_whole [OF k(3)] Let_def
      using x(2) pl'(1) hex_text_ok(2,3) [of v] by simp
    then have "parse_loop WHITESPACE key v0 pl (entry_text (k, v) @ 0x0a # rest) = parse_loop WHITESPACE k (hex_text v) pl' rest"
      using None parse_key [OF k(1,2)] parse_hex_chars [of "hex_text v" k "[]" pl "0x0a # rest"] hex_text_ok(4) parse_equals(2)
      by (simp add: entry_text_def)
    then show ?thesis using pl' by blast
  qed
qed

lemma parse_entries:
  assumes "pl_ok pl" "distinct (map fst (pl_pairs pl @ xs))" "length (pl_pairs pl) + length xs < 2 ^ 32"
    "\<forall>x \<in> set xs. printable x \<and> pa_proplist_key_valid (fst x)"
  shows "\<exists>pl'. parse_loop WHITESPACE key v pl (concat (map (\<lambda>x. entry_text x @ [0x0a]) xs)) = Some (Some pl') \<and>
    pl_ok pl' \<and> pl_pairs pl' = pl_pairs pl @ xs"
  using assms
proof (induction xs arbitrary: pl key v)
  case (Cons x xs)
  obtain k w where x: "x = (k, w)" by (cases x)
  have n: "map_of (pl_pairs pl) k = None" using Cons.prems(2) x by (auto simp: map_of_eq_None_iff)
  have "length (pl_pairs pl) + 1 < 2 ^ 32" using Cons.prems(3) by simp
  from parse_entry [OF Cons.prems(1) this, of k w key v] obtain pl' v' where pl':
    "parse_loop WHITESPACE key v pl (entry_text (k, w) @ 0x0a # concat (map (\<lambda>x. entry_text x @ [0x0a]) xs)) =
       parse_loop WHITESPACE k v' pl' (concat (map (\<lambda>x. entry_text x @ [0x0a]) xs))"
    "pl_ok pl'" "pl_pairs pl' = pl_pairs pl @ [(k, w)]"
    using Cons.prems(4) x update_absent [OF n] by fastforce
  from Cons.IH [OF pl'(2), of k v'] show ?case using Cons.prems(2-4) x pl' by simp
qed simp

lemma entry_text_nonempty [simp]: "entry_text x \<noteq> []"
  by (auto simp: entry_text_def split: option.splits)

lemma join_text_sep: "b \<noteq> [] \<Longrightarrow> join_text sep b xs @ sep = b @ sep @ concat (map (\<lambda>x. entry_text x @ sep) xs)"
proof (induction xs arbitrary: b)
  case (Cons x xs)
  have "b @ sep @ entry_text x \<noteq> []" by simp
  from Cons.IH [OF this] show ?case using Cons.prems by simp
qed simp

lemma to_string_text:
  assumes "pl_ok p" "\<forall>x \<in> set (pl_pairs p). short_entry x"
  shows "pa_proplist_to_string p = Some (if pl_pairs p = [] then [0x0a] else concat (map (\<lambda>x. entry_text x @ [0x0a]) (pl_pairs p)))"
proof (cases "pl_pairs p")
  case (Cons x xs)
  then show ?thesis using join_text_sep [of "entry_text x" "[0x0a]" xs] to_string_sep_ok [OF assms, of "[0x0a]"]
    by (simp add: pa_proplist_to_string_def)
qed (simp add: pa_proplist_to_string_def to_string_sep_ok [OF assms])

text \<open>
  C16: Printing and parsing a property list is the identity: for every list whose keys have no
  white space or equals sign and whose string values have no backslash (binary values are
  arbitrary), \<open>pa_proplist_to_string\<close> returns a text, \<open>pa_proplist_from_string\<close> accepts it, and the
  list it returns has the same pairs in the same order and compares equal.
\<close>
theorem proplist_string_roundtrip:
  assumes "pl_ok p" "length (pl_pairs p) < 2 ^ 32" "list_all printable (pl_pairs p)"
  shows "\<exists>s q. pa_proplist_to_string p = Some s \<and> pa_proplist_from_string s = Some (Some q) \<and>
    pl_ok q \<and> pl_pairs q = pl_pairs p \<and> pa_proplist_equal False q p = Some 1"
proof -
  have x: "\<forall>x \<in> set (pl_pairs p). printable x \<and> pa_proplist_key_valid (fst x)"
    using assms(3) pl_pairs_key_valid [OF assms(1)] by (auto simp: list_all_iff)
  then have short: "\<forall>x \<in> set (pl_pairs p). short_entry x" by (simp add: printable_def)
  let ?s = "concat (map (\<lambda>x. entry_text x @ [0x0a]) (pl_pairs p))"
  have "\<exists>pl'. parse_loop WHITESPACE [] [] pa_proplist_new ?s = Some (Some pl') \<and> pl_ok pl' \<and> pl_pairs pl' = pl_pairs p"
    using parse_entries [OF proplist_new_ok(1), of "pl_pairs p" "[]" "[]"] assms(2) x pl_pairs_distinct [OF assms(1)]
    by (simp add: proplist_new_ok(2))
  then obtain q where q: "pa_proplist_from_string (if pl_pairs p = [] then [0x0a] else ?s) = Some (Some q)" "pl_ok q"
    "pl_pairs q = pl_pairs p"
    unfolding pa_proplist_from_string_def by (cases "pl_pairs p") auto
  then show ?thesis using to_string_text [OF assms(1) short] equal_ok [OF q(2) assms(1)] by auto
qed


theorem proplist_string_roundtrip_witness:
  "\<exists>p. pl_ok p \<and> pl_pairs p = [([0x61], [0x62, 0]), ([0x63], [0xff, 0x00, 0x01])] \<and>
    list_all printable (pl_pairs p) \<and>
    (\<exists>s q. pa_proplist_to_string p = Some s \<and> pa_proplist_from_string s = Some (Some q) \<and>
      pl_ok q \<and> pl_pairs q = pl_pairs p \<and> pa_proplist_equal False q p = Some 1)"
proof -
  obtain p where p: "pl_ok p" "pl_pairs p = [([0x61], [0x62, 0]), ([0x63], [0xff, 0x00, 0x01])]"
    using pl_run_ok [OF proplist_new_ok(1), of "[Sets [0x61] [0x62], Set_data [0x63] [0xff, 0x00, 0x01]]"]
    by (auto simp: proplist_new_ok(2) set_pair_def text_simps)
  have "value_text [0x62, 0] = Some [0x62]" by (simp add: value_text_Some text_simps)
  then have "list_all printable (pl_pairs p)"
    by (simp add: p(2) printable_def plain_key_def isspace_def short_entry_def value_text_def)
  then show ?thesis using proplist_string_roundtrip [OF p(1)] p by auto
qed

subsection \<open>Texts with a backslash\<close>



end
