(* ===== verification/Tagstruct.thy ===== *)
theory Tagstruct
  imports Proplist_Props Sample
begin

text \<open>
  Tagged structures, the wire format of the native protocol, \<open>src/pulsecore/tagstruct.c\<close>.
  \<open>ts_data\<close> holds the \<open>length\<close> bytes written so far. A write beyond \<open>allocated\<close>, a read beyond the
  data or beyond an array of a struct is \<^term>\<open>None\<close>; a reader returns the structure with its read
  position and the value, if it returned 0. What a failing reader leaves in the variables of its
  caller is not part of the model, except for property lists, which keep the entries read so far.
  Positions are sums of \<open>rindex\<close>, a length below \<open>2 ^ 32\<close> and the size of a buffer in memory, which
  do not wrap around at 64 bits, so they are natural numbers.
\<close>

subsection \<open>State\<close>

datatype pa_tag =
    PA_TAG_STRING | PA_TAG_STRING_NULL | PA_TAG_U32 | PA_TAG_U8 | PA_TAG_U64 | PA_TAG_S64 | PA_TAG_SAMPLE_SPEC
  | PA_TAG_ARBITRARY | PA_TAG_BOOLEAN_TRUE | PA_TAG_BOOLEAN_FALSE | PA_TAG_TIMEVAL | PA_TAG_USEC
  | PA_TAG_CHANNEL_MAP | PA_TAG_CVOLUME | PA_TAG_PROPLIST | PA_TAG_VOLUME | PA_TAG_FORMAT_INFO

fun tag_byte :: "pa_tag \<Rightarrow> byte" where
  "tag_byte PA_TAG_STRING = 0x74"
| "tag_byte PA_TAG_STRING_NULL = 0x4e"
| "tag_byte PA_TAG_U32 = 0x4c"
| "tag_byte PA_TAG_U8 = 0x42"
| "tag_byte PA_TAG_U64 = 0x52"
| "tag_byte PA_TAG_S64 = 0x72"
| "tag_byte PA_TAG_SAMPLE_SPEC = 0x61"
| "tag_byte PA_TAG_ARBITRARY = 0x78"
| "tag_byte PA_TAG_BOOLEAN_TRUE = 0x31"
| "tag_byte PA_TAG_BOOLEAN_FALSE = 0x30"
| "tag_byte PA_TAG_TIMEVAL = 0x54"
| "tag_byte PA_TAG_USEC = 0x55"
| "tag_byte PA_TAG_CHANNEL_MAP = 0x6d"
| "tag_byte PA_TAG_CVOLUME = 0x76"
| "tag_byte PA_TAG_PROPLIST = 0x50"
| "tag_byte PA_TAG_VOLUME = 0x56"
| "tag_byte PA_TAG_FORMAT_INFO = 0x66"

declare tag_byte.simps [simp del]

definition MAX_TAG_SIZE :: nat where "MAX_TAG_SIZE = 64 * 1024"
definition MAX_APPENDED_SIZE :: nat where "MAX_APPENDED_SIZE = 128"
definition GROW_TAG_SIZE :: nat where "GROW_TAG_SIZE = 100"

datatype tagstruct_type = PA_TAGSTRUCT_FIXED | PA_TAGSTRUCT_DYNAMIC | PA_TAGSTRUCT_APPENDED

record pa_tagstruct =
  ts_data :: bytes
  ts_allocated :: nat
  ts_rindex :: nat
  ts_type :: tagstruct_type

record pa_channel_map =
  cm_channels :: byte
  cm_map :: "32 word list"

record pa_cvolume =
  cv_channels :: byte
  cv_values :: "32 word list"

record timeval =
  tv_sec :: "64 word"
  tv_usec :: "64 word"

record pa_format_info =
  fi_encoding :: "32 word"
  fi_plist :: pa_proplist

definition pa_tagstruct_new :: pa_tagstruct where
  "pa_tagstruct_new =
     \<lparr>ts_data = [], ts_allocated = MAX_APPENDED_SIZE, ts_rindex = 0, ts_type = PA_TAGSTRUCT_APPENDED\<rparr>"

definition pa_tagstruct_new_fixed :: "bytes \<Rightarrow> pa_tagstruct option" where
  "pa_tagstruct_new_fixed data = do {
     pa_assert (data \<noteq> []);
     Some \<lparr>ts_data = data, ts_allocated = length data, ts_rindex = 0, ts_type = PA_TAGSTRUCT_FIXED\<rparr> }"

subsection \<open>Writing\<close>

definition extend :: "pa_tagstruct \<Rightarrow> nat \<Rightarrow> pa_tagstruct option" where
  "extend t l = do {
     pa_assert (ts_type t \<noteq> PA_TAGSTRUCT_FIXED);
     Some (if length (ts_data t) + l \<le> ts_allocated t then t
           else if ts_type t = PA_TAGSTRUCT_DYNAMIC
             then t\<lparr>ts_allocated := length (ts_data t) + l + GROW_TAG_SIZE\<rparr>
           else if ts_type t = PA_TAGSTRUCT_APPENDED
             then t\<lparr>ts_type := PA_TAGSTRUCT_DYNAMIC, ts_allocated := length (ts_data t) + l + GROW_TAG_SIZE\<rparr>
           else t) }"

text \<open>Bytes stored at \<open>data + length\<close>.\<close>

definition store :: "pa_tagstruct \<Rightarrow> bytes \<Rightarrow> pa_tagstruct option" where
  "store t bs =
     (if length (ts_data t) + length bs \<le> ts_allocated t then Some (t\<lparr>ts_data := ts_data t @ bs\<rparr>) else None)"

definition write_u8 :: "pa_tagstruct \<Rightarrow> byte \<Rightarrow> pa_tagstruct option" where
  "write_u8 t u = do { t \<leftarrow> extend t 1; store t [u] }"

definition write_u32 :: "pa_tagstruct \<Rightarrow> 32 word \<Rightarrow> pa_tagstruct option" where
  "write_u32 t u = do { t \<leftarrow> extend t 4; store t (be_enc 4 (unat u)) }"

definition write_u64 :: "pa_tagstruct \<Rightarrow> 64 word \<Rightarrow> pa_tagstruct option" where
  "write_u64 t u = do { t \<leftarrow> write_u32 t (ucast (drop_bit 32 u)); write_u32 t (ucast u) }"

definition write_arbitrary :: "pa_tagstruct \<Rightarrow> bytes \<Rightarrow> pa_tagstruct option" where
  "write_arbitrary t p = do { t \<leftarrow> extend t (length p); store t p }"

definition pa_tagstruct_puts :: "pa_tagstruct \<Rightarrow> bytes option \<Rightarrow> pa_tagstruct option" where
  "pa_tagstruct_puts t s =
     (case s of
        Some s \<Rightarrow> do { t \<leftarrow> write_u8 t (tag_byte PA_TAG_STRING); write_arbitrary t (s @ [0]) }
      | None \<Rightarrow> write_u8 t (tag_byte PA_TAG_STRING_NULL))"

definition pa_tagstruct_putu32 :: "pa_tagstruct \<Rightarrow> 32 word \<Rightarrow> pa_tagstruct option" where
  "pa_tagstruct_putu32 t i = do { t \<leftarrow> write_u8 t (tag_byte PA_TAG_U32); write_u32 t i }"

definition pa_tagstruct_putu8 :: "pa_tagstruct \<Rightarrow> byte \<Rightarrow> pa_tagstruct option" where
  "pa_tagstruct_putu8 t c = do { t \<leftarrow> write_u8 t (tag_byte PA_TAG_U8); write_u8 t c }"

definition pa_tagstruct_put_sample_spec :: "pa_tagstruct \<Rightarrow> pa_sample_spec \<Rightarrow> pa_tagstruct option" where
  "pa_tagstruct_put_sample_spec t ss = do {
     t \<leftarrow> write_u8 t (tag_byte PA_TAG_SAMPLE_SPEC);
     t \<leftarrow> write_u8 t (of_int (format_num (ss_format ss)));
     t \<leftarrow> write_u8 t (of_nat (ss_channels ss));
     write_u32 t (of_nat (ss_rate ss)) }"

definition pa_tagstruct_put_arbitrary :: "pa_tagstruct \<Rightarrow> bytes \<Rightarrow> pa_tagstruct option" where
  "pa_tagstruct_put_arbitrary t p = do {
     t \<leftarrow> write_u8 t (tag_byte PA_TAG_ARBITRARY);
     t \<leftarrow> write_u32 t (of_nat (length p));
     write_arbitrary t p }"

definition pa_tagstruct_put_boolean :: "pa_tagstruct \<Rightarrow> bool \<Rightarrow> pa_tagstruct option" where
  "pa_tagstruct_put_boolean t b = write_u8 t (tag_byte (if b then PA_TAG_BOOLEAN_TRUE else PA_TAG_BOOLEAN_FALSE))"

definition pa_tagstruct_put_timeval :: "pa_tagstruct \<Rightarrow> timeval \<Rightarrow> pa_tagstruct option" where
  "pa_tagstruct_put_timeval t tv = do {
     t \<leftarrow> write_u8 t (tag_byte PA_TAG_TIMEVAL);
     t \<leftarrow> write_u32 t (ucast (tv_sec tv));
     write_u32 t (ucast (tv_usec tv)) }"

definition pa_tagstruct_put_usec :: "pa_tagstruct \<Rightarrow> 64 word \<Rightarrow> pa_tagstruct option" where
  "pa_tagstruct_put_usec t u = do { t \<leftarrow> write_u8 t (tag_byte PA_TAG_USEC); write_u64 t u }"

definition pa_tagstruct_putu64 :: "pa_tagstruct \<Rightarrow> 64 word \<Rightarrow> pa_tagstruct option" where
  "pa_tagstruct_putu64 t u = do { t \<leftarrow> write_u8 t (tag_byte PA_TAG_U64); write_u64 t u }"

text \<open>An \<open>int64_t\<close> is its two's complement word.\<close>

definition pa_tagstruct_puts64 :: "pa_tagstruct \<Rightarrow> 64 word \<Rightarrow> pa_tagstruct option" where
  "pa_tagstruct_puts64 t u = do { t \<leftarrow> write_u8 t (tag_byte PA_TAG_S64); write_u64 t u }"

text \<open>The loops over an array: its first \<open>channels\<close> elements are written one by one.\<close>

fun write_each :: "(pa_tagstruct \<Rightarrow> 'a \<Rightarrow> pa_tagstruct option) \<Rightarrow> pa_tagstruct \<Rightarrow> 'a list \<Rightarrow> pa_tagstruct option" where
  "write_each wr t [] = Some t"
| "write_each wr t (x # xs) = do { t \<leftarrow> wr t x; write_each wr t xs }"

definition array_prefix :: "'a list \<Rightarrow> nat \<Rightarrow> 'a list option" where
  "array_prefix xs n = (if n \<le> length xs then Some (take n xs) else None)"

definition pa_tagstruct_put_channel_map :: "pa_tagstruct \<Rightarrow> pa_channel_map \<Rightarrow> pa_tagstruct option" where
  "pa_tagstruct_put_channel_map t m = do {
     t \<leftarrow> write_u8 t (tag_byte PA_TAG_CHANNEL_MAP);
     t \<leftarrow> write_u8 t (cm_channels m);
     xs \<leftarrow> array_prefix (cm_map m) (unat (cm_channels m));
     write_each (\<lambda>t x. write_u8 t (ucast x)) t xs }"

definition pa_tagstruct_put_cvolume :: "pa_tagstruct \<Rightarrow> pa_cvolume \<Rightarrow> pa_tagstruct option" where
  "pa_tagstruct_put_cvolume t cvolume = do {
     t \<leftarrow> write_u8 t (tag_byte PA_TAG_CVOLUME);
     t \<leftarrow> write_u8 t (cv_channels cvolume);
     xs \<leftarrow> array_prefix (cv_values cvolume) (unat (cv_channels cvolume));
     write_each write_u32 t xs }"

definition pa_tagstruct_put_volume :: "pa_tagstruct \<Rightarrow> 32 word \<Rightarrow> pa_tagstruct option" where
  "pa_tagstruct_put_volume t vol = do { t \<leftarrow> write_u8 t (tag_byte PA_TAG_VOLUME); write_u32 t vol }"

partial_function (option) put_proplist_loop ::
    "pa_tagstruct \<Rightarrow> pa_proplist \<Rightarrow> (bytes, nat) hashmap_entry iter_state \<Rightarrow> pa_tagstruct option" where
  "put_proplist_loop t p state =
     (case pa_proplist_iterate p state of
        None \<Rightarrow> None
      | Some (state', None) \<Rightarrow> Some t
      | Some (state', Some k) \<Rightarrow>
          (case do {
             t \<leftarrow> pa_tagstruct_puts t (Some k);
             d \<leftarrow> pa_proplist_get p k;
             d \<leftarrow> d;
             t \<leftarrow> pa_tagstruct_putu32 t (of_nat (length d));
             pa_tagstruct_put_arbitrary t d } of
             None \<Rightarrow> None
           | Some t \<Rightarrow> put_proplist_loop t p state'))"

definition pa_tagstruct_put_proplist :: "pa_tagstruct \<Rightarrow> pa_proplist \<Rightarrow> pa_tagstruct option" where
  "pa_tagstruct_put_proplist t p = do {
     t \<leftarrow> write_u8 t (tag_byte PA_TAG_PROPLIST);
     t \<leftarrow> put_proplist_loop t p It_null;
     pa_tagstruct_puts t None }"

definition pa_tagstruct_put_format_info :: "pa_tagstruct \<Rightarrow> pa_format_info \<Rightarrow> pa_tagstruct option" where
  "pa_tagstruct_put_format_info t f = do {
     t \<leftarrow> write_u8 t (tag_byte PA_TAG_FORMAT_INFO);
     t \<leftarrow> pa_tagstruct_putu8 t (ucast (fi_encoding f));
     pa_tagstruct_put_proplist t (fi_plist f) }"

subsection \<open>Reading\<close>

type_synonym 'a reader = "pa_tagstruct \<Rightarrow> (pa_tagstruct \<times> 'a option) option"

text \<open>\<open>if (read(t, &x) < 0) return -1;\<close> followed by the rest.\<close>

definition read_then :: "(pa_tagstruct \<times> 'a option) option \<Rightarrow> (pa_tagstruct \<Rightarrow> 'a \<Rightarrow> (pa_tagstruct \<times> 'b option) option) \<Rightarrow>
    (pa_tagstruct \<times> 'b option) option" where
  "read_then r f = (case r of None \<Rightarrow> None | Some (t, None) \<Rightarrow> Some (t, None) | Some (t, Some x) \<Rightarrow> f t x)"

definition read_bytes :: "nat \<Rightarrow> bytes reader" where
  "read_bytes n t =
     (if ts_rindex t + n > length (ts_data t) then Some (t, None)
      else do {
        bs \<leftarrow> load_bytes (ts_data t) (ts_rindex t) n;
        Some (t\<lparr>ts_rindex := ts_rindex t + n\<rparr>, Some bs) })"

definition read_u8 :: "byte reader" where
  "read_u8 t = read_then (read_bytes 1 t) (\<lambda>t bs. Some (t, Some (hd bs)))"

definition read_u32 :: "32 word reader" where
  "read_u32 t = read_then (read_bytes 4 t) (\<lambda>t bs. Some (t, Some (of_nat (be_dec bs))))"

definition read_u64 :: "64 word reader" where
  "read_u64 t =
     read_then (read_u32 t) (\<lambda>t hi. read_then (read_u32 t) (\<lambda>t lo. Some (t, Some (or (push_bit 32 (ucast hi)) (ucast lo)))))"

definition read_s64 :: "64 word reader" where
  "read_s64 t =
     read_then (read_u32 t) (\<lambda>t hi. read_then (read_u32 t) (\<lambda>t lo. Some (t, Some (or (push_bit 32 (ucast hi)) (ucast lo)))))"

definition read_arbitrary :: "nat \<Rightarrow> bytes reader" where
  "read_arbitrary n t = read_bytes n t"

text \<open>The byte at the read position.\<close>

definition peek_byte :: "pa_tagstruct \<Rightarrow> byte option" where
  "peek_byte t = (if ts_rindex t < length (ts_data t) then Some (ts_data t ! ts_rindex t) else None)"

definition read_tag :: "pa_tag \<Rightarrow> unit reader" where
  "read_tag tag t =
     (if ts_rindex t + 1 > length (ts_data t) then Some (t, None)
      else do {
        b \<leftarrow> peek_byte t;
        Some (if b \<noteq> tag_byte tag then (t, None) else (t\<lparr>ts_rindex := ts_rindex t + 1\<rparr>, Some ())) })"

text \<open>A string: \<^term>\<open>Some (Some s)\<close>, or NULL as \<^term>\<open>Some None\<close>.\<close>

definition pa_tagstruct_gets :: "bytes option reader" where
  "pa_tagstruct_gets t =
     (if ts_rindex t + 1 > length (ts_data t) then Some (t, None)
      else do {
        b \<leftarrow> peek_byte t;
        (if b = tag_byte PA_TAG_STRING_NULL then Some (t\<lparr>ts_rindex := ts_rindex t + 1\<rparr>, Some None)
         else read_then (read_tag PA_TAG_STRING t) (\<lambda>t _.
           if ts_rindex t + 1 > length (ts_data t) then Some (t, None)
           else
             (let s = takeWhile (\<lambda>c. c \<noteq> 0) (drop (ts_rindex t) (ts_data t))
              in if ts_rindex t + length s = length (ts_data t) then Some (t, None)
                 else Some (t\<lparr>ts_rindex := ts_rindex t + (length s + 1)\<rparr>, Some (Some s))))) })"

definition pa_tagstruct_getu32 :: "32 word reader" where
  "pa_tagstruct_getu32 t = read_then (read_tag PA_TAG_U32 t) (\<lambda>t _. read_u32 t)"

definition pa_tagstruct_getu8 :: "byte reader" where
  "pa_tagstruct_getu8 t = read_then (read_tag PA_TAG_U8 t) (\<lambda>t _. read_u8 t)"

definition pa_tagstruct_get_sample_spec :: "pa_sample_spec reader" where
  "pa_tagstruct_get_sample_spec t =
     read_then (read_tag PA_TAG_SAMPLE_SPEC t) (\<lambda>t _.
       read_then (read_u8 t) (\<lambda>t format.
         read_then (read_u8 t) (\<lambda>t channels.
           read_then (read_u32 t) (\<lambda>t rate.
             Some (t, Some \<lparr>ss_format = format_of_num (uint format), ss_rate = unat rate, ss_channels = unat channels\<rparr>)))))"

definition pa_tagstruct_get_arbitrary :: "nat \<Rightarrow> bytes reader" where
  "pa_tagstruct_get_arbitrary n t =
     read_then (read_tag PA_TAG_ARBITRARY t) (\<lambda>t _.
       read_then (read_u32 t) (\<lambda>t len. if unat len \<noteq> n then Some (t, None) else read_arbitrary n t))"

definition pa_tagstruct_eof :: "pa_tagstruct \<Rightarrow> bool" where
  "pa_tagstruct_eof t = (ts_rindex t \<ge> length (ts_data t))"

definition pa_tagstruct_data :: "pa_tagstruct \<Rightarrow> bytes" where
  "pa_tagstruct_data t = ts_data t"

definition pa_tagstruct_get_boolean :: "bool reader" where
  "pa_tagstruct_get_boolean t =
     (if ts_rindex t + 1 > length (ts_data t) then Some (t, None)
      else do {
        b \<leftarrow> peek_byte t;
        Some (if b = tag_byte PA_TAG_BOOLEAN_TRUE then (t\<lparr>ts_rindex := ts_rindex t + 1\<rparr>, Some True)
              else if b = tag_byte PA_TAG_BOOLEAN_FALSE then (t\<lparr>ts_rindex := ts_rindex t + 1\<rparr>, Some False)
              else (t, None)) })"

definition pa_tagstruct_get_timeval :: "timeval reader" where
  "pa_tagstruct_get_timeval t =
     read_then (read_tag PA_TAG_TIMEVAL t) (\<lambda>t _.
       read_then (read_u32 t) (\<lambda>t sec.
         read_then (read_u32 t) (\<lambda>t usec. Some (t, Some \<lparr>tv_sec = ucast sec, tv_usec = ucast usec\<rparr>))))"

definition pa_tagstruct_get_usec :: "64 word reader" where
  "pa_tagstruct_get_usec t = read_then (read_tag PA_TAG_USEC t) (\<lambda>t _. read_u64 t)"

definition pa_tagstruct_getu64 :: "64 word reader" where
  "pa_tagstruct_getu64 t = read_then (read_tag PA_TAG_U64 t) (\<lambda>t _. read_u64 t)"

definition pa_tagstruct_gets64 :: "64 word reader" where
  "pa_tagstruct_gets64 t = read_then (read_tag PA_TAG_S64 t) (\<lambda>t _. read_s64 t)"

text \<open>The loops that fill \<open>n\<close> elements of an array from index \<open>i\<close> on.\<close>

fun read_each :: "'a reader \<Rightarrow> 'a list \<Rightarrow> nat \<Rightarrow> nat \<Rightarrow> 'a list reader" where
  "read_each rd arr i 0 t = Some (t, Some arr)"
| "read_each rd arr i (Suc n) t =
     read_then (rd t) (\<lambda>t x. if i < length arr then read_each rd (arr[i := x]) (i + 1) n t else None)"

text \<open>\<open>m\<close> and \<open>cvolume\<close> are the structs of the caller before the call.\<close>

definition pa_tagstruct_get_channel_map :: "pa_channel_map \<Rightarrow> pa_channel_map reader" where
  "pa_tagstruct_get_channel_map m t =
     read_then (read_tag PA_TAG_CHANNEL_MAP t) (\<lambda>t _.
       read_then (read_u8 t) (\<lambda>t channels.
         if unat channels > PA_CHANNELS_MAX then Some (t, None)
         else
           read_then (read_each (\<lambda>t. read_then (read_u8 t) (\<lambda>t tmp. Some (t, Some (ucast tmp)))) (cm_map m) 0 (unat channels) t)
             (\<lambda>t xs. Some (t, Some \<lparr>cm_channels = channels, cm_map = xs\<rparr>))))"

definition pa_tagstruct_get_cvolume :: "pa_cvolume \<Rightarrow> pa_cvolume reader" where
  "pa_tagstruct_get_cvolume cvolume t =
     read_then (read_tag PA_TAG_CVOLUME t) (\<lambda>t _.
       read_then (read_u8 t) (\<lambda>t channels.
         if unat channels > PA_CHANNELS_MAX then Some (t, None)
         else
           read_then (read_each read_u32 (cv_values cvolume) 0 (unat channels) t)
             (\<lambda>t xs. Some (t, Some \<lparr>cv_channels = channels, cv_values = xs\<rparr>))))"

definition pa_tagstruct_get_volume :: "32 word reader" where
  "pa_tagstruct_get_volume t = read_then (read_tag PA_TAG_VOLUME t) (\<lambda>t _. read_u32 t)"

text \<open>
  One entry of a property list: \<^term>\<open>None\<close> for the NULL key that ends it. The value is only read
  when the key is valid and the length small enough.
\<close>

definition entry_value :: "bytes \<Rightarrow> (bytes \<times> bytes) option reader" where
  "entry_value k t =
     read_then (pa_tagstruct_getu32 t) (\<lambda>t len.
       if unat len > MAX_TAG_SIZE then Some (t, None)
       else read_then (pa_tagstruct_get_arbitrary (unat len) t) (\<lambda>t d. Some (t, Some (Some (k, d)))))"

definition read_entry :: "(bytes \<times> bytes) option reader" where
  "read_entry t =
     read_then (pa_tagstruct_gets t) (\<lambda>t k.
       case k of
         None \<Rightarrow> Some (t, Some None)
       | Some k \<Rightarrow> if \<not> pa_proplist_key_valid k then Some (t, None) else entry_value k t)"

text \<open>The list (NULL allowed) is filled entry by entry, also when the read fails later.\<close>

partial_function (option) get_proplist_loop ::
    "pa_tagstruct \<Rightarrow> pa_proplist option \<Rightarrow> (pa_tagstruct \<times> pa_proplist option \<times> bool) option" where
  "get_proplist_loop t p =
     (case read_entry t of
        None \<Rightarrow> None
      | Some (t, None) \<Rightarrow> Some (t, p, False)
      | Some (t, Some None) \<Rightarrow> Some (t, p, True)
      | Some (t, Some (Some (k, d))) \<Rightarrow>
          (case p of
             None \<Rightarrow> get_proplist_loop t None
           | Some pl \<Rightarrow>
               (case pa_proplist_set pl k d of
                  None \<Rightarrow> None
                | Some (pl, r) \<Rightarrow> if r \<ge> 0 then get_proplist_loop t (Some pl) else None)))"

definition pa_tagstruct_get_proplist ::
    "pa_proplist option \<Rightarrow> pa_tagstruct \<Rightarrow> (pa_tagstruct \<times> pa_proplist option \<times> bool) option" where
  "pa_tagstruct_get_proplist p t = do {
     (t, r) \<leftarrow> read_tag PA_TAG_PROPLIST t;
     (case r of None \<Rightarrow> Some (t, p, False) | Some _ \<Rightarrow> get_proplist_loop t p) }"

definition pa_tagstruct_get_format_info ::
    "pa_format_info \<Rightarrow> pa_tagstruct \<Rightarrow> (pa_tagstruct \<times> pa_format_info \<times> bool) option" where
  "pa_tagstruct_get_format_info f t = do {
     (t, r) \<leftarrow> read_tag PA_TAG_FORMAT_INFO t;
     (case r of
        None \<Rightarrow> Some (t, f, False)
      | Some _ \<Rightarrow> do {
          (t, r) \<leftarrow> pa_tagstruct_getu8 t;
          (case r of
             None \<Rightarrow> Some (t, f, False)
           | Some encoding \<Rightarrow> do {
               (t, p, r) \<leftarrow> pa_tagstruct_get_proplist (Some (fi_plist f)) t;
               p \<leftarrow> p;
               Some (t, \<lparr>fi_encoding = ucast encoding, fi_plist = p\<rparr>, r) }) }) }"

subsection \<open>Argument lists\<close>

datatype tag_value =
    V_string "bytes option" | V_u32 "32 word" | V_u8 byte | V_u64 "64 word" | V_s64 "64 word"
  | V_sample_spec pa_sample_spec | V_arbitrary bytes | V_boolean bool | V_timeval timeval | V_usec "64 word"
  | V_channel_map pa_channel_map | V_cvolume pa_cvolume | V_volume "32 word" | V_proplist "pa_proplist option"
  | V_format_info pa_format_info

text \<open>
  One call of a writer, as the switch of \<open>pa_tagstruct_put\<close> makes it for the kinds it has a case for
  and other callers make it directly.
\<close>

fun put_value :: "pa_tagstruct \<Rightarrow> tag_value \<Rightarrow> pa_tagstruct option" where
  "put_value t (V_string s) = pa_tagstruct_puts t s"
| "put_value t (V_u32 i) = pa_tagstruct_putu32 t i"
| "put_value t (V_u8 c) = pa_tagstruct_putu8 t c"
| "put_value t (V_u64 u) = pa_tagstruct_putu64 t u"
| "put_value t (V_s64 u) = pa_tagstruct_puts64 t u"
| "put_value t (V_sample_spec ss) = pa_tagstruct_put_sample_spec t ss"
| "put_value t (V_arbitrary p) = pa_tagstruct_put_arbitrary t p"
| "put_value t (V_boolean b) = pa_tagstruct_put_boolean t b"
| "put_value t (V_timeval tv) = pa_tagstruct_put_timeval t tv"
| "put_value t (V_usec u) = pa_tagstruct_put_usec t u"
| "put_value t (V_channel_map m) = pa_tagstruct_put_channel_map t m"
| "put_value t (V_cvolume v) = pa_tagstruct_put_cvolume t v"
| "put_value t (V_volume v) = pa_tagstruct_put_volume t v"
| "put_value t (V_proplist p) = do { p \<leftarrow> p; pa_tagstruct_put_proplist t p }"
| "put_value t (V_format_info f) = pa_tagstruct_put_format_info t f"

text \<open>The switch of \<open>pa_tagstruct_put\<close> has no case for these two.\<close>

fun no_case :: "tag_value \<Rightarrow> bool" where
  "no_case (V_s64 _) = True"
| "no_case (V_format_info _) = True"
| "no_case _ = False"

fun pa_tagstruct_put :: "pa_tagstruct \<Rightarrow> tag_value list \<Rightarrow> pa_tagstruct option" where
  "pa_tagstruct_put t [] = Some t"
| "pa_tagstruct_put t (v # vs) = do {
     pa_assert (\<not> no_case v);
     t \<leftarrow> put_value t v;
     pa_tagstruct_put t vs }"

text \<open>What a caller asks for; structs and lists are the objects to be filled.\<close>

datatype tag_request =
    R_string | R_u32 | R_u8 | R_u64 | R_s64 | R_sample_spec | R_arbitrary nat | R_boolean | R_timeval | R_usec
  | R_channel_map pa_channel_map | R_cvolume pa_cvolume | R_volume | R_proplist "pa_proplist option"
  | R_format_info pa_format_info

text \<open>One call of a reader, likewise.\<close>

fun read_value :: "tag_request \<Rightarrow> tag_value reader" where
  "read_value R_string t = read_then (pa_tagstruct_gets t) (\<lambda>t s. Some (t, Some (V_string s)))"
| "read_value R_u32 t = read_then (pa_tagstruct_getu32 t) (\<lambda>t i. Some (t, Some (V_u32 i)))"
| "read_value R_u8 t = read_then (pa_tagstruct_getu8 t) (\<lambda>t c. Some (t, Some (V_u8 c)))"
| "read_value R_u64 t = read_then (pa_tagstruct_getu64 t) (\<lambda>t u. Some (t, Some (V_u64 u)))"
| "read_value R_s64 t = read_then (pa_tagstruct_gets64 t) (\<lambda>t u. Some (t, Some (V_s64 u)))"
| "read_value R_sample_spec t = read_then (pa_tagstruct_get_sample_spec t) (\<lambda>t ss. Some (t, Some (V_sample_spec ss)))"
| "read_value (R_arbitrary n) t = read_then (pa_tagstruct_get_arbitrary n t) (\<lambda>t p. Some (t, Some (V_arbitrary p)))"
| "read_value R_boolean t = read_then (pa_tagstruct_get_boolean t) (\<lambda>t b. Some (t, Some (V_boolean b)))"
| "read_value R_timeval t = read_then (pa_tagstruct_get_timeval t) (\<lambda>t tv. Some (t, Some (V_timeval tv)))"
| "read_value R_usec t = read_then (pa_tagstruct_get_usec t) (\<lambda>t u. Some (t, Some (V_usec u)))"
| "read_value (R_channel_map m) t = read_then (pa_tagstruct_get_channel_map m t) (\<lambda>t m. Some (t, Some (V_channel_map m)))"
| "read_value (R_cvolume v) t = read_then (pa_tagstruct_get_cvolume v t) (\<lambda>t v. Some (t, Some (V_cvolume v)))"
| "read_value R_volume t = read_then (pa_tagstruct_get_volume t) (\<lambda>t v. Some (t, Some (V_volume v)))"
| "read_value (R_proplist p) t = do {
     (t, p, r) \<leftarrow> pa_tagstruct_get_proplist p t;
     Some (t, if r then Some (V_proplist p) else None) }"
| "read_value (R_format_info f) t = do {
     (t, f, r) \<leftarrow> pa_tagstruct_get_format_info f t;
     Some (t, if r then Some (V_format_info f) else None) }"

fun no_request_case :: "tag_request \<Rightarrow> bool" where
  "no_request_case R_s64 = True"
| "no_request_case (R_format_info _) = True"
| "no_request_case _ = False"

text \<open>The values read before the first failure, and the return value.\<close>

fun pa_tagstruct_get :: "pa_tagstruct \<Rightarrow> tag_request list \<Rightarrow> (pa_tagstruct \<times> tag_value list \<times> int) option" where
  "pa_tagstruct_get t [] = Some (t, [], 0)"
| "pa_tagstruct_get t (q # qs) = do {
     pa_assert (\<not> no_request_case q);
     (t, v) \<leftarrow> read_value q t;
     (case v of
        None \<Rightarrow> Some (t, [], - 1)
      | Some v \<Rightarrow> do {
          (t, vs, ret) \<leftarrow> pa_tagstruct_get t qs;
          Some (t, v # vs, ret) }) }"

end
