(* ===== verification/Tagstruct_Wire.thy ===== *)
theory Tagstruct_Wire
  imports Tagstruct
begin

text \<open>
  What the writers of a tagged structure append and what the readers consume, as predicates with
  composition rules: \<open>writes f bs\<close> (on every writable structure \<open>f\<close> succeeds and appends \<open>bs\<close>) and
  \<open>reads f bs x\<close> (at a read position with \<open>bs\<close> ahead, \<open>f\<close> succeeds, consumes exactly \<open>bs\<close> and
  returns \<open>x\<close>). The encoding of each kind of value, and that its writer and its reader agree on it.
\<close>

subsection \<open>What writers append\<close>

named_theorems ts_writes \<open>writers and the bytes they append\<close>
named_theorems ts_reads \<open>readers and the bytes they consume\<close>
named_theorems ts_safe \<open>readers that stay inside the data\<close>

definition writable :: "pa_tagstruct \<Rightarrow> bool" where
  "writable t \<longleftrightarrow> ts_type t \<noteq> PA_TAGSTRUCT_FIXED \<and> length (ts_data t) \<le> ts_allocated t"

definition writes :: "(pa_tagstruct \<Rightarrow> pa_tagstruct option) \<Rightarrow> bytes \<Rightarrow> bool" where
  "writes f bs \<longleftrightarrow> (\<forall>t. writable t \<longrightarrow>
     (\<exists>t'. f t = Some t' \<and> writable t' \<and> ts_data t' = ts_data t @ bs \<and> ts_rindex t' = ts_rindex t))"

lemma writesD: "writes f bs \<Longrightarrow> writable t \<Longrightarrow>
  \<exists>t'. f t = Some t' \<and> writable t' \<and> ts_data t' = ts_data t @ bs \<and> ts_rindex t' = ts_rindex t"
  by (simp add: writes_def)

lemma writes_bind [ts_writes]: "writes f a \<Longrightarrow> writes g b \<Longrightarrow> writes (\<lambda>t. Option.bind (f t) g) (a @ b)"
  unfolding writes_def by fastforce

lemma writes_nop [ts_writes]: "writes Some []"
  by (simp add: writes_def)

lemma writes_store: "writes (\<lambda>t. do { t \<leftarrow> extend t (length bs); store t bs }) bs"
proof -
  have "ty = PA_TAGSTRUCT_DYNAMIC \<or> ty = PA_TAGSTRUCT_APPENDED" if "ty \<noteq> PA_TAGSTRUCT_FIXED" for ty
    using that by (cases ty) auto
  then show ?thesis by (auto simp: writes_def writable_def extend_def store_def GROW_TAG_SIZE_def)
qed

lemma writes_u8 [ts_writes]: "writes (\<lambda>t. write_u8 t u) [u]"
  using writes_store [of "[u]"] by (simp add: write_u8_def)

lemma writes_u32 [ts_writes]: "writes (\<lambda>t. write_u32 t u) (be_enc 4 (unat u))"
  using writes_store [of "be_enc 4 (unat u)"] by (simp add: write_u32_def)

lemma writes_arbitrary [ts_writes]: "writes (\<lambda>t. write_arbitrary t p) p"
  using writes_store [of p] by (simp add: write_arbitrary_def)

definition u64_enc :: "64 word \<Rightarrow> bytes" where
  "u64_enc u = be_enc 4 (unat (ucast (drop_bit 32 u) :: 32 word)) @ be_enc 4 (unat (ucast u :: 32 word))"

lemma writes_u64 [ts_writes]: "writes (\<lambda>t. write_u64 t u) (u64_enc u)"
  unfolding write_u64_def u64_enc_def by (intro ts_writes)

lemma writes_each [ts_writes]:
  assumes "\<And>x. x \<in> set xs \<Longrightarrow> writes (\<lambda>t. wr t x) (enc x)"
  shows "writes (\<lambda>t. write_each wr t xs) (concat (map enc xs))"
  using assms
proof (induction xs)
  case (Cons x xs)
  then show ?case using writes_bind [of "\<lambda>t. wr t x" "enc x" "\<lambda>t. write_each wr t xs"] by simp
qed (simp add: ts_writes)

subsection \<open>The encoding of values\<close>

definition string_enc :: "bytes option \<Rightarrow> bytes" where
  "string_enc s = (case s of Some s \<Rightarrow> tag_byte PA_TAG_STRING # s @ [0] | None \<Rightarrow> [tag_byte PA_TAG_STRING_NULL])"

definition arbitrary_enc :: "bytes \<Rightarrow> bytes" where
  "arbitrary_enc p = tag_byte PA_TAG_ARBITRARY # be_enc 4 (unat (of_nat (length p) :: 32 word)) @ p"

definition u32_enc :: "32 word \<Rightarrow> bytes" where
  "u32_enc i = tag_byte PA_TAG_U32 # be_enc 4 (unat i)"

definition pair_enc :: "bytes \<times> bytes \<Rightarrow> bytes" where
  "pair_enc x = string_enc (Some (fst x)) @ u32_enc (of_nat (length (snd x))) @ arbitrary_enc (snd x)"

definition proplist_enc :: "(bytes \<times> bytes) list \<Rightarrow> bytes" where
  "proplist_enc ps = tag_byte PA_TAG_PROPLIST # concat (map pair_enc ps) @ string_enc None"

fun value_enc :: "tag_value \<Rightarrow> bytes" where
  "value_enc (V_string s) = string_enc s"
| "value_enc (V_u32 i) = u32_enc i"
| "value_enc (V_u8 c) = [tag_byte PA_TAG_U8, c]"
| "value_enc (V_u64 u) = tag_byte PA_TAG_U64 # u64_enc u"
| "value_enc (V_s64 u) = tag_byte PA_TAG_S64 # u64_enc u"
| "value_enc (V_sample_spec ss) =
     [tag_byte PA_TAG_SAMPLE_SPEC, of_int (format_num (ss_format ss)), of_nat (ss_channels ss)] @
     be_enc 4 (unat (of_nat (ss_rate ss) :: 32 word))"
| "value_enc (V_arbitrary p) = arbitrary_enc p"
| "value_enc (V_boolean b) = [tag_byte (if b then PA_TAG_BOOLEAN_TRUE else PA_TAG_BOOLEAN_FALSE)]"
| "value_enc (V_timeval tv) =
     tag_byte PA_TAG_TIMEVAL # be_enc 4 (unat (ucast (tv_sec tv) :: 32 word)) @ be_enc 4 (unat (ucast (tv_usec tv) :: 32 word))"
| "value_enc (V_usec u) = tag_byte PA_TAG_USEC # u64_enc u"
| "value_enc (V_channel_map m) =
     [tag_byte PA_TAG_CHANNEL_MAP, cm_channels m] @ concat (map (\<lambda>x. [ucast x]) (take (unat (cm_channels m)) (cm_map m)))"
| "value_enc (V_cvolume v) =
     [tag_byte PA_TAG_CVOLUME, cv_channels v] @ concat (map (\<lambda>x. be_enc 4 (unat x)) (take (unat (cv_channels v)) (cv_values v)))"
| "value_enc (V_volume v) = tag_byte PA_TAG_VOLUME # be_enc 4 (unat v)"
| "value_enc (V_proplist p) = (case p of Some p \<Rightarrow> proplist_enc (pl_pairs p) | None \<Rightarrow> [])"
| "value_enc (V_format_info f) =
     [tag_byte PA_TAG_FORMAT_INFO, tag_byte PA_TAG_U8, ucast (fi_encoding f)] @ proplist_enc (pl_pairs (fi_plist f))"

lemma writes_eq: "writes f a \<Longrightarrow> a = b \<Longrightarrow> writes f b"
  by simp

lemma writes_string [ts_writes]: "writes (\<lambda>t. pa_tagstruct_puts t s) (string_enc s)"
  by (cases s) (auto simp: pa_tagstruct_puts_def string_enc_def intro!: writes_eq [OF writes_bind] ts_writes)

lemma writes_putu32 [ts_writes]: "writes (\<lambda>t. pa_tagstruct_putu32 t i) (u32_enc i)"
  unfolding pa_tagstruct_putu32_def u32_enc_def by (rule writes_eq, (rule ts_writes)+) simp

lemma writes_putu8 [ts_writes]: "writes (\<lambda>t. pa_tagstruct_putu8 t c) [tag_byte PA_TAG_U8, c]"
  unfolding pa_tagstruct_putu8_def by (rule writes_eq, (rule ts_writes)+) simp

lemma writes_put_arbitrary [ts_writes]: "writes (\<lambda>t. pa_tagstruct_put_arbitrary t p) (arbitrary_enc p)"
  unfolding pa_tagstruct_put_arbitrary_def arbitrary_enc_def by (rule writes_eq, (rule ts_writes)+) simp

lemma writes_tag: "writes (\<lambda>t. g t) b \<Longrightarrow> writes (\<lambda>t. Option.bind (write_u8 t c) (\<lambda>t. g t)) (c # b)"
  using writes_bind [OF writes_u8, of g b c] by simp

lemma put_loop_writes:
  assumes ok: "pl_ok p" and it: "hm_iterate (pl_map p) = ys @ zs"
  shows "writes (\<lambda>t. put_proplist_loop t p (it_at zs))
    (concat (map pair_enc (map (\<lambda>e. (he_key e, pr_value (the (deref p (he_value e))))) zs)))"
  using it
proof (induction zs arbitrary: ys)
  case Nil
  have "pa_proplist_iterate p (it_at []) = Some (It_end, None)"
    using iterate_at [of "pl_map p" ys "[]"] ok Nil by (simp add: pl_ok_def pa_proplist_iterate_def)
  then show ?case by (subst put_proplist_loop.simps) (simp add: writes_def)
next
  case (Cons e zs)
  let ?v = "pr_value (the (deref p (he_value e)))"
  have x: "(he_key e, ?v) \<in> set (pl_pairs p)" using Cons.prems by (simp add: pl_pairs_def hm_pairs_def)
  then have g: "pa_proplist_get p (he_key e) = Some (Some ?v)"
    using gets_ok(2) [OF ok] map_of_is_SomeI [OF pl_pairs_distinct [OF ok]] by simp
  have w: "writes (\<lambda>t. do { t \<leftarrow> pa_tagstruct_puts t (Some (he_key e)); t \<leftarrow> pa_tagstruct_putu32 t (of_nat (length ?v));
      pa_tagstruct_put_arbitrary t ?v }) (pair_enc (he_key e, ?v))"
    unfolding pair_enc_def by (rule writes_eq, (rule ts_writes)+) simp
  have z: "writes (\<lambda>t. put_proplist_loop t p (it_at zs))
      (concat (map pair_enc (map (\<lambda>e. (he_key e, pr_value (the (deref p (he_value e))))) zs)))"
    using Cons.prems by (intro Cons.IH [of "ys @ [e]"]) simp
  have "put_proplist_loop t p (it_at (e # zs)) = Option.bind (do { t \<leftarrow> pa_tagstruct_puts t (Some (he_key e));
      t \<leftarrow> pa_tagstruct_putu32 t (of_nat (length ?v)); pa_tagstruct_put_arbitrary t ?v })
      (\<lambda>t. put_proplist_loop t p (it_at zs))" for t
    using proplist_iterate_at [OF ok Cons.prems] g
    by (subst put_proplist_loop.simps) (simp add: Option.bind_def split: option.split)
  then show ?case using writes_bind [OF w z] by simp
qed

lemma writes_put_proplist [ts_writes]:
  assumes "pl_ok p"
  shows "writes (\<lambda>t. pa_tagstruct_put_proplist t p) (proplist_enc (pl_pairs p))"
proof -
  have n: "put_proplist_loop t p It_null = put_proplist_loop t p (it_at (hm_iterate (pl_map p)))" for t
    by (subst (1 2) put_proplist_loop.simps) (simp only: pa_proplist_iterate_def iterate_null)
  have "pl_pairs p = map (\<lambda>e. (he_key e, pr_value (the (deref p (he_value e))))) (hm_iterate (pl_map p))"
    by (simp add: pl_pairs_def hm_pairs_def)
  then have l: "writes (\<lambda>t. put_proplist_loop t p It_null) (concat (map pair_enc (pl_pairs p)))"
    unfolding n using put_loop_writes [OF assms, of "[]"] by simp
  show ?thesis unfolding pa_tagstruct_put_proplist_def proplist_enc_def
    by (rule writes_tag, rule writes_bind [OF l writes_string])
qed

text \<open>Values a writer accepts: the arrays of the structs hold the announced channels.\<close>

fun value_fits :: "tag_value \<Rightarrow> bool" where
  "value_fits (V_channel_map m) = (unat (cm_channels m) \<le> length (cm_map m))"
| "value_fits (V_cvolume v) = (unat (cv_channels v) \<le> length (cv_values v))"
| "value_fits (V_proplist p) = (case p of Some p \<Rightarrow> pl_ok p | None \<Rightarrow> False)"
| "value_fits (V_format_info f) = pl_ok (fi_plist f)"
| "value_fits _ = True"

lemmas put_defs =
  pa_tagstruct_putu64_def pa_tagstruct_puts64_def pa_tagstruct_put_sample_spec_def pa_tagstruct_put_boolean_def
  pa_tagstruct_put_timeval_def pa_tagstruct_put_usec_def pa_tagstruct_put_channel_map_def pa_tagstruct_put_cvolume_def
  pa_tagstruct_put_volume_def pa_tagstruct_put_format_info_def array_prefix_def

lemma put_value_writes:
  assumes "value_fits v"
  shows "writes (\<lambda>t. put_value t v) (value_enc v)"
proof (cases v)
  case (V_string s)
  then show ?thesis by (simp add: writes_string)
next
  case (V_u32 i)
  then show ?thesis by (simp add: writes_putu32)
next
  case (V_u8 c)
  then show ?thesis by (simp add: writes_putu8)
next
  case (V_arbitrary p)
  then show ?thesis by (simp add: writes_put_arbitrary)
next
  case (V_proplist p)
  then show ?thesis using assms writes_put_proplist by (auto split: option.splits)
next
  case (V_channel_map m)
  have "writes (\<lambda>t. write_each (\<lambda>t x. write_u8 t (ucast x)) t (take (unat (cm_channels m)) (cm_map m)))
      (concat (map (\<lambda>x. [ucast x]) (take (unat (cm_channels m)) (cm_map m))))"
    by (intro ts_writes)
  then show ?thesis using V_channel_map assms by (auto simp: put_defs intro!: writes_tag)
next
  case (V_cvolume m)
  have "writes (\<lambda>t. write_each write_u32 t (take (unat (cv_channels m)) (cv_values m)))
      (concat (map (\<lambda>x. be_enc 4 (unat x)) (take (unat (cv_channels m)) (cv_values m))))"
    by (intro ts_writes)
  then show ?thesis using V_cvolume assms by (auto simp: put_defs intro!: writes_tag)
next
  case (V_format_info f)
  then show ?thesis using assms writes_tag [OF writes_bind [OF writes_putu8 writes_put_proplist]]
    by (simp add: put_defs)
qed (auto simp: put_defs intro!: writes_tag ts_writes)

subsection \<open>What readers consume\<close>

definition reads :: "'a reader \<Rightarrow> bytes \<Rightarrow> 'a \<Rightarrow> bool" where
  "reads f bs x \<longleftrightarrow> (\<forall>t pre post. ts_data t = pre @ bs @ post \<longrightarrow> ts_rindex t = length pre \<longrightarrow>
     f t = Some (t\<lparr>ts_rindex := length pre + length bs\<rparr>, Some x))"

lemma readsD: "reads f bs x \<Longrightarrow> ts_data t = pre @ bs @ post \<Longrightarrow> ts_rindex t = length pre \<Longrightarrow>
  f t = Some (t\<lparr>ts_rindex := length pre + length bs\<rparr>, Some x)"
  by (simp add: reads_def)

lemma read_then_Some [simp]: "read_then (Some (t, Some x)) f = f t x"
  by (simp add: read_then_def)

lemma reads_then [ts_reads]:
  assumes f: "reads f a x" and g: "reads (\<lambda>t. g t x) b y"
  shows "reads (\<lambda>t. read_then (f t) g) (a @ b) y"
  unfolding reads_def
proof (intro allI impI)
  fix t :: pa_tagstruct and pre post assume t: "ts_data t = pre @ (a @ b) @ post" "ts_rindex t = length pre"
  let ?t = "t\<lparr>ts_rindex := length pre + length a\<rparr>"
  have "f t = Some (?t, Some x)" using f t by (simp add: reads_def)
  moreover have "g ?t x = Some (?t\<lparr>ts_rindex := length (pre @ a) + length b\<rparr>, Some y)"
    using readsD [OF g, of ?t "pre @ a" post] t by simp
  ultimately show "read_then (f t) g = Some (t\<lparr>ts_rindex := length pre + length (a @ b)\<rparr>, Some y)"
    by (simp add: add.assoc)
qed

lemma reads_return [ts_reads]: "reads (\<lambda>t. Some (t, Some y)) [] y"
  by (simp add: reads_def)

lemma reads_map: "reads f a x \<Longrightarrow> reads (\<lambda>t. read_then (f t) (\<lambda>t x. Some (t, Some (h x)))) a (h x)"
  using reads_then [of f a x "\<lambda>t x. Some (t, Some (h x))" "[]"] reads_return by fastforce

lemma reads_bytes [ts_reads]: "n = length bs \<Longrightarrow> reads (read_bytes n) bs bs"
  by (simp add: reads_def read_bytes_def load_bytes_def)

lemma reads_u8 [ts_reads]: "reads read_u8 [u] u"
  using reads_map [OF reads_bytes [of 1 "[u]"], of hd] by (simp add: read_u8_def [abs_def])

lemma reads_u32 [ts_reads]: "reads read_u32 (be_enc 4 (unat u)) u"
  using reads_map [OF reads_bytes [of 4 "be_enc 4 (unat u)"], of "\<lambda>bs. of_nat (be_dec bs) :: 32 word"]
  by (simp add: read_u32_def [abs_def])

lemma u64_join: "or (push_bit 32 (ucast (ucast (drop_bit 32 u) :: 32 word))) (ucast (ucast u :: 32 word)) = u" for u :: "64 word"
  by (rule bit_word_eqI) (auto simp: bit_simps)

lemma reads_u64 [ts_reads]: "reads read_u64 (u64_enc u) u" "reads read_s64 (u64_enc u) u"
proof -
  have "reads (\<lambda>t. read_then (read_u32 t) (\<lambda>t hi. read_then (read_u32 t) (\<lambda>t lo. Some (t, Some (or (push_bit 32 (ucast hi)) (ucast lo))))))
      (u64_enc u) (or (push_bit 32 (ucast (ucast (drop_bit 32 u) :: 32 word))) (ucast (ucast u :: 32 word)) :: 64 word)"
    unfolding u64_enc_def by (rule reads_then [OF reads_u32], rule reads_map [OF reads_u32])
  then show "reads read_u64 (u64_enc u) u" "reads read_s64 (u64_enc u) u"
    by (simp_all add: read_u64_def [abs_def] read_s64_def [abs_def] u64_join)
qed

lemma peek_byte_mid: "ts_data t = pre @ b # post \<Longrightarrow> ts_rindex t = length pre \<Longrightarrow> peek_byte t = Some b"
  by (simp add: peek_byte_def)

lemma reads_tag: "reads g b y \<Longrightarrow> reads (\<lambda>t. read_then (read_tag tag t) (\<lambda>t _. g t)) (tag_byte tag # b) y"
proof -
  assume g: "reads g b y"
  have "reads (read_tag tag) [tag_byte tag] ()" by (simp add: reads_def read_tag_def peek_byte_mid)
  from reads_then [OF this, of "\<lambda>t _. g t" b y] g show ?thesis by simp
qed

lemma tag_byte_inj: "tag_byte a = tag_byte b \<longleftrightarrow> a = b"
  by (cases a; cases b) (simp_all add: tag_byte.simps)

lemma reads_gets [ts_reads]:
  assumes "\<And>s. x = Some s \<Longrightarrow> 0 \<notin> set s"
  shows "reads pa_tagstruct_gets (string_enc x) x"
proof (cases x)
  case None
  then show ?thesis by (simp add: reads_def pa_tagstruct_gets_def string_enc_def peek_byte_mid)
next
  case (Some s)
  show ?thesis unfolding reads_def
  proof (intro allI impI)
    fix t :: pa_tagstruct and pre post assume t: "ts_data t = pre @ string_enc x @ post" "ts_rindex t = length pre"
    let ?t = "t\<lparr>ts_rindex := length pre + 1\<rparr>"
    have r: "read_tag PA_TAG_STRING t = Some (?t, Some ())"
      using t Some by (simp add: read_tag_def peek_byte_mid string_enc_def)
    have d: "drop (length pre + 1) (ts_data t) = s @ 0 # post" using t Some by (simp add: string_enc_def)
    have w: "takeWhile (\<lambda>c. c \<noteq> 0) (s @ 0 # post) = s" using assms [OF Some] by (subst takeWhile_append2) auto
    have "tag_byte PA_TAG_STRING \<noteq> tag_byte PA_TAG_STRING_NULL" by (simp add: tag_byte_inj)
    then show "pa_tagstruct_gets t = Some (t\<lparr>ts_rindex := length pre + length (string_enc x)\<rparr>, Some x)"
      using t Some r d w by (simp add: pa_tagstruct_gets_def peek_byte_mid string_enc_def Let_def)
  qed
qed

lemma reads_getu32 [ts_reads]: "reads pa_tagstruct_getu32 (u32_enc i) i"
  unfolding pa_tagstruct_getu32_def [abs_def] u32_enc_def by (rule reads_tag [OF reads_u32])

lemma reads_getu8 [ts_reads]: "reads pa_tagstruct_getu8 [tag_byte PA_TAG_U8, c] c"
  unfolding pa_tagstruct_getu8_def [abs_def] by (rule reads_tag [OF reads_u8])

lemma reads_get_arbitrary [ts_reads]:
  assumes "n = length p" "length p < 2 ^ 32"
  shows "reads (pa_tagstruct_get_arbitrary n) (arbitrary_enc p) p"
proof -
  have n: "unat (of_nat (length p) :: 32 word) = n" using assms by (simp add: unat_of_nat)
  have "reads (\<lambda>t. if unat (of_nat (length p) :: 32 word) \<noteq> n then Some (t, None) else read_arbitrary n t) p p"
    using n reads_bytes [OF assms(1)] by (simp add: read_arbitrary_def [abs_def])
  then show ?thesis unfolding pa_tagstruct_get_arbitrary_def [abs_def] arbitrary_enc_def
    by (intro reads_tag reads_then [OF reads_u32])
qed

lemma reads_each:
  assumes "\<And>x. x \<in> set xs \<Longrightarrow> reads rd (enc x) x" "i + length xs \<le> length arr"
  shows "reads (read_each rd arr i (length xs)) (concat (map enc xs)) (take i arr @ xs @ drop (i + length xs) arr)"
  using assms
proof (induction xs arbitrary: arr i)
  case Nil
  then show ?case using reads_return by (simp add: fun_eq_iff [symmetric])
next
  case (Cons x xs)
  have "reads (read_each rd (arr[i := x]) (i + 1) (length xs)) (concat (map enc xs))
      (take (i + 1) (arr[i := x]) @ xs @ drop (i + 1 + length xs) (arr[i := x]))"
    using Cons.prems by (intro Cons.IH) auto
  then have "reads (\<lambda>t. if i < length arr then read_each rd (arr[i := x]) (i + 1) (length xs) t else None) (concat (map enc xs))
      (take i arr @ (x # xs) @ drop (i + length (x # xs)) arr)"
    using Cons.prems(2) by (simp add: take_Suc_conv_app_nth)
  then show ?case using Cons.prems(1)
      reads_then [of rd "enc x" x "\<lambda>t x. if i < length arr then read_each rd (arr[i := x]) (i + 1) (length xs) t else None"]
    by simp
qed

subsection \<open>Property lists\<close>

definition entry_ok :: "bytes \<times> bytes \<Rightarrow> bool" where
  "entry_ok x \<longleftrightarrow> pa_proplist_key_valid (fst x) \<and> 0 \<notin> set (fst x) \<and> length (snd x) \<le> MAX_TAG_SIZE"

lemma reads_entry:
  assumes "entry_ok (k, v)"
  shows "reads read_entry (pair_enc (k, v)) (Some (k, v))"
proof -
  have l: "length v < 2 ^ 32" "length v \<le> MAX_TAG_SIZE" "pa_proplist_key_valid k" "0 \<notin> set k"
    using assms by (auto simp: entry_ok_def MAX_TAG_SIZE_def)
  have n: "unat (of_nat (length v) :: 32 word) = length v" using l(1) by (simp add: unat_of_nat)
  have 1: "reads pa_tagstruct_gets (string_enc (Some k)) (Some k)" using l(4) by (intro reads_gets) simp
  have "reads (\<lambda>t. read_then (pa_tagstruct_get_arbitrary (length v) t) (\<lambda>t d. Some (t, Some (Some (k, d)))))
      (arbitrary_enc v) (Some (k, v))"
    by (rule reads_map [OF reads_get_arbitrary [OF refl l(1)]])
  then have "reads (entry_value k) (u32_enc (of_nat (length v)) @ arbitrary_enc v) (Some (k, v))"
    unfolding entry_value_def [abs_def] using l(2) by (intro reads_then [OF reads_getu32]) (simp add: n)
  then show ?thesis unfolding read_entry_def [abs_def] pair_enc_def
    using l(3) by (intro reads_then) (auto intro: 1 [simplified])
qed

lemma reads_entry_end: "reads read_entry (string_enc None) None"
proof -
  have "reads pa_tagstruct_gets (string_enc None) None" by (intro reads_gets) simp
  then have "reads read_entry (string_enc None @ []) None"
    unfolding read_entry_def [abs_def] by (rule reads_then) (simp add: reads_return)
  then show ?thesis by simp
qed

text \<open>Reading a printed list into another one updates that one, as \<open>PA_UPDATE_REPLACE\<close> does.\<close>

lemma get_loop_reads:
  assumes "pl_ok pl" "list_all entry_ok ps" "length (pl_pairs pl) + length ps < 2 ^ 32"
    "ts_data t = pre @ (concat (map pair_enc ps) @ string_enc None) @ post" "ts_rindex t = length pre"
  shows "\<exists>pl'. get_proplist_loop t (Some pl) =
      Some (t\<lparr>ts_rindex := length pre + length (concat (map pair_enc ps) @ string_enc None)\<rparr>, Some pl', True) \<and>
    pl_ok pl' \<and> pl_pairs pl' = merge_pairs PA_UPDATE_REPLACE (pl_pairs pl) ps"
  using assms
proof (induction ps arbitrary: pl t pre)
  case Nil
  then have "read_entry t = Some (t\<lparr>ts_rindex := length pre + length (string_enc None)\<rparr>, Some None)"
    using readsD [OF reads_entry_end] by simp
  then show ?case using Nil.prems(1) by (subst get_proplist_loop.simps) (simp add: merge_pairs_def)
next
  case (Cons x ps)
  obtain k v where x: "x = (k, v)" by (cases x)
  let ?t = "t\<lparr>ts_rindex := length pre + length (pair_enc x)\<rparr>"
  have e: "entry_ok (k, v)" using Cons.prems(2) x by simp
  have r: "read_entry t = Some (?t, Some (Some (k, v)))"
    using readsD [OF reads_entry [OF e]] Cons.prems(4,5) x by simp
  obtain pl' where pl': "pa_proplist_set pl k v = Some (pl', 0)" "pl_ok pl'" "pl_pairs pl' = AList.update k v (pl_pairs pl)"
    using set_ok [OF Cons.prems(1), of k v] e Cons.prems(3) by (auto simp: entry_ok_def)
  have l: "length (pl_pairs pl') + length ps < 2 ^ 32" using update_length [of k v "pl_pairs pl"] Cons.prems(3) pl'(3) by simp
  have d: "ts_data ?t = (pre @ pair_enc x) @ (concat (map pair_enc ps) @ string_enc None) @ post"
    "ts_rindex ?t = length (pre @ pair_enc x)"
    using Cons.prems(4) by simp_all
  have "list_all entry_ok ps" using Cons.prems(2) by simp
  from Cons.IH [OF pl'(2) this l d] show ?case using r pl' x
    by (subst get_proplist_loop.simps) (auto simp: merge_pairs_def merge_pair_def add.assoc)
qed

lemma get_proplist_reads:
  assumes "pl_ok pl" "list_all entry_ok ps" "length (pl_pairs pl) + length ps < 2 ^ 32"
    "ts_data t = pre @ proplist_enc ps @ post" "ts_rindex t = length pre"
  shows "\<exists>pl'. pa_tagstruct_get_proplist (Some pl) t =
      Some (t\<lparr>ts_rindex := length pre + length (proplist_enc ps)\<rparr>, Some pl', True) \<and>
    pl_ok pl' \<and> pl_pairs pl' = merge_pairs PA_UPDATE_REPLACE (pl_pairs pl) ps"
proof -
  let ?t = "t\<lparr>ts_rindex := length pre + 1\<rparr>"
  have "read_tag PA_TAG_PROPLIST t = Some (?t, Some ())"
    using assms(4,5) by (simp add: read_tag_def peek_byte_mid proplist_enc_def)
  moreover have "ts_data ?t = (pre @ [tag_byte PA_TAG_PROPLIST]) @ (concat (map pair_enc ps) @ string_enc None) @ post"
    "ts_rindex ?t = length (pre @ [tag_byte PA_TAG_PROPLIST])" using assms(4) by (simp_all add: proplist_enc_def)
  from get_loop_reads [OF assms(1-3) this] obtain pl' where "get_proplist_loop ?t (Some pl) =
      Some (?t\<lparr>ts_rindex := length (pre @ [tag_byte PA_TAG_PROPLIST]) + length (concat (map pair_enc ps) @ string_enc None)\<rparr>,
        Some pl', True)" "pl_ok pl'" "pl_pairs pl' = merge_pairs PA_UPDATE_REPLACE (pl_pairs pl) ps" by blast
  ultimately show ?thesis by (simp add: pa_tagstruct_get_proplist_def proplist_enc_def)
qed

subsection \<open>Reading back a value\<close>

text \<open>Values that survive the narrowing of the wire format.\<close>

fun value_ok :: "tag_value \<Rightarrow> bool" where
  "value_ok (V_string s) = (case s of Some s \<Rightarrow> 0 \<notin> set s | None \<Rightarrow> True)"
| "value_ok (V_sample_spec ss) =
     (format_of_num (format_num (ss_format ss)) = ss_format ss \<and> format_num (ss_format ss) \<in> {0..<256} \<and>
      ss_channels ss < 256 \<and> ss_rate ss < 2 ^ 32)"
| "value_ok (V_arbitrary p) = (length p < 2 ^ 32)"
| "value_ok (V_timeval tv) = (unat (tv_sec tv) < 2 ^ 32 \<and> unat (tv_usec tv) < 2 ^ 32)"
| "value_ok (V_channel_map m) =
     (unat (cm_channels m) \<le> PA_CHANNELS_MAX \<and> length (cm_map m) = PA_CHANNELS_MAX \<and> (\<forall>x \<in> set (cm_map m). unat x < 256))"
| "value_ok (V_cvolume v) = (unat (cv_channels v) \<le> PA_CHANNELS_MAX \<and> length (cv_values v) = PA_CHANNELS_MAX)"
| "value_ok (V_proplist p) =
     (case p of Some p \<Rightarrow> pl_ok p \<and> list_all entry_ok (pl_pairs p) \<and> length (pl_pairs p) < 2 ^ 32 | None \<Rightarrow> False)"
| "value_ok (V_format_info f) =
     (unat (fi_encoding f) < 256 \<and> pl_ok (fi_plist f) \<and> list_all entry_ok (pl_pairs (fi_plist f)) \<and>
      length (pl_pairs (fi_plist f)) < 2 ^ 32)"
| "value_ok _ = True"

text \<open>The tags of values and requests; booleans and strings have two.\<close>

fun value_tag :: "tag_value \<Rightarrow> pa_tag" where
  "value_tag (V_string _) = PA_TAG_STRING"
| "value_tag (V_u32 _) = PA_TAG_U32"
| "value_tag (V_u8 _) = PA_TAG_U8"
| "value_tag (V_u64 _) = PA_TAG_U64"
| "value_tag (V_s64 _) = PA_TAG_S64"
| "value_tag (V_sample_spec _) = PA_TAG_SAMPLE_SPEC"
| "value_tag (V_arbitrary _) = PA_TAG_ARBITRARY"
| "value_tag (V_boolean _) = PA_TAG_BOOLEAN_TRUE"
| "value_tag (V_timeval _) = PA_TAG_TIMEVAL"
| "value_tag (V_usec _) = PA_TAG_USEC"
| "value_tag (V_channel_map _) = PA_TAG_CHANNEL_MAP"
| "value_tag (V_cvolume _) = PA_TAG_CVOLUME"
| "value_tag (V_volume _) = PA_TAG_VOLUME"
| "value_tag (V_proplist _) = PA_TAG_PROPLIST"
| "value_tag (V_format_info _) = PA_TAG_FORMAT_INFO"

fun request_tag :: "tag_request \<Rightarrow> pa_tag" where
  "request_tag R_string = PA_TAG_STRING"
| "request_tag R_u32 = PA_TAG_U32"
| "request_tag R_u8 = PA_TAG_U8"
| "request_tag R_u64 = PA_TAG_U64"
| "request_tag R_s64 = PA_TAG_S64"
| "request_tag R_sample_spec = PA_TAG_SAMPLE_SPEC"
| "request_tag (R_arbitrary _) = PA_TAG_ARBITRARY"
| "request_tag R_boolean = PA_TAG_BOOLEAN_TRUE"
| "request_tag R_timeval = PA_TAG_TIMEVAL"
| "request_tag R_usec = PA_TAG_USEC"
| "request_tag (R_channel_map _) = PA_TAG_CHANNEL_MAP"
| "request_tag (R_cvolume _) = PA_TAG_CVOLUME"
| "request_tag R_volume = PA_TAG_VOLUME"
| "request_tag (R_proplist _) = PA_TAG_PROPLIST"
| "request_tag (R_format_info _) = PA_TAG_FORMAT_INFO"

fun arbitrary_length :: "tag_value \<Rightarrow> nat" where
  "arbitrary_length (V_arbitrary p) = length p"
| "arbitrary_length _ = 0"

text \<open>The request that reads a value; arrays have their size, lists to be filled are new.\<close>

definition asks_for :: "tag_request \<Rightarrow> tag_value \<Rightarrow> bool" where
  "asks_for q v \<longleftrightarrow> request_tag q = value_tag v \<and>
     (case q of
        R_arbitrary n \<Rightarrow> n = arbitrary_length v
      | R_channel_map m \<Rightarrow> length (cm_map m) = PA_CHANNELS_MAX
      | R_cvolume v \<Rightarrow> length (cv_values v) = PA_CHANNELS_MAX
      | R_proplist p \<Rightarrow> (case p of Some p \<Rightarrow> pl_ok p \<and> pl_pairs p = [] | None \<Rightarrow> False)
      | R_format_info f \<Rightarrow> pl_ok (fi_plist f) \<and> pl_pairs (fi_plist f) = []
      | _ \<Rightarrow> True)"

text \<open>Equality of values: structs up to the elements beyond their channels, lists up to their heap.\<close>

definition same_value :: "tag_value \<Rightarrow> tag_value \<Rightarrow> bool" where
  "same_value a b \<longleftrightarrow>
     (case (a, b) of
        (V_channel_map a, V_channel_map b) \<Rightarrow>
          cm_channels a = cm_channels b \<and> take (unat (cm_channels a)) (cm_map a) = take (unat (cm_channels a)) (cm_map b)
      | (V_cvolume a, V_cvolume b) \<Rightarrow>
          cv_channels a = cv_channels b \<and> take (unat (cv_channels a)) (cv_values a) = take (unat (cv_channels a)) (cv_values b)
      | (V_proplist (Some a), V_proplist (Some b)) \<Rightarrow> pl_ok b \<and> pl_pairs a = pl_pairs b
      | (V_format_info a, V_format_info b) \<Rightarrow>
          fi_encoding a = fi_encoding b \<and> pl_ok (fi_plist b) \<and> pl_pairs (fi_plist a) = pl_pairs (fi_plist b)
      | _ \<Rightarrow> a = b)"

lemma u8_u32: "unat x < 256 \<Longrightarrow> ucast (ucast x :: byte) = x" for x :: "32 word"
  by (simp add: word_unat_eq_iff unsigned_ucast_eq take_bit_eq_mod unat_mod)

lemma u32_u64: "unat x < 2 ^ 32 \<Longrightarrow> ucast (ucast x :: 32 word) = x" for x :: "64 word"
  by (simp add: word_unat_eq_iff unsigned_ucast_eq take_bit_eq_mod unat_mod)

text \<open>Values without struct or list arguments are read back unchanged.\<close>

lemma sample_spec_reads:
  assumes "value_ok (V_sample_spec ss)"
  shows "reads pa_tagstruct_get_sample_spec (value_enc (V_sample_spec ss)) ss"
proof -
  let ?f = "of_int (format_num (ss_format ss)) :: byte"
  have f: "uint ?f = format_num (ss_format ss)" using assms by (simp add: uint_word_of_int)
  have c: "unat (of_nat (ss_channels ss) :: byte) = ss_channels ss" "unat (of_nat (ss_rate ss) :: 32 word) = ss_rate ss"
    using assms by (simp_all add: unat_of_nat)
  have "reads (\<lambda>t. read_then (read_u32 t) (\<lambda>t rate. Some (t, Some
      \<lparr>ss_format = format_of_num (uint ?f), ss_rate = unat rate, ss_channels = unat (of_nat (ss_channels ss) :: byte)\<rparr>)))
      (be_enc 4 (unat (of_nat (ss_rate ss) :: 32 word))) ss"
    using reads_map [OF reads_u32 [of "of_nat (ss_rate ss)"], of "\<lambda>rate. \<lparr>ss_format = format_of_num (uint ?f), ss_rate = unat rate,
      ss_channels = unat (of_nat (ss_channels ss) :: byte)\<rparr>"] f c assms by (cases ss) simp
  then have "reads pa_tagstruct_get_sample_spec (tag_byte PA_TAG_SAMPLE_SPEC # [?f] @ [of_nat (ss_channels ss)] @
      be_enc 4 (unat (of_nat (ss_rate ss) :: 32 word))) ss"
    unfolding pa_tagstruct_get_sample_spec_def [abs_def]
    by (intro reads_tag reads_then [OF reads_u8])
  then show ?thesis by simp
qed

lemma timeval_reads:
  assumes "value_ok (V_timeval tv)"
  shows "reads pa_tagstruct_get_timeval (value_enc (V_timeval tv)) tv"
proof -
  let ?s = "ucast (tv_sec tv) :: 32 word" and ?u = "ucast (tv_usec tv) :: 32 word"
  have "reads (\<lambda>t. read_then (read_u32 t) (\<lambda>t usec. Some (t, Some \<lparr>tv_sec = ucast ?s, tv_usec = ucast usec\<rparr>)))
      (be_enc 4 (unat ?u)) tv"
    using reads_map [OF reads_u32 [of ?u], of "\<lambda>usec. \<lparr>tv_sec = ucast ?s, tv_usec = ucast usec\<rparr>"] assms
    by (cases tv) (simp add: u32_u64)
  then show ?thesis unfolding pa_tagstruct_get_timeval_def [abs_def] value_enc.simps
    by (intro reads_tag reads_then [OF reads_u32])
qed

lemma boolean_reads: "reads pa_tagstruct_get_boolean (value_enc (V_boolean b)) b"
  by (cases b) (simp_all add: reads_def pa_tagstruct_get_boolean_def peek_byte_mid tag_byte_inj)

lemma channel_map_reads:
  assumes ok: "value_ok (V_channel_map m)" and l: "length (cm_map m') = PA_CHANNELS_MAX"
  shows "\<exists>w. reads (pa_tagstruct_get_channel_map m') (value_enc (V_channel_map m)) w \<and>
    same_value (V_channel_map m) (V_channel_map w)"
proof -
  let ?n = "unat (cm_channels m)"
  let ?xs = "take ?n (cm_map m)"
  let ?rd = "\<lambda>t. read_then (read_u8 t) (\<lambda>t tmp. Some (t, Some (ucast tmp :: 32 word)))"
  have n: "length ?xs = ?n" "\<not> ?n > PA_CHANNELS_MAX" "?n \<le> length (cm_map m')" using ok l by simp_all
  have "reads ?rd [ucast x] x" if "x \<in> set ?xs" for x
    using reads_map [OF reads_u8 [of "ucast x"], of "ucast :: byte \<Rightarrow> 32 word"] ok that u8_u32 [of x]
    by (auto dest!: in_set_takeD)
  from reads_each [of ?xs ?rd "\<lambda>x. [ucast x]" 0 "cm_map m'", OF this]
  have r: "reads (read_each ?rd (cm_map m') 0 ?n) (concat (map (\<lambda>x. [ucast x]) ?xs)) (?xs @ drop ?n (cm_map m'))"
    using n by simp
  have "reads (\<lambda>t. if ?n > PA_CHANNELS_MAX then Some (t, None) else read_then (read_each ?rd (cm_map m') 0 ?n t)
      (\<lambda>t xs. Some (t, Some \<lparr>cm_channels = cm_channels m, cm_map = xs\<rparr>))) (concat (map (\<lambda>x. [ucast x]) ?xs))
      \<lparr>cm_channels = cm_channels m, cm_map = ?xs @ drop ?n (cm_map m')\<rparr>"
    using reads_map [OF r] n(2) by simp
  from reads_tag [OF reads_then [OF reads_u8 [of "cm_channels m"], where g = "\<lambda>t channels.
      if unat channels > PA_CHANNELS_MAX then Some (t, None) else read_then (read_each ?rd (cm_map m') 0 (unat channels) t)
      (\<lambda>t xs. Some (t, Some \<lparr>cm_channels = channels, cm_map = xs\<rparr>))", OF this], of PA_TAG_CHANNEL_MAP]
  have "reads (pa_tagstruct_get_channel_map m') (value_enc (V_channel_map m))
      \<lparr>cm_channels = cm_channels m, cm_map = ?xs @ drop ?n (cm_map m')\<rparr>"
    by (simp add: pa_tagstruct_get_channel_map_def [abs_def])
  moreover have "same_value (V_channel_map m) (V_channel_map \<lparr>cm_channels = cm_channels m, cm_map = ?xs @ drop ?n (cm_map m')\<rparr>)"
    using n by (simp add: same_value_def)
  ultimately show ?thesis by blast
qed

lemma cvolume_reads:
  assumes ok: "value_ok (V_cvolume m)" and l: "length (cv_values m') = PA_CHANNELS_MAX"
  shows "\<exists>w. reads (pa_tagstruct_get_cvolume m') (value_enc (V_cvolume m)) w \<and> same_value (V_cvolume m) (V_cvolume w)"
proof -
  let ?n = "unat (cv_channels m)"
  let ?xs = "take ?n (cv_values m)"
  have n: "length ?xs = ?n" "\<not> ?n > PA_CHANNELS_MAX" "?n \<le> length (cv_values m')" using ok l by simp_all
  from reads_each [of ?xs read_u32 "\<lambda>x. be_enc 4 (unat x)" 0 "cv_values m'", OF reads_u32]
  have r: "reads (read_each read_u32 (cv_values m') 0 ?n) (concat (map (\<lambda>x. be_enc 4 (unat x)) ?xs)) (?xs @ drop ?n (cv_values m'))"
    using n by simp
  have "reads (\<lambda>t. if ?n > PA_CHANNELS_MAX then Some (t, None) else read_then (read_each read_u32 (cv_values m') 0 ?n t)
      (\<lambda>t xs. Some (t, Some \<lparr>cv_channels = cv_channels m, cv_values = xs\<rparr>))) (concat (map (\<lambda>x. be_enc 4 (unat x)) ?xs))
      \<lparr>cv_channels = cv_channels m, cv_values = ?xs @ drop ?n (cv_values m')\<rparr>"
    using reads_map [OF r] n(2) by simp
  from reads_tag [OF reads_then [OF reads_u8 [of "cv_channels m"], where g = "\<lambda>t channels.
      if unat channels > PA_CHANNELS_MAX then Some (t, None) else read_then (read_each read_u32 (cv_values m') 0 (unat channels) t)
      (\<lambda>t xs. Some (t, Some \<lparr>cv_channels = channels, cv_values = xs\<rparr>))", OF this], of PA_TAG_CVOLUME]
  have "reads (pa_tagstruct_get_cvolume m') (value_enc (V_cvolume m))
      \<lparr>cv_channels = cv_channels m, cv_values = ?xs @ drop ?n (cv_values m')\<rparr>"
    by (simp add: pa_tagstruct_get_cvolume_def [abs_def])
  moreover have "same_value (V_cvolume m) (V_cvolume \<lparr>cv_channels = cv_channels m, cv_values = ?xs @ drop ?n (cv_values m')\<rparr>)"
    using n by (simp add: same_value_def)
  ultimately show ?thesis by blast
qed

end
