(* ===== verification/Tagstruct_Props.thy ===== *)
theory Tagstruct_Props
  imports Tagstruct_Wire
begin

text \<open>
  Packets of tagged values: the interface between a writer and a reader of a kind of values as the
  locale \<open>stream_codec\<close>, interpreted on the fifteen kinds of values of \<open>tagstruct.c\<close>; whole packets
  are read back, and a value is read at its own type only.
\<close>

subsection \<open>Sequences of values\<close>

definition reads_as :: "'a reader \<Rightarrow> bytes \<Rightarrow> ('a \<Rightarrow> bool) \<Rightarrow> bool" where
  "reads_as f bs P \<longleftrightarrow> (\<forall>t pre post. ts_data t = pre @ bs @ post \<longrightarrow> ts_rindex t = length pre \<longrightarrow>
     (\<exists>x. f t = Some (t\<lparr>ts_rindex := length pre + length bs\<rparr>, Some x) \<and> P x))"

lemma reads_asI: "reads f bs x \<Longrightarrow> P x \<Longrightarrow> reads_as f bs P"
  unfolding reads_def reads_as_def by blast

lemma reads_as_then:
  assumes f: "reads_as f a P" and g: "\<And>x. P x \<Longrightarrow> reads_as (\<lambda>t. g t x) b Q"
  shows "reads_as (\<lambda>t. read_then (f t) g) (a @ b) Q"
  unfolding reads_as_def
proof (intro allI impI)
  fix t :: pa_tagstruct and pre post assume t: "ts_data t = pre @ (a @ b) @ post" "ts_rindex t = length pre"
  let ?t = "t\<lparr>ts_rindex := length pre + length a\<rparr>"
  obtain x where x: "f t = Some (?t, Some x)" "P x" using f t by (auto simp: reads_as_def)
  have "ts_data ?t = (pre @ a) @ b @ post" "ts_rindex ?t = length (pre @ a)" using t by simp_all
  then obtain y where "g ?t x = Some (?t\<lparr>ts_rindex := length (pre @ a) + length b\<rparr>, Some y)" "Q y"
    using g [OF x(2)] unfolding reads_as_def by blast
  then show "\<exists>y. read_then (f t) g = Some (t\<lparr>ts_rindex := length pre + length (a @ b)\<rparr>, Some y) \<and> Q y"
    using x by (simp add: add.assoc)
qed

fun read_all :: "('q \<Rightarrow> 'w reader) \<Rightarrow> 'q list \<Rightarrow> 'w list reader" where
  "read_all get [] t = Some (t, Some [])"
| "read_all get (q # qs) t = read_then (get q t) (\<lambda>t w. read_then (read_all get qs t) (\<lambda>t ws. Some (t, Some (w # ws))))"

text \<open>
  The contract between the writer and the reader of a kind of values: the writer appends an
  encoding, and the request that asks for the value reads it back from there.
\<close>

locale stream_codec =
  fixes able :: "'v \<Rightarrow> bool"
    and enc :: "'v \<Rightarrow> bytes"
    and put :: "pa_tagstruct \<Rightarrow> 'v \<Rightarrow> pa_tagstruct option"
    and get :: "'q \<Rightarrow> 'w reader"
    and asks :: "'q \<Rightarrow> 'v \<Rightarrow> bool"
    and same :: "'v \<Rightarrow> 'w \<Rightarrow> bool"
  assumes put_writes: "able v \<Longrightarrow> writes (\<lambda>t. put t v) (enc v)"
    and get_reads: "able v \<Longrightarrow> asks q v \<Longrightarrow> reads_as (get q) (enc v) (same v)"
begin

lemma puts_write: "list_all able vs \<Longrightarrow> writes (\<lambda>t. write_each put t vs) (concat (map enc vs))"
  by (rule writes_each) (auto simp: list_all_iff intro: put_writes)

lemma gets_read:
  "list_all able vs \<Longrightarrow> list_all2 asks qs vs \<Longrightarrow> reads_as (read_all get qs) (concat (map enc vs)) (list_all2 same vs)"
proof (induction vs arbitrary: qs)
  case Nil
  then show ?case by (simp add: reads_as_def)
next
  case (Cons v vs)
  then obtain q qs' where q: "qs = q # qs'" "asks q v" "list_all2 asks qs' vs" by (auto simp: list_all2_Cons2)
  have tail: "reads_as (read_all get qs') (concat (map enc vs)) (list_all2 same vs)"
    using Cons q by (intro Cons.IH) simp_all
  have "reads_as (\<lambda>t. read_then (read_all get qs' t) (\<lambda>t ws. Some (t, Some (w # ws)))) (concat (map enc vs) @ [])
      (list_all2 same (v # vs))" if "same v w" for w
    by (rule reads_as_then [OF tail]) (use that in \<open>simp add: reads_as_def\<close>)
  then have w: "reads_as (\<lambda>t. read_then (read_all get qs' t) (\<lambda>t ws. Some (t, Some (w # ws)))) (concat (map enc vs))
      (list_all2 same (v # vs))" if "same v w" for w using that by simp
  have "able v" using Cons.prems by simp
  from reads_as_then [OF get_reads [OF this q(2)] w] show ?case by (simp add: q(1))
qed

text \<open>One side writes a packet, the other one reads it.\<close>

lemma send_receive:
  assumes "list_all able vs" "list_all2 asks qs vs" "concat (map enc vs) \<noteq> []"
  shows "\<exists>t r t' ws. write_each put pa_tagstruct_new vs = Some t \<and> pa_tagstruct_new_fixed (pa_tagstruct_data t) = Some r \<and>
    read_all get qs r = Some (t', Some ws) \<and> list_all2 same vs ws \<and> pa_tagstruct_eof t'"
proof -
  have "writable pa_tagstruct_new" by (simp add: writable_def pa_tagstruct_new_def)
  from writesD [OF puts_write [OF assms(1)] this] obtain t where
    t: "write_each put pa_tagstruct_new vs = Some t" "ts_data t = concat (map enc vs)"
    by (auto simp: pa_tagstruct_new_def)
  define r where "r = \<lparr>ts_data = ts_data t, ts_allocated = length (ts_data t), ts_rindex = 0, ts_type = PA_TAGSTRUCT_FIXED\<rparr>"
  have n: "pa_tagstruct_new_fixed (pa_tagstruct_data t) = Some r"
    using assms(3) t(2) by (simp add: pa_tagstruct_new_fixed_def pa_tagstruct_data_def r_def)
  have "ts_data r = [] @ concat (map enc vs) @ []" "ts_rindex r = length []" using t(2) by (simp_all add: r_def)
  with gets_read [OF assms(1,2)] obtain ws where "read_all get qs r = Some (r\<lparr>ts_rindex := length (concat (map enc vs))\<rparr>, Some ws)"
    "list_all2 same vs ws" unfolding reads_as_def by fastforce
  then show ?thesis using t n by (auto simp: pa_tagstruct_eof_def r_def)
qed

end

lemma proplist_value_reads:
  assumes "pl_ok p" "list_all entry_ok (pl_pairs p)" "length (pl_pairs p) < 2 ^ 32" "pl_ok q" "pl_pairs q = []"
    "ts_data t = pre @ proplist_enc (pl_pairs p) @ post" "ts_rindex t = length pre"
  shows "\<exists>q'. pa_tagstruct_get_proplist (Some q) t =
      Some (t\<lparr>ts_rindex := length pre + length (proplist_enc (pl_pairs p))\<rparr>, Some q', True) \<and> pl_ok q' \<and> pl_pairs q' = pl_pairs p"
  using get_proplist_reads [OF assms(4,2) _ assms(6,7)] assms(3,5) merge_new(2) [OF pl_pairs_distinct [OF assms(1)]] by simp

lemma format_info_reads:
  assumes "value_ok (V_format_info f)" "pl_ok (fi_plist g)" "pl_pairs (fi_plist g) = []"
  shows "reads_as (read_value (R_format_info g)) (value_enc (V_format_info f)) (same_value (V_format_info f))"
  unfolding reads_as_def
proof (intro allI impI)
  fix t :: pa_tagstruct and pre post
  assume t: "ts_data t = pre @ value_enc (V_format_info f) @ post" "ts_rindex t = length pre"
  let ?e = "ucast (fi_encoding f) :: byte"
  let ?t1 = "t\<lparr>ts_rindex := length pre + 1\<rparr>" and ?t2 = "t\<lparr>ts_rindex := length pre + 3\<rparr>"
  have 1: "read_tag PA_TAG_FORMAT_INFO t = Some (?t1, Some ())" using t by (simp add: read_tag_def peek_byte_mid)
  have "ts_data ?t1 = (pre @ [tag_byte PA_TAG_FORMAT_INFO]) @ [tag_byte PA_TAG_U8, ?e] @ proplist_enc (pl_pairs (fi_plist f)) @ post"
    using t by simp
  from readsD [OF reads_getu8 this] have 2: "pa_tagstruct_getu8 ?t1 = Some (?t2, Some ?e)" by simp
  have "ts_data ?t2 = (pre @ [tag_byte PA_TAG_FORMAT_INFO, tag_byte PA_TAG_U8, ?e]) @ proplist_enc (pl_pairs (fi_plist f)) @ post"
    "ts_rindex ?t2 = length (pre @ [tag_byte PA_TAG_FORMAT_INFO, tag_byte PA_TAG_U8, ?e])" using t by simp_all
  from proplist_value_reads [OF _ _ _ assms(2,3) this] assms(1) obtain q where
    q: "pa_tagstruct_get_proplist (Some (fi_plist g)) ?t2 =
      Some (?t2\<lparr>ts_rindex := length pre + 3 + length (proplist_enc (pl_pairs (fi_plist f)))\<rparr>, Some q, True)"
    "pl_ok q" "pl_pairs q = pl_pairs (fi_plist f)" by auto
  have "ucast ?e = fi_encoding f" using assms(1) by (simp add: u8_u32)
  then show "\<exists>x. read_value (R_format_info g) t = Some (t\<lparr>ts_rindex := length pre + length (value_enc (V_format_info f))\<rparr>, Some x) \<and>
      same_value (V_format_info f) x"
    using 1 2 q by (simp add: pa_tagstruct_get_format_info_def same_value_def add.assoc)
qed

lemma reads_value:
  assumes "reads rd bs x" "P (h x)" "\<And>t. f t = read_then (rd t) (\<lambda>t x. Some (t, Some (h x)))"
  shows "reads_as f bs P"
proof -
  have "f = (\<lambda>t. read_then (rd t) (\<lambda>t x. Some (t, Some (h x))))" using assms(3) by (rule ext)
  then show ?thesis using reads_asI [OF reads_map [OF assms(1)], of P h] assms(2) by simp
qed

definition scalar_tags :: "pa_tag set" where
  "scalar_tags = {PA_TAG_STRING, PA_TAG_U32, PA_TAG_U8, PA_TAG_U64, PA_TAG_S64, PA_TAG_USEC, PA_TAG_VOLUME}"

lemma scalar_value_reads:
  assumes ok: "value_ok v" and q: "asks_for q v" and s: "value_tag v \<in> scalar_tags"
  shows "reads_as (read_value q) (value_enc v) (same_value v)"
proof (cases v)
  case (V_string s)
  then have q: "q = R_string" using q by (cases q) (simp_all add: asks_for_def)
  have r: "reads pa_tagstruct_gets (value_enc (V_string s)) s"
    using ok V_string reads_gets [of s] by (auto split: option.splits)
  show ?thesis unfolding V_string q by (rule reads_value [OF r, where h = V_string]) (simp_all add: same_value_def)
next
  case (V_u32 i)
  then have q: "q = R_u32" using q by (cases q) (simp_all add: asks_for_def)
  have r: "reads pa_tagstruct_getu32 (value_enc (V_u32 i)) i"
    by (simp add: reads_getu32)
  show ?thesis unfolding V_u32 q by (rule reads_value [OF r, where h = V_u32]) (simp_all add: same_value_def)
next
  case (V_u8 i)
  then have q: "q = R_u8" using q by (cases q) (simp_all add: asks_for_def)
  have r: "reads pa_tagstruct_getu8 (value_enc (V_u8 i)) i"
    by (simp add: reads_getu8)
  show ?thesis unfolding V_u8 q by (rule reads_value [OF r, where h = V_u8]) (simp_all add: same_value_def)
next
  case (V_u64 i)
  then have q: "q = R_u64" using q by (cases q) (simp_all add: asks_for_def)
  have r: "reads pa_tagstruct_getu64 (value_enc (V_u64 i)) i"
    unfolding pa_tagstruct_getu64_def [abs_def] value_enc.simps by (rule reads_tag [OF reads_u64(1)])
  show ?thesis unfolding V_u64 q by (rule reads_value [OF r, where h = V_u64]) (simp_all add: same_value_def)
next
  case (V_s64 i)
  then have q: "q = R_s64" using q by (cases q) (simp_all add: asks_for_def)
  have r: "reads pa_tagstruct_gets64 (value_enc (V_s64 i)) i"
    unfolding pa_tagstruct_gets64_def [abs_def] value_enc.simps by (rule reads_tag [OF reads_u64(2)])
  show ?thesis unfolding V_s64 q by (rule reads_value [OF r, where h = V_s64]) (simp_all add: same_value_def)
next
  case (V_usec i)
  then have q: "q = R_usec" using q by (cases q) (simp_all add: asks_for_def)
  have r: "reads pa_tagstruct_get_usec (value_enc (V_usec i)) i"
    unfolding pa_tagstruct_get_usec_def [abs_def] value_enc.simps by (rule reads_tag [OF reads_u64(1)])
  show ?thesis unfolding V_usec q by (rule reads_value [OF r, where h = V_usec]) (simp_all add: same_value_def)
next
  case (V_volume i)
  then have q: "q = R_volume" using q by (cases q) (simp_all add: asks_for_def)
  have r: "reads pa_tagstruct_get_volume (value_enc (V_volume i)) i"
    unfolding pa_tagstruct_get_volume_def [abs_def] value_enc.simps by (rule reads_tag [OF reads_u32])
  show ?thesis unfolding V_volume q by (rule reads_value [OF r, where h = V_volume]) (simp_all add: same_value_def)
qed (use s in \<open>simp_all add: scalar_tags_def\<close>)

lemma struct_value_reads:
  assumes ok: "value_ok v" and q: "asks_for q v" and s: "value_tag v \<notin> scalar_tags"
  shows "reads_as (read_value q) (value_enc v) (same_value v)"
proof (cases v)
  case (V_sample_spec ss)
  then have q: "q = R_sample_spec" using q by (cases q) (simp_all add: asks_for_def)
  have r: "reads pa_tagstruct_get_sample_spec (value_enc (V_sample_spec ss)) ss"
    using ok V_sample_spec by (intro sample_spec_reads) simp
  show ?thesis unfolding V_sample_spec q by (rule reads_value [OF r, where h = V_sample_spec]) (simp_all add: same_value_def)
next
  case (V_arbitrary p)
  then have q: "q = R_arbitrary (length p)" using q by (cases q) (simp_all add: asks_for_def)
  have r: "reads (pa_tagstruct_get_arbitrary (length p)) (value_enc (V_arbitrary p)) p"
    using ok V_arbitrary by (simp add: reads_get_arbitrary)
  show ?thesis unfolding V_arbitrary q by (rule reads_value [OF r, where h = V_arbitrary]) (simp_all add: same_value_def)
next
  case (V_boolean b)
  then have q: "q = R_boolean" using q by (cases q) (simp_all add: asks_for_def)
  have r: "reads pa_tagstruct_get_boolean (value_enc (V_boolean b)) b"
    by (rule boolean_reads)
  show ?thesis unfolding V_boolean q by (rule reads_value [OF r, where h = V_boolean]) (simp_all add: same_value_def)
next
  case (V_timeval tv)
  then have q: "q = R_timeval" using q by (cases q) (simp_all add: asks_for_def)
  have r: "reads pa_tagstruct_get_timeval (value_enc (V_timeval tv)) tv"
    using ok V_timeval by (intro timeval_reads) simp
  show ?thesis unfolding V_timeval q by (rule reads_value [OF r, where h = V_timeval]) (simp_all add: same_value_def)
next
  case (V_channel_map m)
  then obtain m' where q: "q = R_channel_map m'" "length (cm_map m') = PA_CHANNELS_MAX" using q by (cases q) (simp_all add: asks_for_def)
  then obtain w where r: "reads (pa_tagstruct_get_channel_map m') (value_enc (V_channel_map m)) w"
    "same_value (V_channel_map m) (V_channel_map w)" using channel_map_reads [of m m'] ok V_channel_map by blast
  show ?thesis unfolding V_channel_map q by (rule reads_value [OF r(1), where h = V_channel_map]) (simp_all add: r(2))
next
  case (V_cvolume m)
  then obtain m' where q: "q = R_cvolume m'" "length (cv_values m') = PA_CHANNELS_MAX" using q by (cases q) (simp_all add: asks_for_def)
  then obtain w where r: "reads (pa_tagstruct_get_cvolume m') (value_enc (V_cvolume m)) w"
    "same_value (V_cvolume m) (V_cvolume w)" using cvolume_reads [of m m'] ok V_cvolume by blast
  show ?thesis unfolding V_cvolume q by (rule reads_value [OF r(1), where h = V_cvolume]) (simp_all add: r(2))
next
  case (V_proplist p)
  then obtain p' q' where p: "p = Some p'" "q = R_proplist (Some q')" "pl_ok q'" "pl_pairs q' = []"
    using q ok by (cases q) (auto simp: asks_for_def split: option.splits)
  then show ?thesis using proplist_value_reads [of p' q'] ok V_proplist
    unfolding reads_as_def by (fastforce simp: same_value_def)
next
  case (V_format_info f)
  then obtain g where "q = R_format_info g" "pl_ok (fi_plist g)" "pl_pairs (fi_plist g) = []"
    using q by (cases q) (simp_all add: asks_for_def)
  then show ?thesis using format_info_reads [of f g] ok V_format_info by simp
qed (use s in \<open>simp_all add: scalar_tags_def\<close>)

lemma read_value_reads: "value_ok v \<Longrightarrow> asks_for q v \<Longrightarrow> reads_as (read_value q) (value_enc v) (same_value v)"
  using scalar_value_reads struct_value_reads by blast

lemma value_ok_fits: "value_ok v \<Longrightarrow> value_fits v"
  by (cases v) (auto split: option.splits)

interpretation tag_values: stream_codec value_ok value_enc put_value read_value asks_for same_value
  by unfold_locales (auto intro: put_value_writes value_ok_fits read_value_reads)

lemma put_each: "list_all (\<lambda>v. \<not> no_case v) vs \<Longrightarrow> pa_tagstruct_put t vs = write_each put_value t vs"
  by (induction vs arbitrary: t) (auto simp: Option.bind_def split: option.split)

lemma get_each:
  "list_all (\<lambda>q. \<not> no_request_case q) qs \<Longrightarrow> read_all read_value qs t = Some (t', Some ws) \<Longrightarrow>
    pa_tagstruct_get t qs = Some (t', ws, 0)"
proof (induction qs arbitrary: t ws)
  case (Cons q qs)
  then show ?case by (auto simp: read_then_def split: option.splits prod.splits)
qed simp

lemma asks_no_case: "asks_for q v \<Longrightarrow> no_request_case q = no_case v"
  by (cases q; cases v) (simp_all add: asks_for_def)

lemma value_enc_nonempty: "value_ok v \<Longrightarrow> value_enc v \<noteq> []"
  by (cases v) (auto simp: string_enc_def u32_enc_def arbitrary_enc_def proplist_enc_def split: option.splits)



subsection \<open>Values are read at their type only\<close>

definition first_tags :: "pa_tag \<Rightarrow> pa_tag set" where
  "first_tags tag =
     (if tag = PA_TAG_STRING then {PA_TAG_STRING, PA_TAG_STRING_NULL}
      else if tag = PA_TAG_BOOLEAN_TRUE then {PA_TAG_BOOLEAN_TRUE, PA_TAG_BOOLEAN_FALSE}
      else {tag})"

lemma value_enc_tag: "value_ok v \<Longrightarrow> \<exists>tag bs. value_enc v = tag_byte tag # bs \<and> tag \<in> first_tags (value_tag v)"
  by (cases v)
    (auto simp: first_tags_def string_enc_def u32_enc_def arbitrary_enc_def proplist_enc_def split: option.splits)

lemma first_tags_disjoint:
  "tag \<in> first_tags (value_tag v) \<Longrightarrow> request_tag q \<noteq> value_tag v \<Longrightarrow> tag \<notin> first_tags (request_tag q)"
  by (cases v; cases q) (auto simp: first_tags_def)

lemma read_tag_refuses:
  "ts_data t = pre @ tag_byte tag' # post \<Longrightarrow> ts_rindex t = length pre \<Longrightarrow> tag \<noteq> tag' \<Longrightarrow> read_tag tag t = Some (t, None)"
  by (simp add: read_tag_def peek_byte_mid tag_byte_inj)

lemma read_then_None [simp]: "read_then (Some (t, None)) f = Some (t, None)"
  by (simp add: read_then_def)

lemmas get_defs =
  pa_tagstruct_getu32_def pa_tagstruct_getu8_def pa_tagstruct_get_sample_spec_def pa_tagstruct_get_arbitrary_def
  pa_tagstruct_get_timeval_def pa_tagstruct_get_usec_def pa_tagstruct_getu64_def pa_tagstruct_gets64_def
  pa_tagstruct_get_channel_map_def pa_tagstruct_get_cvolume_def pa_tagstruct_get_volume_def
  pa_tagstruct_get_proplist_def pa_tagstruct_get_format_info_def

text \<open>
  C15: A value is read at the type it was written with only: a reader of any other type returns an
  error and leaves the read position where it was.
\<close>
theorem tagstruct_type_checked:
  assumes "value_ok v" "request_tag q \<noteq> value_tag v"
    "ts_data t = pre @ value_enc v @ post" "ts_rindex t = length pre"
  shows "read_value q t = Some (t, None)"
proof -
  obtain tag bs where tag: "value_enc v = tag_byte tag # bs" "tag \<in> first_tags (value_tag v)"
    using value_enc_tag [OF assms(1)] by blast
  then have d: "ts_data t = pre @ tag_byte tag # (bs @ post)" using assms(3) by simp
  have n: "tag \<notin> first_tags (request_tag q)" using first_tags_disjoint [OF tag(2) assms(2)] .
  have r: "read_tag x t = Some (t, None)" if "tag \<noteq> x" for x using read_tag_refuses [OF d assms(4), of x] that by auto
  show ?thesis using r n d assms(4)
    by (cases q) (simp_all add: get_defs first_tags_def pa_tagstruct_gets_def pa_tagstruct_get_boolean_def peek_byte_mid tag_byte_inj)
qed

theorem tagstruct_type_checked_witness:
  "read_value R_u8 \<lparr>ts_data = tag_byte PA_TAG_U8 # value_enc (V_u32 5), ts_allocated = 6, ts_rindex = 1,
      ts_type = PA_TAGSTRUCT_FIXED\<rparr> =
    Some (\<lparr>ts_data = tag_byte PA_TAG_U8 # value_enc (V_u32 5), ts_allocated = 6, ts_rindex = 1,
      ts_type = PA_TAGSTRUCT_FIXED\<rparr>, None)"
  by (rule tagstruct_type_checked [of "V_u32 5" R_u8 _ "[tag_byte PA_TAG_U8]" "[]"]) simp_all

end
