(* ===== verification/Tagstruct_Safe.thy ===== *)
theory Tagstruct_Safe
  imports Tagstruct_Props
begin

text \<open>
  Readers on arbitrary bytes, such as a packet from a misbehaving peer: \<open>safe f\<close> says that \<open>f\<close>
  returns from every valid read position, leaves the data alone and keeps the position valid.
\<close>

subsection \<open>Readers stay inside the data\<close>

definition inside :: "pa_tagstruct \<Rightarrow> pa_tagstruct \<Rightarrow> bool" where
  "inside t t' \<longleftrightarrow> ts_data t' = ts_data t \<and> ts_allocated t' = ts_allocated t \<and> ts_type t' = ts_type t \<and>
     ts_rindex t \<le> ts_rindex t' \<and> ts_rindex t' \<le> length (ts_data t)"

definition safe :: "'a reader \<Rightarrow> bool" where
  "safe f \<longleftrightarrow> (\<forall>t. ts_rindex t \<le> length (ts_data t) \<longrightarrow> (\<exists>t' r. f t = Some (t', r) \<and> inside t t'))"

lemma inside_refl [simp]: "ts_rindex t \<le> length (ts_data t) \<Longrightarrow> inside t t"
  by (simp add: inside_def)

lemma inside_data: "inside t t' \<Longrightarrow> ts_data t' = ts_data t"
  by (simp add: inside_def)

lemma inside_trans: "inside a b \<Longrightarrow> inside b c \<Longrightarrow> inside a c"
  by (simp add: inside_def)

lemma safeD: "safe f \<Longrightarrow> ts_rindex t \<le> length (ts_data t) \<Longrightarrow> \<exists>t' r. f t = Some (t', r) \<and> inside t t'"
  by (simp add: safe_def)

lemma safe_then [ts_safe]:
  assumes "safe f" "\<And>x. safe (\<lambda>t. g t x)"
  shows "safe (\<lambda>t. read_then (f t) g)"
  unfolding safe_def
proof (intro allI impI)
  fix t :: pa_tagstruct assume t: "ts_rindex t \<le> length (ts_data t)"
  obtain t1 r where f: "f t = Some (t1, r)" "inside t t1" using safeD [OF assms(1) t] by blast
  then have t1: "ts_rindex t1 \<le> length (ts_data t1)" using inside_data [OF f(2)] by (simp add: inside_def)
  show "\<exists>t' r. read_then (f t) g = Some (t', r) \<and> inside t t'"
  proof (cases r)
    case (Some x)
    obtain t2 s where "g t1 x = Some (t2, s)" "inside t1 t2" using safeD [OF assms(2) t1] by blast
    then show ?thesis using f Some inside_trans by (auto simp: read_then_def)
  qed (use f in \<open>auto simp: read_then_def\<close>)
qed

lemma safe_return [ts_safe]: "safe (\<lambda>t. Some (t, r))"
  by (simp add: safe_def)

lemma safe_if [ts_safe]: "safe f \<Longrightarrow> safe g \<Longrightarrow> safe (\<lambda>t. if b then f t else g t)"
  by (cases b) simp_all

lemma safe_bytes [ts_safe]: "safe (read_bytes n)"
  by (auto simp: safe_def read_bytes_def load_bytes_def inside_def)

lemma peek_inside: "\<not> length (ts_data t) < ts_rindex t + 1 \<Longrightarrow> peek_byte t = Some (ts_data t ! ts_rindex t)"
  by (simp add: peek_byte_def)

lemma safe_tag [ts_safe]: "safe (read_tag tag)"
  by (auto simp: safe_def read_tag_def peek_inside inside_def)

lemma safe_get_boolean [ts_safe]: "safe pa_tagstruct_get_boolean"
  by (auto simp: safe_def pa_tagstruct_get_boolean_def peek_inside inside_def)

lemma safe_u8 [ts_safe]: "safe read_u8"
  unfolding read_u8_def [abs_def] by (intro ts_safe)

lemma safe_u32 [ts_safe]: "safe read_u32"
  unfolding read_u32_def [abs_def] by (intro ts_safe)

lemma safe_u64 [ts_safe]: "safe read_u64" "safe read_s64"
  unfolding read_u64_def [abs_def] read_s64_def [abs_def] by (intro ts_safe)+

lemma gets_progress:
  assumes "ts_rindex t \<le> length (ts_data t)"
  shows "\<exists>t' r. pa_tagstruct_gets t = Some (t', r) \<and> inside t t' \<and> (r \<noteq> None \<longrightarrow> ts_rindex t < ts_rindex t')"
proof -
  have l: "length (takeWhile P (drop i xs)) \<le> length xs - i" for P i and xs :: bytes
    using length_takeWhile_le [of P "drop i xs"] by simp
  show ?thesis
  proof (cases "ts_rindex t < length (ts_data t)")
    case True
    then have p: "peek_byte t = Some (ts_data t ! ts_rindex t)" by (simp add: peek_byte_def)
    show ?thesis using True p l [of "\<lambda>c. c \<noteq> 0" "ts_rindex t + 1" "ts_data t"]
      by (auto simp: pa_tagstruct_gets_def read_tag_def Let_def inside_def)
  qed (use assms in \<open>simp add: pa_tagstruct_gets_def\<close>)
qed

lemma safe_gets [ts_safe]: "safe pa_tagstruct_gets"
  unfolding safe_def using gets_progress by blast

lemma safe_getters [ts_safe]:
  "safe pa_tagstruct_getu32" "safe pa_tagstruct_getu8" "safe pa_tagstruct_get_sample_spec"
  "safe pa_tagstruct_get_timeval" "safe pa_tagstruct_get_usec" "safe pa_tagstruct_getu64" "safe pa_tagstruct_gets64"
  "safe pa_tagstruct_get_volume"
  unfolding get_defs [abs_def] by (intro ts_safe)+

lemma safe_get_arbitrary [ts_safe]: "safe (pa_tagstruct_get_arbitrary n)"
  unfolding pa_tagstruct_get_arbitrary_def [abs_def] read_arbitrary_def by (intro ts_safe)

lemma safe_each [ts_safe]: "safe rd \<Longrightarrow> i + n \<le> length arr \<Longrightarrow> safe (read_each rd arr i n)"
proof (induction n arbitrary: i arr)
  case (Suc n)
  have "safe (\<lambda>t. if i < length arr then read_each rd (arr[i := x]) (i + 1) n t else None)" for x
    using Suc.prems Suc.IH [of "i + 1" "arr[i := x]"] by simp
  from safe_then [OF Suc.prems(1) this] show ?case by simp
qed (simp add: safe_def)

lemma safe_get_channel_map:
  assumes "length (cm_map m) = PA_CHANNELS_MAX"
  shows "safe (pa_tagstruct_get_channel_map m)"
proof -
  have "safe (\<lambda>t. if unat channels > PA_CHANNELS_MAX then Some (t, None)
      else read_then (read_each (\<lambda>t. read_then (read_u8 t) (\<lambda>t tmp. Some (t, Some (ucast tmp)))) (cm_map m) 0 (unat channels) t)
        (\<lambda>t xs. Some (t, Some \<lparr>cm_channels = channels, cm_map = xs\<rparr>)))" for channels
    using assms by (cases "unat channels > PA_CHANNELS_MAX") (simp_all add: safe_return, intro ts_safe, simp)
  then show ?thesis unfolding pa_tagstruct_get_channel_map_def [abs_def]
    by (rule safe_then [OF safe_tag safe_then [OF safe_u8]])
qed

lemma safe_get_cvolume:
  assumes "length (cv_values m) = PA_CHANNELS_MAX"
  shows "safe (pa_tagstruct_get_cvolume m)"
proof -
  have "safe (\<lambda>t. if unat channels > PA_CHANNELS_MAX then Some (t, None)
      else read_then (read_each read_u32 (cv_values m) 0 (unat channels) t)
        (\<lambda>t xs. Some (t, Some \<lparr>cv_channels = channels, cv_values = xs\<rparr>)))" for channels
    using assms by (cases "unat channels > PA_CHANNELS_MAX") (simp_all add: safe_return, intro ts_safe, simp)
  then show ?thesis unfolding pa_tagstruct_get_cvolume_def [abs_def]
    by (rule safe_then [OF safe_tag safe_then [OF safe_u8]])
qed

lemma safe_entry_value: "safe (entry_value k)"
  unfolding entry_value_def [abs_def] by (intro ts_safe)

lemma entry_progress:
  assumes "ts_rindex t \<le> length (ts_data t)"
  shows "\<exists>t' r. read_entry t = Some (t', r) \<and> inside t t' \<and> (r \<noteq> None \<longrightarrow> ts_rindex t < ts_rindex t')"
proof -
  obtain t1 r where g: "pa_tagstruct_gets t = Some (t1, r)" "inside t t1" "r \<noteq> None \<longrightarrow> ts_rindex t < ts_rindex t1"
    using gets_progress [OF assms] by blast
  have t1: "ts_rindex t1 \<le> length (ts_data t1)" using g(2) inside_data [OF g(2)] by (simp add: inside_def)
  have v: "\<exists>t' r. entry_value k t1 = Some (t', r) \<and> inside t1 t'" for k by (rule safeD [OF safe_entry_value t1])
  show ?thesis
  proof (cases "\<exists>k. r = Some (Some k) \<and> pa_proplist_key_valid k")
    case True
    then obtain k t2 s where k: "r = Some (Some k)" "pa_proplist_key_valid k" "entry_value k t1 = Some (t2, s)" "inside t1 t2"
      using v by blast
    then have "ts_rindex t < ts_rindex t2" using g(3) by (simp add: inside_def)
    then show ?thesis using k g inside_trans by (auto simp: read_entry_def)
  next
    case False
    then show ?thesis using g by (cases r) (auto simp: read_entry_def split: option.split)
  qed
qed

lemma entry_key_valid: "read_entry t = Some (t', Some (Some (k, d))) \<Longrightarrow> pa_proplist_key_valid k"
  unfolding read_entry_def read_then_def entry_value_def
  by (auto split: option.splits if_splits)

text \<open>A list that may take \<open>n\<close> more entries.\<close>

definition roomy :: "nat \<Rightarrow> pa_proplist option \<Rightarrow> bool" where
  "roomy n p \<longleftrightarrow> (\<forall>pl. p = Some pl \<longrightarrow> pl_ok pl \<and> length (pl_pairs pl) + n < 2 ^ 32)"

text \<open>The loop over the entries ends: every entry takes bytes.\<close>

lemma get_loop_safe:
  assumes "ts_rindex t \<le> length (ts_data t)" "roomy (length (ts_data t) - ts_rindex t) p"
  shows "\<exists>t' p' r. get_proplist_loop t p = Some (t', p', r) \<and> inside t t' \<and> (p' = None \<longleftrightarrow> p = None)"
  using assms
proof (induction "length (ts_data t) - ts_rindex t" arbitrary: t p rule: less_induct)
  case less
  obtain t1 r where e: "read_entry t = Some (t1, r)" "inside t t1" "r \<noteq> None \<longrightarrow> ts_rindex t < ts_rindex t1"
    using entry_progress [OF less.prems(1)] by blast
  show ?case
  proof (cases "\<exists>k d. r = Some (Some (k, d))")
    case False
    then have "r = None \<or> r = Some None" by (cases r; cases "the r") auto
    then show ?thesis using e by (subst get_proplist_loop.simps) auto
  next
    case True
    then obtain k d where r: "r = Some (Some (k, d))" by blast
    then have k: "pa_proplist_key_valid k" using e(1) entry_key_valid by blast
    have d: "ts_data t1 = ts_data t" by (rule inside_data [OF e(2)])
    have t1: "ts_rindex t1 \<le> length (ts_data t1)" "length (ts_data t1) - ts_rindex t1 < length (ts_data t) - ts_rindex t"
      using e r d by (auto simp: inside_def)
    have "\<exists>p1. get_proplist_loop t p = get_proplist_loop t1 p1 \<and> (p1 = None \<longleftrightarrow> p = None) \<and>
        roomy (length (ts_data t1) - ts_rindex t1) p1"
    proof (cases p)
      case None
      then show ?thesis using e(1) r by (subst get_proplist_loop.simps) (auto simp: roomy_def)
    next
      case (Some pl)
      then have pl: "pl_ok pl" "length (pl_pairs pl) + (length (ts_data t) - ts_rindex t) < 2 ^ 32"
        using less.prems(2) by (simp_all add: roomy_def)
      have "length (pl_pairs pl) + 1 < 2 ^ 32" using pl(2) t1(2) by linarith
      from set_ok [OF pl(1) k this, of d] obtain pl' where
        pl': "pa_proplist_set pl k d = Some (pl', 0)" "pl_ok pl'" "pl_pairs pl' = AList.update k d (pl_pairs pl)" by blast
      have "length (pl_pairs pl') + (length (ts_data t1) - ts_rindex t1) < 2 ^ 32"
        using update_length [of k d "pl_pairs pl", folded pl'(3)] pl(2) t1(2) by linarith
      then show ?thesis using Some e(1) r pl' by (subst get_proplist_loop.simps) (auto simp: roomy_def)
    qed
    then obtain p1 where p1: "get_proplist_loop t p = get_proplist_loop t1 p1" "p1 = None \<longleftrightarrow> p = None"
      "roomy (length (ts_data t1) - ts_rindex t1) p1" by blast
    obtain t2 p2 z where "get_proplist_loop t1 p1 = Some (t2, p2, z)" "inside t1 t2" "p2 = None \<longleftrightarrow> p1 = None"
      using less.hyps [OF t1(2,1) p1(3)] by blast
    then show ?thesis using p1 inside_trans [OF e(2)] by auto
  qed
qed

lemma get_proplist_safe:
  assumes "ts_rindex t \<le> length (ts_data t)" "roomy (length (ts_data t)) p"
  shows "\<exists>t' p' r. pa_tagstruct_get_proplist p t = Some (t', p', r) \<and> inside t t' \<and> (p' = None \<longleftrightarrow> p = None)"
proof -
  obtain t1 r where e: "read_tag PA_TAG_PROPLIST t = Some (t1, r)" "inside t t1" using safeD [OF safe_tag assms(1)] by blast
  have t1: "ts_rindex t1 \<le> length (ts_data t1)" "roomy (length (ts_data t1) - ts_rindex t1) p"
    using e(2) inside_data [OF e(2)] assms(2) by (auto simp: inside_def roomy_def)
  obtain t2 p' z where "get_proplist_loop t1 p = Some (t2, p', z)" "inside t1 t2" "p' = None \<longleftrightarrow> p = None"
    using get_loop_safe [OF t1] by blast
  then show ?thesis using e inside_trans [OF e(2)] by (cases r) (auto simp: pa_tagstruct_get_proplist_def)
qed

text \<open>Requests a caller may make: arrays have their declared size, lists are well-formed.\<close>

fun request_ok :: "nat \<Rightarrow> tag_request \<Rightarrow> bool" where
  "request_ok n (R_channel_map m) = (length (cm_map m) = PA_CHANNELS_MAX)"
| "request_ok n (R_cvolume v) = (length (cv_values v) = PA_CHANNELS_MAX)"
| "request_ok n (R_proplist p) = roomy n p"
| "request_ok n (R_format_info f) = roomy n (Some (fi_plist f))"
| "request_ok n _ = True"

lemma safe_format_info:
  assumes t: "ts_rindex t \<le> length (ts_data t)" and r: "roomy (length (ts_data t)) (Some (fi_plist f))"
  shows "\<exists>t' f' r. pa_tagstruct_get_format_info f t = Some (t', f', r) \<and> inside t t'"
proof -
  obtain t1 x where e: "read_tag PA_TAG_FORMAT_INFO t = Some (t1, x)" "inside t t1" using safeD [OF safe_tag t] by blast
  have t1: "ts_rindex t1 \<le> length (ts_data t1)" using e(2) inside_data [OF e(2)] by (simp add: inside_def)
  obtain t2 y where u: "pa_tagstruct_getu8 t1 = Some (t2, y)" "inside t1 t2" using safeD [OF safe_getters(2) t1] by blast
  have i: "inside t t2" by (rule inside_trans [OF e(2) u(2)])
  have t2: "ts_rindex t2 \<le> length (ts_data t2)" "roomy (length (ts_data t2)) (Some (fi_plist f))"
    using i inside_data [OF i] r by (simp_all add: inside_def)
  obtain t3 p z where "pa_tagstruct_get_proplist (Some (fi_plist f)) t2 = Some (t3, Some p, z)" "inside t2 t3"
    using get_proplist_safe [OF t2] by auto
  then show ?thesis using e u i inside_trans [OF i]
    by (cases x; cases y) (auto simp: pa_tagstruct_get_format_info_def)
qed

lemma read_map_safe:
  assumes "safe f" "ts_rindex t \<le> length (ts_data t)"
  shows "\<exists>t' v. read_then (f t) (\<lambda>t x. Some (t, Some (h x))) = Some (t', v) \<and> inside t t'"
  using safeD [OF safe_then [OF assms(1), of "\<lambda>t x. Some (t, Some (h x))"] assms(2)] safe_return by blast

lemma read_value_safe:
  assumes t: "ts_rindex t \<le> length (ts_data t)" and q: "request_ok (length (ts_data t)) q"
  shows "\<exists>t' v. read_value q t = Some (t', v) \<and> inside t t'"
proof (cases q)
  case (R_channel_map x)
  then show ?thesis using read_map_safe [OF safe_get_channel_map [of x] t] q by simp
next
  case (R_cvolume x)
  then show ?thesis using read_map_safe [OF safe_get_cvolume [of x] t] q by simp
next
  case (R_proplist p)
  then show ?thesis using get_proplist_safe [OF t, of p] q by auto
next
  case (R_format_info f)
  then show ?thesis using safe_format_info [OF t, of f] q by auto
qed (simp_all only: read_value.simps, (rule read_map_safe [OF _ t], rule ts_safe)+)

text \<open>
  C14: Reading never leaves the data: on arbitrary bytes, every sequence of read requests returns,
  accesses nothing beyond the end of the data or of the caller's arrays, leaves the data unchanged
  and the read position inside; in particular the loop over the entries of a property list ends.
\<close>
theorem tagstruct_reads_inside:
  assumes "ts_rindex t \<le> length (ts_data t)" "list_all (request_ok (length (ts_data t))) qs"
  shows "\<exists>t' ws. read_all read_value qs t = Some (t', ws) \<and> ts_data t' = ts_data t \<and>
    ts_rindex t \<le> ts_rindex t' \<and> ts_rindex t' \<le> length (ts_data t)"
proof -
  have "\<exists>t' ws. read_all read_value qs t = Some (t', ws) \<and> inside t t'" using assms
  proof (induction qs arbitrary: t)
    case (Cons q qs)
    obtain t1 v where v: "read_value q t = Some (t1, v)" "inside t t1"
      using read_value_safe [of t q] Cons.prems by auto
    have "ts_rindex t1 \<le> length (ts_data t1)" "list_all (request_ok (length (ts_data t1))) qs"
      using Cons.prems(2) v(2) inside_data [OF v(2)] by (simp_all add: inside_def)
    from Cons.IH [OF this] obtain t2 ws where "read_all read_value qs t1 = Some (t2, ws)" "inside t1 t2" by blast
    then show ?case using v inside_trans [OF v(2)]
      by (cases v; cases ws) (simp_all add: read_then_def)
  qed simp
  then obtain t' ws where "read_all read_value qs t = Some (t', ws)" "inside t t'" by blast
  then show ?thesis by (simp add: inside_def)
qed

theorem tagstruct_reads_inside_witness:
  "\<exists>t' ws. read_all read_value [R_string, R_proplist (Some pa_proplist_new), R_u64]
      \<lparr>ts_data = [0x74, 0x61, 0x62], ts_allocated = 3, ts_rindex = 0, ts_type = PA_TAGSTRUCT_FIXED\<rparr> = Some (t', ws) \<and>
    ts_data t' = [0x74, 0x61, 0x62] \<and> ts_rindex t' \<le> 3"
proof -
  let ?t = "\<lparr>ts_data = [0x74, 0x61, 0x62 :: byte], ts_allocated = 3, ts_rindex = 0, ts_type = PA_TAGSTRUCT_FIXED\<rparr>"
  have "list_all (request_ok (length (ts_data ?t))) [R_string, R_proplist (Some pa_proplist_new), R_u64]"
    by (simp add: roomy_def proplist_new_ok)
  from tagstruct_reads_inside [OF _ this] show ?thesis by auto
qed

end
