(* ===== verification/Spec2Isabelle.thy ===== *)
theory Spec2Isabelle
  imports Iwab_Link Proplist_Text Tagstruct_Safe
begin

text \<open>
  Verification of the iwab modules, which send the output of a PulseAudio daemon in raw IEEE 802.11
  frames and play it at another station, together with the parts of PulseAudio they rest on and the
  wire format of its native protocol. Paths are relative to the directory \<open>src\<close> of the repository.

  \<^bold>\<open>The program and its parts.\<close> \<open>modules/iwab/iwab-sink.c\<close> is a sink: its thread renders a chunk of
  samples when the stream time has come, sends it in one packet and repeats the packet half a chunk
  later. \<open>modules/iwab/net.c\<close> builds and takes apart the packets, whose packed headers are in
  \<open>modules/iwab/net.h\<close>. \<open>modules/iwab/iwab-input.c\<close> is a sink input: it checks the order of the packets,
  fills gaps, and pushes the payload into a memory block queue (\<open>pulsecore/memblockq.c\<close>), from which
  the daemon takes the samples. Queue and modules hold their bytes in memory blocks and chunks
  (\<open>pulsecore/memblock.c\<close>, \<open>pulsecore/memchunk.c\<close>) and convert between bytes and time with the sample
  specification (\<open>pulse/sample.c\<close>). Stream names and other properties are property lists
  (\<open>pulse/proplist.c\<close>), built on the hash map (\<open>pulsecore/hashmap.c\<close>), string buffers
  (\<open>pulsecore/strbuf.c\<close>) and UTF-8 validation (\<open>pulse/utf8.c\<close>). Clients and daemon exchange packets of
  tagged values (\<open>pulsecore/tagstruct.c\<close>).

  \<^bold>\<open>Conventions.\<close> Theory \<open>Prelude\<close>. An operation that may hit a failing \<open>pa_assert\<close>, touch memory
  outside an object, use a freed object or not return is an option, and \<^term>\<open>None\<close> stands for these;
  error codes of the code are values inside \<^term>\<open>Some\<close>. Header fields are words of their width;
  \<open>size_t\<close> is \<^typ>\<open>nat\<close> with the wrap-around written out where the code does not exclude it; stream
  positions of type \<open>int64_t\<close> are \<^typ>\<open>int\<close>. A C string is the list of its bytes without the
  terminating zero. System calls, clocks and the mixing of the daemon are parameters.

  \<^bold>\<open>Theories and what they show.\<close>

  \<^item> \<open>Prelude\<close>, \<open>Bits\<close>: assertions, byte order, loads, masks; the interface \<open>fixed_codec\<close> of encodings of
    fixed width.
  \<^item> \<open>Sample\<close>: \<open>pulse/sample.c\<close> and the frame arithmetic of \<open>pulsecore/sample-util.c\<close>; names of formats and
    conversions between bytes and time are round trips.
  \<^item> \<open>Memchunk\<close>: memory pools with reference counts, chunks, and the aligner \<open>pulsecore/mcalign.c\<close>, whose
    pushes append and whose pops take whole frames off the front.
  \<^item> \<open>Memblockq\<close> (every function of \<open>memblockq.c\<close>), \<open>Memblockq_Blocks\<close>, \<open>Memblockq_Stream\<close>,
    \<open>Memblockq_Control\<close>, \<open>Memblockq_Props\<close>: the list of blocks stays sorted, disjoint and inside its
    memory, the cursors stay valid, references are balanced, and the flow-control equation holds in every
    reachable state. A queue is a partial function from positions to bytes: a push overwrites it, a peek
    shows it, a drop moves the read position. \<open>Byte_Queue\<close> is the contract with a client that streams,
    a locale interpreted on the queue.
  \<^item> \<open>Iwab_Headers\<close>, \<open>Iwab_Net\<close>: the packed headers, each an instance of \<open>fixed_codec\<close>; \<open>iwab_open\<close>,
    \<open>iwab_send\<close>, \<open>iwab_read\<close>; what is sent is received, packets are accepted exactly when they are
    well-formed, and two kinds of packets that break the size checks.
  \<^item> \<open>Iwab_Input\<close>, \<open>Iwab_Input_Props\<close>: the state, callbacks and initialisation of \<open>iwab-input.c\<close> and the
    step relation of the module; nothing that was queued is lost, reordered or invented before it is
    played, for every run.
  \<^item> \<open>Iwab_Sink\<close>, \<open>Iwab_Sink_Props\<close>: the state, thread rounds, callbacks and initialisation of
    \<open>iwab-sink.c\<close>, and the step relation in which messages of other threads interleave with the rounds;
    the packets of every run.
  \<^item> \<open>Iwab_Link\<close> and this theory: both modules and the channel between them.
  \<^item> \<open>Hashmap\<close>, \<open>Ordered_Map\<close>, \<open>Hashmap_Props\<close>: buckets and iteration list of \<open>hashmap.c\<close> implement the
    list of pairs in insertion order; \<open>ordered_map\<close> is the contract, a locale interpreted on the map.
  \<^item> \<open>Utf8\<close>, \<open>Strbuf\<close>, \<open>Text_Util\<close>: UTF-8 validation accepts exactly the encodings of the admitted code
    points; string buffers hold the concatenation of what was put; hexadecimal texts and escapes.
  \<^item> \<open>Proplist\<close>, \<open>Proplist_Props\<close>, \<open>Proplist_Text\<close>: property lists as heap objects in a hash map refine
    association lists; the parser returns on every input and reads back what the printer prints.
  \<^item> \<open>Tagstruct\<close>, \<open>Tagstruct_Wire\<close>, \<open>Tagstruct_Props\<close>, \<open>Tagstruct_Safe\<close>: every writer and reader of
    \<open>tagstruct.c\<close>, with a small logic of the bytes a writer appends and a reader consumes; the locale
    \<open>stream_codec\<close> is the contract of a writer with a reader. Packets are read back, at their types
    only, and readers stay inside the data whatever the bytes are.

  \<^bold>\<open>Loops.\<close> Loops over data in memory are recursive functions with a termination proof. The loop that
  fills gaps, iterations over a map, the parser of property lists and the loops over a property list in a
  packet are \<open>partial_function\<close>s, and the lemmas about them prove that they return. The receiving loop
  runs over the list of pending results of \<open>recv\<close>. No fuel is used.

  \<^bold>\<open>Not modelled.\<close> The rest of the daemon: the objects of the core (sinks, sources, streams), the poll
  loop, threads, sockets, the native protocol above its packets, resampling and mixing (floating point and
  vector code), device modules, the client library and the tools. The modules see of it the render
  function, states, latencies, clock and results of system calls, which are arguments. Of
  \<open>sample-util.c\<close> the (de)interleaving and the cache of silence, of \<open>memblock.c\<close> the imports and exports of
  shared memory and the pool's slots, of \<open>core-util.c\<close> everything but the text helpers is left out, because
  the audio path does not use it or it wraps system calls. Releasing memory for good (\<open>pa_xfree\<close>, free
  lists) is modelled where its omission or repetition is a question: block references and properties.
\<close>

subsection \<open>Sender, channel and receiver together\<close>



end
